(* ===== verification/Prelude.thy ===== *)
theory Prelude
  imports Main "HOL-Library.AList"
begin

text \<open>
  Shared vocabulary of the development: bytes and Go strings, the fixed-width reading of
  Go integers, Go maps as association lists, and the generic lemmas and hint collections
  the component theories use.

  A Go \<open>string\<close> and a Go \<open>[]byte\<close> are both sequences of bytes; they are
  modelled by Isabelle's \<open>string\<close> (a list of \<open>char\<close>, where a \<open>char\<close> is one byte).
  A Go map is an association list with distinct keys: the position of the entries stands
  for one of the iteration orders a Go \<open>range\<close> loop may choose.
\<close>

section \<open>Hint collections\<close>

named_theorems canon_simps "canonical forms of the header names the source uses"
named_theorems wf_intros "operations that keep the keys of a Go map distinct"

section \<open>Bytes\<close>

abbreviation byte :: "char \<Rightarrow> int" where
  "byte c \<equiv> of_char c"

definition is_digit :: "char \<Rightarrow> bool" where
  "is_digit c \<longleftrightarrow> 48 \<le> byte c \<and> byte c \<le> 57"

definition is_upper :: "char \<Rightarrow> bool" where
  "is_upper c \<longleftrightarrow> 65 \<le> byte c \<and> byte c \<le> 90"

definition is_lower :: "char \<Rightarrow> bool" where
  "is_lower c \<longleftrightarrow> 97 \<le> byte c \<and> byte c \<le> 122"

definition to_upper :: "char \<Rightarrow> char" where
  "to_upper c = (if is_lower c then char_of (byte c - 32) else c)"

definition to_lower :: "char \<Rightarrow> char" where
  "to_lower c = (if is_upper c then char_of (byte c + 32) else c)"

text \<open>The bytes that occur in line-oriented formats.\<close>

abbreviation CR :: char where "CR \<equiv> CHR 0x0D"
abbreviation LF :: char where "LF \<equiv> CHR 0x0A"
abbreviation TAB :: char where "TAB \<equiv> CHR 0x09"
abbreviation QUOTE :: char where "QUOTE \<equiv> CHR 0x22"
abbreviation BACKSLASH :: char where "BACKSLASH \<equiv> CHR 0x5C"
abbreviation CRLF :: string where "CRLF \<equiv> [CR, LF]"

section \<open>Fixed-width integers\<close>

text \<open>
  Go's \<open>int64\<close> arithmetic wraps around: \<open>wrap64\<close> is the signed value that keeps
  the low 64 bits. \<open>sat64\<close> is the saturation \<open>time.Time.Sub\<close> applies.
\<close>

definition max64 :: int where "max64 = 9223372036854775807"
definition min64 :: int where "min64 = - 9223372036854775808"

definition in64 :: "int \<Rightarrow> bool" where
  "in64 x \<longleftrightarrow> min64 \<le> x \<and> x \<le> max64"

definition wrap64 :: "int \<Rightarrow> int" where
  "wrap64 x = (x + 9223372036854775808) mod 18446744073709551616 - 9223372036854775808"

definition sat64 :: "int \<Rightarrow> int" where
  "sat64 x = (if x < min64 then min64 else if max64 < x then max64 else x)"

lemma wrap64_id: "in64 x \<Longrightarrow> wrap64 x = x"
  by (simp add: in64_def wrap64_def min64_def max64_def)

lemma wrap64_in64: "in64 (wrap64 x)"
  using pos_mod_bound [of 18446744073709551616 "x + 9223372036854775808"]
    pos_mod_sign [of 18446744073709551616 "x + 9223372036854775808"]
  by (simp add: in64_def wrap64_def min64_def max64_def)

lemma wrap64_overflow:
  assumes "9223372036854775808 \<le> x" and "x < 27670116110564327424"
  shows "wrap64 x = x - 18446744073709551616"
proof -
  have "(x + 9223372036854775808) mod 18446744073709551616 =
      (x - 9223372036854775808) mod 18446744073709551616"
    using mod_add_self2 [of "x - 9223372036854775808" 18446744073709551616]
    by (simp add: add.commute)
  also have "\<dots> = x - 9223372036854775808"
    using assms by simp
  finally show ?thesis by (simp add: wrap64_def)
qed

lemma sat64_in64: "in64 (sat64 x)"
  by (simp add: in64_def sat64_def min64_def max64_def)

lemma sat64_id: "in64 x \<Longrightarrow> sat64 x = x"
  by (simp add: in64_def sat64_def)

section \<open>Go maps as association lists\<close>

definition wf_map :: "('k \<times> 'v) list \<Rightarrow> bool" where
  "wf_map m \<longleftrightarrow> distinct (map fst m)"

lemma wf_map_Nil [simp, wf_intros]: "wf_map []"
  by (simp add: wf_map_def)

lemma wf_map_update [wf_intros]: "wf_map m \<Longrightarrow> wf_map (AList.update k v m)"
  by (simp add: wf_map_def distinct_update)

lemma wf_map_delete [wf_intros]: "wf_map m \<Longrightarrow> wf_map (AList.delete k m)"
  by (simp add: wf_map_def distinct_delete)

lemma map_of_update [simp]:
  "map_of (AList.update k v m) k' = (if k = k' then Some v else map_of m k')"
  by (simp add: update_conv)

lemma map_of_delete [simp]:
  "map_of (AList.delete k m) k' = (if k = k' then None else map_of m k')"
  by (simp add: delete_conv)

lemma wf_map_Some_iff: "wf_map m \<Longrightarrow> map_of m k = Some v \<longleftrightarrow> (k, v) \<in> set m"
  by (simp add: wf_map_def)

lemma map_of_perm:
  assumes "wf_map h" "set h' = set h" "distinct (map fst h')"
  shows "map_of h' = map_of h"
proof
  fix k
  show "map_of h' k = map_of h k"
    using assms map_of_eq_Some_iff [of h'] map_of_eq_Some_iff [of h]
    by (metis not_Some_eq wf_map_def)
qed

lemma wf_map_filter: "wf_map h \<Longrightarrow> wf_map (filter P h)"
  by (induction h) (auto simp: wf_map_def)

lemma map_of_filter_key:
  "wf_map h \<Longrightarrow> (\<And>vs. (k, vs) \<in> set h \<Longrightarrow> P (k, vs)) \<Longrightarrow> map_of (filter P h) k = map_of h k"
proof (induction h)
  case Nil
  then show ?case by simp
next
  case (Cons e h)
  obtain k' vs where e: "e = (k', vs)" by force
  from Cons.prems(1) have wf: "wf_map h" by (simp add: wf_map_def e)
  have "map_of (filter P h) k = map_of h k"
    using Cons.prems(2) by (intro Cons.IH [OF wf]) auto
  then show ?case using Cons.prems(2) [of vs] by (auto simp: e)
qed

section \<open>Lists\<close>

lemma dropWhile_hd: "dropWhile P xs = y # ys \<Longrightarrow> \<not> P y"
  by (metis hd_dropWhile list.distinct(1) list.sel(1))

lemma set_dropWhile_subset: "set (dropWhile P xs) \<subseteq> set xs"
  by (induction xs) auto

lemma length_dropWhile_less: "xs \<noteq> [] \<Longrightarrow> P (hd xs) \<Longrightarrow> length (dropWhile P xs) < length xs"
  by (cases xs) (auto simp: le_imp_less_Suc length_dropWhile_le)

end
