(* ===== verification/Go_Strings.thy ===== *)
theory Go_Strings
  imports Prelude
begin

text \<open>
  The functions of Go's \<open>strings\<close> and \<open>strconv\<close> packages the source calls, and the
  helpers of \<open>internal/strings.go\<close>.
\<close>

section \<open>strings: Split, Trim, TrimSpace, Contains\<close>

text \<open>\<open>strings.Split(s, sep)\<close> for a one-byte separator: the empty string gives one empty field.\<close>

fun split_on :: "char \<Rightarrow> string \<Rightarrow> string list" where
  "split_on d [] = [[]]"
| "split_on d (c # cs) =
     (if c = d then [] # split_on d cs
      else (case split_on d cs of [] \<Rightarrow> [[c]] | x # xs \<Rightarrow> (c # x) # xs))"

definition trim_set :: "(char \<Rightarrow> bool) \<Rightarrow> string \<Rightarrow> string" where
  "trim_set P s = rev (dropWhile P (rev (dropWhile P s)))"

definition trim :: "string \<Rightarrow> string \<Rightarrow> string" where
  "trim s cutset = trim_set (\<lambda>c. c \<in> set cutset) s"

text \<open>\<open>unicode.IsSpace\<close> on ASCII bytes.\<close>

definition is_space :: "char \<Rightarrow> bool" where
  "is_space c \<longleftrightarrow> c \<in> {CHR 0x20, CHR 0x09, CHR 0x0A, CHR 0x0B, CHR 0x0C, CHR 0x0D}"

definition trim_space :: "string \<Rightarrow> string" where
  "trim_space s = trim_set is_space s"

definition has_prefix :: "string \<Rightarrow> string \<Rightarrow> bool" where
  "has_prefix s p \<longleftrightarrow> take (length p) s = p"

fun contains :: "string \<Rightarrow> string \<Rightarrow> bool" where
  "contains [] sub \<longleftrightarrow> sub = []"
| "contains (c # cs) sub \<longleftrightarrow> has_prefix (c # cs) sub \<or> contains cs sub"

fun join_on :: "char \<Rightarrow> string list \<Rightarrow> string" where
  "join_on d [] = []"
| "join_on d [x] = x"
| "join_on d (x # y # xs) = x @ d # join_on d (y # xs)"

lemma split_on_not_Nil [simp]: "split_on d s \<noteq> []"
  by (induction s) (auto split: list.splits)

lemma join_split: "join_on d (split_on d s) = s"
proof (induction s)
  case Nil
  then show ?case by simp
next
  case (Cons c s)
  obtain x xs where "split_on d s = x # xs"
    by (cases "split_on d s") auto
  with Cons show ?case by (cases xs) auto
qed

lemma split_on_no_sep: "x \<in> set (split_on d s) \<Longrightarrow> d \<notin> set x"
  by (induction s arbitrary: x) (auto split: list.splits if_splits)

lemma split_on_append_sep: "d \<notin> set x \<Longrightarrow> split_on d (x @ d # s) = x # split_on d s"
  by (induction x) auto

lemma split_on_single: "d \<notin> set x \<Longrightarrow> split_on d x = [x]"
  by (induction x) auto

lemma split_join:
  "xs \<noteq> [] \<Longrightarrow> \<forall>x\<in>set xs. d \<notin> set x \<Longrightarrow> split_on d (join_on d xs) = xs"
  by (induction d xs rule: join_on.induct) (auto simp: split_on_single split_on_append_sep)

lemma set_trim_set: "set (trim_set P s) \<subseteq> set s"
  using set_dropWhile_subset [of P "rev (dropWhile P s)"] set_dropWhile_subset [of P s]
  by (auto simp: trim_set_def)

lemma trim_set_id:
  assumes "s = [] \<or> (\<not> P (hd s) \<and> \<not> P (last s))"
  shows "trim_set P s = s"
proof (cases "s = []")
  case True
  then show ?thesis by (simp add: trim_set_def)
next
  case False
  with assms have "dropWhile P s = s" and "dropWhile P (rev s) = rev s"
    by (simp_all add: dropWhile_eq_self_iff hd_rev)
  then show ?thesis by (simp add: trim_set_def)
qed

lemma trim_set_ends: "trim_set P s \<noteq> [] \<Longrightarrow> \<not> P (hd (trim_set P s)) \<and> \<not> P (last (trim_set P s))"
proof -
  let ?a = "dropWhile P s"
  let ?b = "dropWhile P (rev ?a)"
  assume ne: "trim_set P s \<noteq> []"
  then have b: "?b \<noteq> []" by (simp add: trim_set_def)
  then have last: "\<not> P (last (trim_set P s))"
    using hd_dropWhile [of P "rev ?a"] by (simp add: trim_set_def last_rev)
  from b have a: "?a \<noteq> []" by (metis dropWhile.simps(1) rev.simps(1))
  then have "\<not> P (hd ?a)" by (rule hd_dropWhile)
  moreover obtain zs where "rev ?a = zs @ ?b"
    using takeWhile_dropWhile_id [of P "rev ?a"] by metis
  then have "?a = rev ?b @ rev zs" by (metis rev_append rev_rev_ident)
  with b have "hd ?a = hd (rev ?b)" by (metis hd_append2 rev_is_Nil_conv)
  ultimately show ?thesis using last by (simp add: trim_set_def)
qed

lemma trim_set_idem: "trim_set P (trim_set P s) = trim_set P s"
  by (rule trim_set_id) (use trim_set_ends in blast)

lemma contains_iff: "contains s sub \<longleftrightarrow> (\<exists>a b. s = a @ sub @ b)"
proof (induction s)
  case Nil
  then show ?case by auto
next
  case (Cons c s)
  have "has_prefix (c # s) sub \<longleftrightarrow> (\<exists>b. c # s = sub @ b)"
    unfolding has_prefix_def by (metis append_eq_conv_conj append_take_drop_id)
  with Cons show ?case
    by (auto simp: Cons_eq_append_conv)
qed

section \<open>strconv.Itoa and decimal digits\<close>

definition digit_char :: "int \<Rightarrow> char" where
  "digit_char d = char_of (d + 48)"

definition digit_val :: "char \<Rightarrow> int" where
  "digit_val c = byte c - 48"

function utoa :: "int \<Rightarrow> string" where
  "utoa n = (if n < 10 then [digit_char n] else utoa (n div 10) @ [digit_char (n mod 10)])"
  by pat_completeness auto
termination
  by (relation "measure nat") auto

declare utoa.simps [simp del]

definition itoa :: "int \<Rightarrow> string" where
  "itoa n = (if n < 0 then CHR ''-'' # utoa (- n) else utoa n)"

definition atou :: "string \<Rightarrow> int" where
  "atou s = foldl (\<lambda>n c. n * 10 + digit_val c) 0 s"

lemma digit_char_val:
  assumes "0 \<le> d" "d < 10"
  shows "digit_val (digit_char d) = d" and "is_digit (digit_char d)"
proof -
  from assms have "d \<in> {0, 1, 2, 3, 4, 5, 6, 7, 8, 9}"
    by (simp only: insert_iff empty_iff) presburger
  then show "digit_val (digit_char d) = d" and "is_digit (digit_char d)"
    by (auto simp: digit_val_def digit_char_def is_digit_def)
qed

lemma utoa_not_Nil [simp]: "utoa n \<noteq> []"
  by (subst utoa.simps) simp

lemma atou_utoa: "0 \<le> n \<Longrightarrow> atou (utoa n) = n"
proof (induction n rule: utoa.induct)
  case (1 n)
  show ?case
  proof (cases "n < 10")
    case True
    with 1 show ?thesis by (subst utoa.simps) (simp add: atou_def digit_char_val)
  next
    case False
    with 1 have "atou (utoa (n div 10)) = n div 10" by simp
    with False show ?thesis
      by (subst utoa.simps) (simp add: atou_def digit_char_val)
  qed
qed

lemma utoa_digits: "0 \<le> n \<Longrightarrow> \<forall>c\<in>set (utoa n). is_digit c"
proof (induction n rule: utoa.induct)
  case (1 n)
  show ?case
  proof (cases "n < 10")
    case True
    with 1 show ?thesis by (subst utoa.simps) (simp add: digit_char_val)
  next
    case False
    with 1 have "\<forall>c\<in>set (utoa (n div 10)). is_digit c" by simp
    with False show ?thesis by (subst utoa.simps) (simp add: digit_char_val)
  qed
qed

section \<open>internal/strings.go\<close>

definition DefaultString :: "string \<Rightarrow> string \<Rightarrow> string" where
  "DefaultString val valDefault = (if val \<noteq> [] then val else valDefault)"

definition DefaultRune :: "int \<Rightarrow> int \<Rightarrow> int" where
  "DefaultRune val valDefault = (if val \<noteq> 0 then val else valDefault)"

fun ContainsString :: "string list \<Rightarrow> string \<Rightarrow> bool" where
  "ContainsString [] e \<longleftrightarrow> False"
| "ContainsString (a # s) e \<longleftrightarrow> (if a = e then True else ContainsString s e)"

fun ContainsInt :: "int list \<Rightarrow> int \<Rightarrow> bool" where
  "ContainsInt [] e \<longleftrightarrow> False"
| "ContainsInt (a # s) e \<longleftrightarrow> (if a = e then True else ContainsInt s e)"

lemma ContainsString_iff [simp]: "ContainsString s e \<longleftrightarrow> e \<in> set s"
  by (induction s) auto

lemma ContainsInt_iff [simp]: "ContainsInt s e \<longleftrightarrow> e \<in> set s"
  by (induction s) auto

end
