(* ===== verification/Http.thy ===== *)
theory Http
  imports Go_Strings
begin

text \<open>
  The part of Go's \<open>net/http\<close> data model the source works on: canonical header names,
  \<open>http.Header\<close> as a Go map from canonical names to lists of values, URLs, requests and
  responses.

  A \<open>url\<close> keeps the fields the source reads and, in \<open>URLString\<close>, the text
  \<open>URL.String()\<close> renders; parsing and escaping of \<open>net/url\<close> are outside the model.
\<close>

section \<open>Canonical header names\<close>

text \<open>\<open>http.CanonicalHeaderKey\<close>: a name with a byte outside the token alphabet is left as it is.\<close>

definition validHeaderFieldByte :: "char \<Rightarrow> bool" where
  "validHeaderFieldByte c \<longleftrightarrow>
     is_digit c \<or> is_lower c \<or> is_upper c \<or> c \<in> set (CHR 0x27 # ''!#$%&*+-.^_`|~'')"

fun canonical_bytes :: "bool \<Rightarrow> string \<Rightarrow> string" where
  "canonical_bytes upper [] = []"
| "canonical_bytes upper (c # cs) =
     (if upper then to_upper c else to_lower c) # canonical_bytes (c = CHR ''-'') cs"

definition CanonicalHeaderKey :: "string \<Rightarrow> string" where
  "CanonicalHeaderKey s = (if list_all validHeaderFieldByte s then canonical_bytes True s else s)"

lemma char_case_facts:
  "validHeaderFieldByte (to_upper c) = validHeaderFieldByte c"
  "validHeaderFieldByte (to_lower c) = validHeaderFieldByte c"
  "(to_upper c = CHR ''-'') = (c = CHR ''-'')"
  "(to_lower c = CHR ''-'') = (c = CHR ''-'')"
  "to_upper (to_upper c) = to_upper c"
  "to_lower (to_lower c) = to_lower c"
proof -
  have "\<forall>c. (validHeaderFieldByte (to_upper c) = validHeaderFieldByte c) \<and>
     (validHeaderFieldByte (to_lower c) = validHeaderFieldByte c) \<and>
     ((to_upper c = CHR ''-'') = (c = CHR ''-'')) \<and>
     ((to_lower c = CHR ''-'') = (c = CHR ''-'')) \<and>
     to_upper (to_upper c) = to_upper c \<and> to_lower (to_lower c) = to_lower c"
    by code_simp
  then show "validHeaderFieldByte (to_upper c) = validHeaderFieldByte c"
    "validHeaderFieldByte (to_lower c) = validHeaderFieldByte c"
    "(to_upper c = CHR ''-'') = (c = CHR ''-'')"
    "(to_lower c = CHR ''-'') = (c = CHR ''-'')"
    "to_upper (to_upper c) = to_upper c"
    "to_lower (to_lower c) = to_lower c"
    by blast+
qed

lemma canonical_bytes_idem: "canonical_bytes u (canonical_bytes u s) = canonical_bytes u s"
  by (induction u s rule: canonical_bytes.induct) (auto simp: char_case_facts)

lemma canonical_bytes_valid:
  "list_all validHeaderFieldByte (canonical_bytes u s) = list_all validHeaderFieldByte s"
  by (induction u s rule: canonical_bytes.induct) (auto simp: char_case_facts)

lemma CanonicalHeaderKey_idem [simp]:
  "CanonicalHeaderKey (CanonicalHeaderKey s) = CanonicalHeaderKey s"
  by (simp add: CanonicalHeaderKey_def canonical_bytes_idem canonical_bytes_valid)

lemma CanonicalHeaderKey_Nil [simp]: "CanonicalHeaderKey [] = []"
  by (simp add: CanonicalHeaderKey_def)

lemma length_CanonicalHeaderKey [simp]: "length (CanonicalHeaderKey s) = length s"
proof -
  have "length (canonical_bytes u s) = length s" for u
    by (induction u s rule: canonical_bytes.induct) auto
  then show ?thesis by (simp add: CanonicalHeaderKey_def)
qed

lemma CanonicalHeaderKey_eq_Nil [simp]: "CanonicalHeaderKey s = [] \<longleftrightarrow> s = []"
  by (metis length_0_conv length_CanonicalHeaderKey)

section \<open>http.Header\<close>

type_synonym header = "(string \<times> string list) list"

definition header_values :: "header \<Rightarrow> string \<Rightarrow> string list" where
  "header_values h k = (case map_of h k of None \<Rightarrow> [] | Some vs \<Rightarrow> vs)"

definition header_get :: "header \<Rightarrow> string \<Rightarrow> string" where
  "header_get h key = (case header_values h (CanonicalHeaderKey key) of [] \<Rightarrow> [] | v # vs \<Rightarrow> v)"

definition header_set :: "header \<Rightarrow> string \<Rightarrow> string \<Rightarrow> header" where
  "header_set h key value = AList.update (CanonicalHeaderKey key) [value] h"

text \<open>A header built by the \<open>net/http\<close> operations: distinct keys, all canonical.\<close>

definition wf_header :: "header \<Rightarrow> bool" where
  "wf_header h \<longleftrightarrow> wf_map h \<and> (\<forall>k\<in>fst ` set h. CanonicalHeaderKey k = k)"

lemma header_get_set [simp]:
  "header_get (header_set h k v) k' =
     (if CanonicalHeaderKey k' = CanonicalHeaderKey k then v else header_get h k')"
  by (simp add: header_get_def header_set_def header_values_def)

lemma header_values_set [simp]:
  "header_values (header_set h k v) k' =
     (if k' = CanonicalHeaderKey k then [v] else header_values h k')"
  by (simp add: header_set_def header_values_def)

lemma map_of_header_set [simp]:
  "map_of (header_set h k v) k' = (if k' = CanonicalHeaderKey k then Some [v] else map_of h k')"
  by (simp add: header_set_def)

lemma header_get_canonical [simp]: "header_get h (CanonicalHeaderKey k) = header_get h k"
  by (simp add: header_get_def)

lemma header_set_canonical [simp]: "header_set h (CanonicalHeaderKey k) = header_set h k"
  by (rule ext) (simp add: header_set_def)

lemma header_get_cong: "map_of h = map_of h' \<Longrightarrow> header_get h = header_get h'"
  by (rule ext) (simp add: header_get_def header_values_def)

lemma wf_header_Nil [simp, wf_intros]: "wf_header []"
  by (simp add: wf_header_def)

lemma wf_header_iff:
  "wf_header h \<longleftrightarrow> wf_map h \<and> (\<forall>k\<in>dom (map_of h). CanonicalHeaderKey k = k)"
  by (simp add: wf_header_def dom_map_of_conv_image_fst)

lemma wf_header_set [wf_intros]: "wf_header h \<Longrightarrow> wf_header (header_set h k v)"
  by (simp add: wf_header_iff header_set_def wf_map_update dom_def)

section \<open>URLs, requests, responses\<close>

record url =
  Scheme :: string
  URLHost :: string
  Path :: string
  URLString :: string

text \<open>The fields of \<open>http.Request\<close> the source reads or writes; the body is a byte string.\<close>

record http_request =
  Method :: string
  URL :: url
  RHost :: string
  ReqHeader :: header
  ReqBody :: string

text \<open>
  The fields of \<open>http.Response\<close> the source and \<open>httputil.DumpResponse\<close> read.
  \<open>Status\<close> is the text after the protocol, such as \<open>200 OK\<close>. \<open>Body\<close> is the byte string a
  reader of the body gets, and \<open>BodyErr\<close> says that it then gets an error instead of EOF.
  \<open>ContentLength\<close> is \<open>-1\<close> when unknown; \<open>Chunked\<close> stands for
  \<open>TransferEncoding = ["chunked"]\<close>.
\<close>

record http_response =
  Status :: string
  StatusCode :: int
  Proto :: string
  ProtoMajor :: int
  ProtoMinor :: int
  Header :: header
  Body :: string
  BodyErr :: bool
  ContentLength :: int
  Chunked :: bool
  Close :: bool
  Uncompressed :: bool

text \<open>An HTTP/1.1 response whose length is known, and a plain request: used in examples.\<close>

definition mk_response :: "string \<Rightarrow> int \<Rightarrow> header \<Rightarrow> string \<Rightarrow> http_response" where
  "mk_response status code h body =
     \<lparr>Status = status, StatusCode = code, Proto = ''HTTP/1.1'', ProtoMajor = 1, ProtoMinor = 1, Header = h,
      Body = body, BodyErr = False, ContentLength = int (length body), Chunked = False,
      Close = False, Uncompressed = False\<rparr>"

definition mk_request :: "string \<Rightarrow> string \<Rightarrow> string \<Rightarrow> header \<Rightarrow> http_request" where
  "mk_request method host path h =
     \<lparr>Method = method,
      URL = \<lparr>Scheme = ''http'', URLHost = host, Path = path,
             URLString = ''http://'' @ host @ path\<rparr>,
      RHost = host, ReqHeader = h, ReqBody = []\<rparr>"

lemma mk_response_sel [simp]:
  "Status (mk_response st code h b) = st" "StatusCode (mk_response st code h b) = code"
  "Header (mk_response st code h b) = h" "Body (mk_response st code h b) = b"
  "BodyErr (mk_response st code h b) = False"
  "ContentLength (mk_response st code h b) = int (length b)"
  by (simp_all add: mk_response_def)

lemma mk_request_sel [simp]:
  "Method (mk_request m host p h) = m" "RHost (mk_request m host p h) = host"
  "ReqHeader (mk_request m host p h) = h" "ReqBody (mk_request m host p h) = []"
  "URLString (URL (mk_request m host p h)) = ''http://'' @ host @ p"
  "Path (URL (mk_request m host p h)) = p" "Scheme (URL (mk_request m host p h)) = ''http''"
  by (simp_all add: mk_request_def)

section \<open>Helpers of client/client.go on headers\<close>

definition SetDefaultHeader :: "header \<Rightarrow> string \<Rightarrow> string \<Rightarrow> header" where
  "SetDefaultHeader header key value =
     (if header_get header key = [] then header_set header key value else header)"

text \<open>
  \<open>ConvertHeaderToMap\<close>: the inner loop assigns every value of a key in turn, so the last one
  stays; a key without values gets no entry.
\<close>

definition ConvertHeaderToMap :: "header \<Rightarrow> (string \<times> string) list" where
  "ConvertHeaderToMap header =
     foldl (\<lambda>m (key, values). foldl (\<lambda>m value. AList.update key value m) m values) [] header"

text \<open>
  \<open>ConvertMapToHeader\<close> over values of a dynamic type: the type assertion \<open>v.(string)\<close>
  panics on anything but a string.
\<close>

datatype iface = IString string | IOther

fun ConvertMapToHeader_from :: "header \<Rightarrow> (string \<times> iface) list \<Rightarrow> header option" where
  "ConvertMapToHeader_from header [] = Some header"
| "ConvertMapToHeader_from header ((k, v) # m) =
     (case v of IString s \<Rightarrow> ConvertMapToHeader_from (header_set header k s) m | IOther \<Rightarrow> None)"

definition ConvertMapToHeader :: "(string \<times> iface) list \<Rightarrow> header option" where
  "ConvertMapToHeader m = ConvertMapToHeader_from [] m"

lemma SetDefaultHeader_get:
  "header_get (SetDefaultHeader h k v) k' =
     (if CanonicalHeaderKey k' = CanonicalHeaderKey k \<and> header_get h k = [] then v
      else header_get h k')"
  by (simp add: SetDefaultHeader_def)

lemma wf_SetDefaultHeader [wf_intros]: "wf_header h \<Longrightarrow> wf_header (SetDefaultHeader h k v)"
  by (simp add: SetDefaultHeader_def wf_header_set)

lemma foldl_update_values:
  "map_of (foldl (\<lambda>m value. AList.update key value m) m vs) k =
     (if k = key \<and> vs \<noteq> [] then Some (last vs) else map_of m k)"
  by (induction vs arbitrary: m) auto

lemma ConvertHeaderToMap_gen:
  "wf_map h \<Longrightarrow>
   map_of (foldl (\<lambda>m (key, values). foldl (\<lambda>m value. AList.update key value m) m values) m h) k =
     (if header_values h k \<noteq> [] then Some (last (header_values h k)) else map_of m k)"
proof (induction h arbitrary: m)
  case Nil
  then show ?case by (simp add: header_values_def)
next
  case (Cons kv h)
  obtain key vs where kv: "kv = (key, vs)" by force
  from Cons.prems have wf: "wf_map h" and fresh: "map_of h key = None"
    by (auto simp: wf_map_def kv map_of_eq_None_iff)
  show ?case
    using Cons.IH [OF wf] fresh
    by (auto simp: kv header_values_def foldl_update_values)
qed

lemma ConvertMapToHeader_from_None:
  "ConvertMapToHeader_from h m = None \<longleftrightarrow> (\<exists>k. (k, IOther) \<in> set m)"
  by (induction h m rule: ConvertMapToHeader_from.induct) (auto split: iface.splits)

end
