(* ===== verification/Wire.thy ===== *)
theory Wire
  imports Http "HOL-Library.Char_ord" "HOL-Library.List_Lexorder"
begin

text \<open>
  The HTTP/1.x wire format the cache stores responses in: \<open>httputil.DumpResponse(resp, true)\<close>,
  that is \<open>http.Response.Write\<close>, and \<open>http.ReadResponse\<close>. The three framings
  (\<open>Content-Length\<close>, chunked, until close) are modelled; trailers, folded header lines and
  repeated \<open>Content-Length\<close> headers are not.
\<close>

section \<open>Writing\<close>

definition bodyAllowedForStatus :: "int \<Rightarrow> bool" where
  "bodyAllowedForStatus status \<longleftrightarrow>
     \<not> (100 \<le> status \<and> status \<le> 199) \<and> status \<noteq> 204 \<and> status \<noteq> 304"

definition is_token_boundary :: "char \<Rightarrow> bool" where
  "is_token_boundary c \<longleftrightarrow> c = CHR '' '' \<or> c = CHR '','' \<or> c = TAB"

text \<open>\<open>hasToken\<close>: the token, in any letter case, between boundaries.\<close>

fun has_token_from :: "bool \<Rightarrow> string \<Rightarrow> string \<Rightarrow> bool" where
  "has_token_from bnd [] token = False"
| "has_token_from bnd (c # cs) token =
     ((bnd \<and> length token \<le> length (c # cs)
        \<and> map to_lower (take (length token) (c # cs)) = token
        \<and> (drop (length token) (c # cs) = [] \<or> is_token_boundary (hd (drop (length token) (c # cs)))))
      \<or> has_token_from (is_token_boundary c) cs token)"

definition hasToken :: "string \<Rightarrow> string \<Rightarrow> bool" where
  "hasToken v token = has_token_from True v token"

text \<open>The chunk sizes of the chunked coding are hexadecimal.\<close>

definition hex_char :: "int \<Rightarrow> char" where
  "hex_char d = (if d < 10 then char_of (d + 48) else char_of (d + 87))"

definition hex_val :: "char \<Rightarrow> int option" where
  "hex_val c = (if is_digit c then Some (byte c - 48)
     else if 97 \<le> byte c \<and> byte c \<le> 102 then Some (byte c - 87)
     else if 65 \<le> byte c \<and> byte c \<le> 70 then Some (byte c - 55)
     else None)"

function to_hex :: "int \<Rightarrow> string" where
  "to_hex n = (if n < 16 then [hex_char n] else to_hex (n div 16) @ [hex_char (n mod 16)])"
  by pat_completeness auto
termination
  by (relation "measure nat") auto

declare to_hex.simps [simp del]

fun of_hex :: "int \<Rightarrow> string \<Rightarrow> int option" where
  "of_hex n [] = Some n"
| "of_hex n (c # cs) = (case hex_val c of None \<Rightarrow> None | Some d \<Rightarrow> of_hex (n * 16 + d) cs)"

definition header_line :: "string \<Rightarrow> string \<Rightarrow> string" where
  "header_line k v = k @ '': '' @ v @ CRLF"

definition newline_to_space :: "string \<Rightarrow> string" where
  "newline_to_space v = map (\<lambda>c. if c = CR \<or> c = LF then CHR '' '' else c) v"

definition ascii_space :: "char \<Rightarrow> bool" where
  "ascii_space c \<longleftrightarrow> c = CHR '' '' \<or> c = TAB \<or> c = LF \<or> c = CR"

text \<open>\<open>Header.WriteSubset\<close>: the keys in byte order, the values of a key in their order.\<close>

definition excluded_headers :: "string list" where
  "excluded_headers = [''Content-Length'', ''Transfer-Encoding'', ''Trailer'']"

definition write_header :: "header \<Rightarrow> string" where
  "write_header h =
     concat (map (\<lambda>(k, vs).
         concat (map (\<lambda>v. header_line k (trim_set ascii_space (newline_to_space v))) vs))
       (sort_key fst
         (filter (\<lambda>(k, vs). k \<notin> set excluded_headers \<and> k \<noteq> [] \<and> list_all validHeaderFieldByte k) h)))"

definition status_text :: "http_response \<Rightarrow> string" where
  "status_text r =
     (let p = itoa (StatusCode r) @ '' ''
      in if has_prefix (Status r) p then drop (length p) (Status r) else Status r)"

definition pad3 :: "int \<Rightarrow> string" where
  "pad3 n = (let s = itoa n in replicate (3 - length s) CHR ''0'' @ s)"

definition status_line :: "http_response \<Rightarrow> string" where
  "status_line r = ''HTTP/'' @ itoa (ProtoMajor r) @ ''.'' @ itoa (ProtoMinor r) @ '' ''
     @ pad3 (StatusCode r) @ '' '' @ status_text r @ CRLF"

definition proto_at_least_1_1 :: "http_response \<Rightarrow> bool" where
  "proto_at_least_1_1 r \<longleftrightarrow> 1 < ProtoMajor r \<or> ProtoMajor r = 1 \<and> 1 \<le> ProtoMinor r"

text \<open>
  The framing \<open>Response.Write\<close> settles on for the answer to a request with the given method:
  \<open>wire_length\<close> is the content length after the probe of the body and the transfer
  writer's clean-up, \<open>wire_chunked\<close> the transfer encoding it keeps.
\<close>

definition wire_chunked :: "http_response \<Rightarrow> bool" where
  "wire_chunked r \<longleftrightarrow> Chunked r \<and> proto_at_least_1_1 r"

definition wire_length :: "http_response \<Rightarrow> int" where
  "wire_length r =
     (if wire_chunked r then - 1
      else if ContentLength r = 0 \<and> Body r \<noteq> [] then - 1
      else ContentLength r)"

definition wire_close :: "http_response \<Rightarrow> bool" where
  "wire_close r \<longleftrightarrow> Close r \<or>
     ((ContentLength r = - 1 \<or> ContentLength r = 0 \<and> Body r \<noteq> []) \<and> proto_at_least_1_1 r
        \<and> \<not> Chunked r \<and> \<not> Uncompressed r)"

definition framing_header :: "string \<Rightarrow> http_response \<Rightarrow> string" where
  "framing_header method r =
     (if wire_close r \<and> \<not> hasToken (header_get (Header r) ''Connection'') ''close''
      then header_line ''Connection'' ''close'' else [])
     @ (if wire_chunked r then header_line ''Transfer-Encoding'' ''chunked''
        else if 0 < wire_length r \<or>
            wire_length r = 0 \<and> (method = ''POST'' \<or> method = ''PUT'' \<or> method = ''PATCH'')
        then header_line ''Content-Length'' (itoa (wire_length r))
        else [])"

definition zero_length_header :: "string \<Rightarrow> http_response \<Rightarrow> string" where
  "zero_length_header method r =
     (if wire_length r = 0 \<and> \<not> wire_chunked r
        \<and> \<not> (method = ''POST'' \<or> method = ''PUT'' \<or> method = ''PATCH'')
        \<and> bodyAllowedForStatus (StatusCode r)
      then header_line ''Content-Length'' ''0'' else [])"

definition write_body :: "string \<Rightarrow> http_response \<Rightarrow> string option" where
  "write_body method r =
     (if method = ''HEAD'' then Some []
      else if wire_chunked r then
        Some ((if Body r = [] then [] else to_hex (int (length (Body r))) @ CRLF @ Body r @ CRLF)
              @ ''0'' @ CRLF @ CRLF)
      else if wire_length r = - 1 then Some (Body r)
      else if wire_length r = int (length (Body r)) then Some (Body r)
      else None)"

definition DumpResponse :: "string \<Rightarrow> http_response \<Rightarrow> string option" where
  "DumpResponse method r =
     (if BodyErr r then None
      else (case write_body method r of None \<Rightarrow> None
      | Some b \<Rightarrow> Some (status_line r @ framing_header method r @ write_header (Header r)
                          @ zero_length_header method r @ CRLF @ b)))"

section \<open>Reading\<close>

text \<open>A line up to LF, without the CR before it.\<close>

fun read_line :: "string \<Rightarrow> (string \<times> string) option" where
  "read_line [] = None"
| "read_line (c # cs) =
     (if c = LF then Some ([], cs)
      else case read_line cs of None \<Rightarrow> None
      | Some (l, rest) \<Rightarrow> Some (if c = CR \<and> l = [] \<and> cs \<noteq> [] \<and> hd cs = LF then [] else c # l, rest))"

lemma read_line_length: "read_line s = Some (l, r) \<Longrightarrow> length r < length s"
  by (induction s arbitrary: l r) (fastforce split: if_splits option.splits)+

definition header_add :: "header \<Rightarrow> string \<Rightarrow> string \<Rightarrow> header" where
  "header_add h k v = AList.update k (header_values h k @ [v]) h"

definition parse_header_line :: "string \<Rightarrow> (string \<times> string) option" where
  "parse_header_line line =
     (let k = takeWhile (\<lambda>c. c \<noteq> CHR '':'') line; rest = dropWhile (\<lambda>c. c \<noteq> CHR '':'') line
      in if rest = [] \<or> k = [] \<or> \<not> list_all validHeaderFieldByte k then None
         else Some (CanonicalHeaderKey k, trim_set (\<lambda>c. c = CHR '' '' \<or> c = TAB) (tl rest)))"

function read_header :: "header \<Rightarrow> string \<Rightarrow> (header \<times> string) option" where
  "read_header h s =
     (case read_line s of None \<Rightarrow> None
      | Some (l, rest) \<Rightarrow>
          if l = [] then Some (h, rest)
          else (case parse_header_line l of None \<Rightarrow> None
          | Some (k, v) \<Rightarrow> read_header (header_add h k v) rest))"
  by pat_completeness auto
termination
  by (relation "measure (\<lambda>(h, s). length s)") (auto dest: read_line_length)

declare read_header.simps [simp del]

text \<open>\<open>ParseHTTPVersion\<close> and the status line.\<close>

definition parse_status_line ::
  "string \<Rightarrow> (int \<times> int \<times> string \<times> int) option" where
  "parse_status_line line =
     (let proto = takeWhile (\<lambda>c. c \<noteq> CHR '' '') line;
          status = dropWhile (\<lambda>c. c = CHR '' '') (dropWhile (\<lambda>c. c \<noteq> CHR '' '') line);
          code = takeWhile (\<lambda>c. c \<noteq> CHR '' '') status
      in if CHR '' '' \<notin> set line \<or> length proto \<noteq> 8 \<or> take 5 proto \<noteq> ''HTTP/'' \<or> proto ! 6 \<noteq> CHR ''.''
            \<or> \<not> is_digit (proto ! 5) \<or> \<not> is_digit (proto ! 7)
            \<or> length code \<noteq> 3 \<or> \<not> list_all is_digit code
         then None
         else Some (digit_val (proto ! 5), digit_val (proto ! 7), status, atou code))"

definition fixPragmaCacheControl :: "header \<Rightarrow> header" where
  "fixPragmaCacheControl h =
     (if header_values h ''Pragma'' \<noteq> [] \<and> hd (header_values h ''Pragma'') = ''no-cache''
        \<and> map_of h ''Cache-Control'' = None
      then AList.update ''Cache-Control'' [''no-cache''] h else h)"

text \<open>
  A chunked body: chunks until the empty one; a missing or broken chunk is a read error. The
  result is the body and whether reading it ends in an error.
\<close>

function read_chunks :: "string \<Rightarrow> string \<times> bool" where
  "read_chunks s =
     (case read_line s of None \<Rightarrow> ([], True)
      | Some (l, rest) \<Rightarrow>
          (case (if l = [] then None else of_hex 0 l) of None \<Rightarrow> ([], True)
           | Some n \<Rightarrow>
               if n \<le> 0 then ([], False)
               else if int (length rest) < n + 2 then (take (nat n) rest, True)
               else (let (b, e) = read_chunks (drop (nat n + 2) rest)
                     in (take (nat n) rest @ b, e))))"
  by pat_completeness auto
termination
  by (relation "measure length") (auto dest: read_line_length)

declare read_chunks.simps [simp del]

definition parse_length :: "header \<Rightarrow> int option option" where
  "parse_length h =
     (case header_values h ''Content-Length'' of [] \<Rightarrow> Some None
      | v # vs \<Rightarrow> if v \<noteq> [] \<and> list_all is_digit v then Some (Some (atou v)) else None)"

text \<open>
  \<open>readTransfer\<close>: the body of a response to a request with the given method, and the
  length, chunked and close fields.
\<close>

definition read_transfer :: "string \<Rightarrow> http_response \<Rightarrow> string \<Rightarrow> http_response option" where
  "read_transfer method r s =
     (let h = Header r;
          chunked = map_of h ''Transfer-Encoding'' \<noteq> None \<and> proto_at_least_1_1 r;
          te = header_values h ''Transfer-Encoding'';
          h1 = AList.delete ''Transfer-Encoding'' h;
          h2 = (if chunked then AList.delete ''Content-Length'' h1 else h1);
          close = ProtoMajor r < 1 \<or> list_ex (\<lambda>v. hasToken v ''close'') (header_values h ''Connection'')
            \<or> ProtoMajor r = 1 \<and> ProtoMinor r = 0
                \<and> \<not> list_ex (\<lambda>v. hasToken v ''keep-alive'') (header_values h ''Connection'')
      in if chunked \<and> map (map to_lower) te \<noteq> [''chunked''] then None
         else (case parse_length h2 of None \<Rightarrow> None
         | Some cl \<Rightarrow>
             (let nobody = method = ''HEAD'' \<or> \<not> bodyAllowedForStatus (StatusCode r);
                  real = (if nobody then 0 else if chunked then - 1
                          else case cl of None \<Rightarrow> - 1 | Some n \<Rightarrow> n);
                  len = (if method = ''HEAD'' then (case cl of None \<Rightarrow> - 1 | Some n \<Rightarrow> n) else real);
                  close' = (close \<or> real = - 1 \<and> \<not> chunked);
                  (b, e) = (if nobody then ([], False)
                            else if chunked then read_chunks s
                            else if real = - 1 then (s, False)
                            else (take (nat real) s, int (length s) < real))
              in Some (r\<lparr>Header := h2, Body := b, BodyErr := e, ContentLength := len,
                         Chunked := chunked, Close := close'\<rparr>))))"

definition ReadResponse :: "string \<Rightarrow> string \<Rightarrow> http_response option" where
  "ReadResponse method s =
     (case read_line s of None \<Rightarrow> None
      | Some (line, s1) \<Rightarrow>
          (case parse_status_line line of None \<Rightarrow> None
          | Some (major, minor, status, code) \<Rightarrow>
              (case read_header [] s1 of None \<Rightarrow> None
              | Some (h, s2) \<Rightarrow>
                  read_transfer method
                    \<lparr>Status = status, StatusCode = code, Proto = takeWhile (\<lambda>c. c \<noteq> CHR '' '') line,
                     ProtoMajor = major, ProtoMinor = minor,
                     Header = fixPragmaCacheControl h, Body = [], BodyErr = False,
                     ContentLength = 0, Chunked = False, Close = False, Uncompressed = False\<rparr>
                    s2)))"

section \<open>Lemmas\<close>

lemma read_line_CRLF:
  "CR \<notin> set l \<Longrightarrow> LF \<notin> set l \<Longrightarrow> read_line (l @ CR # LF # rest) = Some (l, rest)"
  by (induction l) auto

lemma not_token_bytes:
  "validHeaderFieldByte c \<Longrightarrow> c \<noteq> CHR '':'' \<and> c \<noteq> CR \<and> c \<noteq> LF \<and> c \<noteq> CHR '' ''"
proof -
  have "\<forall>c. validHeaderFieldByte c \<longrightarrow> c \<noteq> CHR '':'' \<and> c \<noteq> CR \<and> c \<noteq> LF \<and> c \<noteq> CHR '' ''"
    by code_simp
  then show "validHeaderFieldByte c \<Longrightarrow> c \<noteq> CHR '':'' \<and> c \<noteq> CR \<and> c \<noteq> LF \<and> c \<noteq> CHR '' ''"
    by blast
qed

text \<open>What a header field must be to survive the wire: a canonical token and a trimmed one-line value.\<close>

definition wf_field :: "string \<times> string \<Rightarrow> bool" where
  "wf_field kv \<longleftrightarrow>
     fst kv \<noteq> [] \<and> list_all validHeaderFieldByte (fst kv) \<and> CanonicalHeaderKey (fst kv) = fst kv
       \<and> CR \<notin> set (snd kv) \<and> LF \<notin> set (snd kv)
       \<and> (snd kv = [] \<or> \<not> ascii_space (hd (snd kv)) \<and> \<not> ascii_space (last (snd kv)))"

lemma parse_header_line_field:
  assumes "wf_field (k, v)"
  shows "parse_header_line (k @ '': '' @ v) = Some (k, v)"
proof -
  from assms have no: "\<forall>c\<in>set k. c \<noteq> CHR '':''"
    by (auto simp: wf_field_def list_all_iff dest: not_token_bytes)
  then have "takeWhile (\<lambda>c. c \<noteq> CHR '':'') (k @ '': '' @ v) = k"
    and "dropWhile (\<lambda>c. c \<noteq> CHR '':'') (k @ '': '' @ v) = '': '' @ v"
    by (auto simp: takeWhile_append dropWhile_append)
  moreover have "trim_set (\<lambda>c. c = CHR '' '' \<or> c = TAB) (CHR '' '' # v) = v"
  proof -
    have "trim_set (\<lambda>c. c = CHR '' '' \<or> c = TAB) (CHR '' '' # v) =
      trim_set (\<lambda>c. c = CHR '' '' \<or> c = TAB) v"
      by (simp add: trim_set_def)
    also have "\<dots> = v"
      using assms by (intro trim_set_id) (auto simp: wf_field_def ascii_space_def)
    finally show ?thesis .
  qed
  ultimately show ?thesis
    using assms by (simp add: parse_header_line_def wf_field_def)
qed

lemma read_header_lines:
  assumes "\<forall>kv\<in>set kvs. wf_field kv"
  shows "read_header h (concat (map (\<lambda>(k, v). header_line k v) kvs) @ CRLF @ rest) =
    Some (foldl (\<lambda>h (k, v). header_add h k v) h kvs, rest)"
  using assms
proof (induction kvs arbitrary: h)
  case Nil
  then show ?case
    using read_line_CRLF [of "[]" rest] by (simp add: read_header.simps [of h])
next
  case (Cons kv kvs)
  obtain k v where kv: "kv = (k, v)" by force
  let ?t = "concat (map (\<lambda>(k, v). header_line k v) kvs) @ CRLF @ rest"
  from Cons.prems have wf: "wf_field (k, v)" by (simp add: kv)
  then have "CR \<notin> set (k @ '': '' @ v)" and "LF \<notin> set (k @ '': '' @ v)"
    by (auto simp: wf_field_def list_all_iff dest: not_token_bytes)
  from read_line_CRLF [OF this]
  have "read_line (header_line k v @ ?t) = Some (k @ '': '' @ v, ?t)"
    by (simp add: header_line_def)
  moreover have "k @ '': '' @ v \<noteq> []" by simp
  ultimately have "read_header h (header_line k v @ ?t) = read_header (header_add h k v) ?t"
    by (simp add: read_header.simps [of h] parse_header_line_field [OF wf, simplified])
  with Cons show ?case by (simp add: kv)
qed

definition field_values :: "(string \<times> string) list \<Rightarrow> string \<Rightarrow> string list" where
  "field_values kvs k = map snd (filter (\<lambda>kv. fst kv = k) kvs)"

lemma map_of_header_add:
  "map_of (header_add h k v) k' = (if k' = k then Some (header_values h k @ [v]) else map_of h k')"
  by (simp add: header_add_def)

lemma map_of_foldl_header_add:
  "map_of (foldl (\<lambda>h (k, v). header_add h k v) h kvs) k =
     (if field_values kvs k = [] then map_of h k
      else Some (header_values h k @ field_values kvs k))"
proof (induction kvs arbitrary: h)
  case Nil
  then show ?case by (simp add: field_values_def)
next
  case (Cons kv kvs)
  then show ?case
    by (cases kv) (auto simp: map_of_header_add field_values_def header_values_def)
qed

lemma wf_foldl_header_add:
  "wf_header h \<Longrightarrow> \<forall>kv\<in>set kvs. wf_field kv \<Longrightarrow>
   wf_header (foldl (\<lambda>h (k, v). header_add h k v) h kvs)"
proof (induction kvs arbitrary: h)
  case Nil
  then show ?case by simp
next
  case (Cons kv kvs)
  obtain k v where kv: "kv = (k, v)" by force
  with Cons.prems have "wf_header (header_add h k v)"
    by (auto simp: wf_header_iff header_add_def wf_map_update wf_field_def dom_def)
  with Cons show ?case by (simp add: kv)
qed

text \<open>The fields of a header, in the order of its entries.\<close>

definition fields :: "header \<Rightarrow> (string \<times> string) list" where
  "fields h = concat (map (\<lambda>(k, vs). map (Pair k) vs) h)"

lemma field_values_append: "field_values (a @ b) k = field_values a k @ field_values b k"
  by (simp add: field_values_def)

lemma field_values_fields: "wf_map h \<Longrightarrow> field_values (fields h) k = header_values h k"
proof (induction h)
  case Nil
  then show ?case by (simp add: field_values_def fields_def header_values_def)
next
  case (Cons e h)
  obtain k' vs where e: "e = (k', vs)" by force
  from Cons.prems have wf: "wf_map h" and fresh: "k' \<notin> fst ` set h"
    by (simp_all add: wf_map_def e)
  from fresh have "map_of h k' = None" by (simp add: map_of_eq_None_iff)
  then have "header_values h k' = []" by (simp add: header_values_def)
  moreover have "field_values (map (Pair k') vs) k = (if k = k' then vs else [])"
    by (auto simp: field_values_def comp_def)
  ultimately show ?case
    using Cons.IH [OF wf]
    by (auto simp: fields_def e field_values_append header_values_def)
qed

section \<open>The header on the wire\<close>

definition sent_header :: "header \<Rightarrow> header" where
  "sent_header h = sort_key fst
     (filter (\<lambda>(k, vs). k \<notin> set excluded_headers \<and> k \<noteq> [] \<and> list_all validHeaderFieldByte k) h)"

text \<open>A header all of whose fields survive the wire.\<close>

definition wf_wire_header :: "header \<Rightarrow> bool" where
  "wf_wire_header h \<longleftrightarrow> wf_map h \<and> (\<forall>(k, vs)\<in>set h. vs \<noteq> [] \<and> (\<forall>v\<in>set vs. wf_field (k, v)))"

lemma wf_sent_header: "wf_map h \<Longrightarrow> wf_map (sent_header h)"
  using wf_map_filter [of h] by (simp add: wf_map_def sent_header_def distinct_map)

lemma trim_field_value:
  assumes "wf_field (k, v)"
  shows "trim_set ascii_space (newline_to_space v) = v"
proof -
  have "newline_to_space v = v"
    unfolding newline_to_space_def using assms by (intro map_idI) (auto simp: wf_field_def)
  with assms show ?thesis by (auto simp: wf_field_def intro!: trim_set_id)
qed

lemma write_header_fields:
  assumes "wf_wire_header h"
  shows "write_header h = concat (map (\<lambda>(k, v). header_line k v) (fields (sent_header h)))"
proof -
  have lines: "concat (map (\<lambda>(k, vs).
         concat (map (\<lambda>v. header_line k (trim_set ascii_space (newline_to_space v))) vs)) g) =
      concat (map (\<lambda>(k, v). header_line k v) (fields g))" if "set g \<subseteq> set h" for g
    using that
  proof (induction g)
    case Nil
    then show ?case by (simp add: fields_def)
  next
    case (Cons e g)
    obtain k vs where e: "e = (k, vs)" by force
    from assms Cons.prems have "\<forall>v\<in>set vs. wf_field (k, v)"
      by (auto simp: e wf_wire_header_def)
    then have vs: "map (\<lambda>v. header_line k (trim_set ascii_space (newline_to_space v))) vs =
        map (header_line k) vs"
      by (intro map_cong refl) (simp add: trim_field_value [of k])
    show ?case using Cons by (simp add: e fields_def comp_def vs)
  qed
  have "set (sent_header h) \<subseteq> set h" by (auto simp: sent_header_def)
  from lines [OF this] show ?thesis
    by (simp add: write_header_def sent_header_def)
qed

lemma fields_wf: "wf_wire_header h \<Longrightarrow> kv \<in> set (fields (sent_header h)) \<Longrightarrow> wf_field kv"
  by (auto simp: fields_def sent_header_def wf_wire_header_def)

lemma map_of_sent_header:
  assumes "wf_wire_header h" "k \<notin> set excluded_headers"
  shows "map_of (sent_header h) k = map_of h k"
proof -
  let ?P = "\<lambda>(k, vs :: string list). k \<notin> set excluded_headers \<and> k \<noteq> [] \<and> list_all validHeaderFieldByte k"
  from assms have wf: "wf_map h" by (simp add: wf_wire_header_def)
  have eq: "map_of (sent_header h) = map_of (filter ?P h)"
  proof (rule map_of_perm)
    show "wf_map (filter ?P h)" by (rule wf_map_filter [OF wf])
    show "set (sent_header h) = set (filter ?P h)" by (simp add: sent_header_def)
    show "distinct (map fst (sent_header h))"
      using wf_sent_header [OF wf] by (simp add: wf_map_def)
  qed
  have "map_of (filter ?P h) k = map_of h k"
  proof (rule map_of_filter_key [OF wf])
    fix vs assume "(k, vs) \<in> set h"
    with assms(1) have "vs \<noteq> []" "\<forall>v\<in>set vs. wf_field (k, v)" by (auto simp: wf_wire_header_def)
    then have "wf_field (k, hd vs)" by simp
    with assms(2) show "?P (k, vs)" by (simp add: wf_field_def)
  qed
  with eq show ?thesis by simp
qed

section \<open>Chunked bodies\<close>

lemma hex_char_val:
  assumes "0 \<le> d" "d < 16"
  shows "hex_val (hex_char d) = Some d \<and> hex_char d \<noteq> CR \<and> hex_char d \<noteq> LF"
proof -
  have "list_all (\<lambda>d. hex_val (hex_char d) = Some d \<and> hex_char d \<noteq> CR \<and> hex_char d \<noteq> LF) [0..15]"
    by code_simp
  moreover from assms have "d \<in> set [0..15]" by simp
  ultimately show ?thesis unfolding list_all_iff by blast
qed

lemma of_hex_append:
  "of_hex n (a @ b) = (case of_hex n a of None \<Rightarrow> None | Some m \<Rightarrow> of_hex m b)"
  by (induction n a rule: of_hex.induct) (auto split: option.splits)

lemma of_to_hex: "0 \<le> n \<Longrightarrow> of_hex 0 (to_hex n) = Some n"
proof (induction n rule: to_hex.induct)
  case (1 n)
  show ?case
  proof (cases "n < 16")
    case True
    with 1 show ?thesis by (simp add: to_hex.simps [of n] hex_char_val)
  next
    case False
    with 1 have "of_hex 0 (to_hex (n div 16)) = Some (n div 16)" by simp
    with False show ?thesis
      by (simp add: to_hex.simps [of n] of_hex_append hex_char_val)
  qed
qed

lemma to_hex_bytes: "0 \<le> n \<Longrightarrow> CR \<notin> set (to_hex n) \<and> LF \<notin> set (to_hex n) \<and> to_hex n \<noteq> []"
proof (induction n rule: to_hex.induct)
  case (1 n)
  show ?case
  proof (cases "n < 16")
    case True
    with 1 show ?thesis using hex_char_val [of n] by (simp add: to_hex.simps [of n] not_sym)
  next
    case False
    with 1 show ?thesis using hex_char_val [of "n mod 16"]
      by (simp add: to_hex.simps [of n] not_sym)
  qed
qed

lemma read_chunks_end: "read_chunks (CHR ''0'' # CR # LF # rest) = ([], False)"
proof -
  have "read_line (''0'' @ CR # LF # rest) = Some (''0'', rest)"
    by (rule read_line_CRLF) simp_all
  moreover have "hex_val CHR ''0'' = Some 0" by code_simp
  ultimately show ?thesis by (subst read_chunks.simps) simp
qed

lemma read_chunks_body:
  "read_chunks ((if b = [] then [] else to_hex (int (length b)) @ CRLF @ b @ CRLF)
     @ ''0'' @ CRLF @ CRLF) = (b, False)"
proof (cases "b = []")
  case True
  then show ?thesis using read_chunks_end [of CRLF] by simp
next
  case False
  let ?rest = "b @ CR # LF # CHR ''0'' # CR # LF # CRLF"
  let ?x = "to_hex (int (length b))"
  have rl: "read_line (?x @ CR # LF # ?rest) = Some (?x, ?rest)"
    using to_hex_bytes [of "int (length b)"] by (intro read_line_CRLF) simp_all
  have "read_chunks (?x @ CR # LF # ?rest) = (b, False)"
    using to_hex_bytes [of "int (length b)"] of_to_hex [of "int (length b)"] False
      read_chunks_end [of CRLF]
    by (subst read_chunks.simps) (simp add: rl)
  with False show ?thesis by simp
qed


section \<open>Round trip\<close>

text \<open>
  A response the wire can carry: a three-digit status whose text is one line, header fields
  that survive, no body where the status allows none. \<open>Pragma: no-cache\<close> without a
  Cache-Control header is left out: reading adds a Cache-Control header then.
\<close>

definition wf_response :: "http_response \<Rightarrow> bool" where
  "wf_response r \<longleftrightarrow>
     100 \<le> StatusCode r \<and> StatusCode r \<le> 999 \<and> 0 \<le> ProtoMajor r \<and> ProtoMajor r \<le> 9
     \<and> 0 \<le> ProtoMinor r \<and> ProtoMinor r \<le> 9
     \<and> has_prefix (Status r) (itoa (StatusCode r) @ '' '')
     \<and> CR \<notin> set (Status r) \<and> LF \<notin> set (Status r)
     \<and> wf_wire_header (Header r)
     \<and> fixPragmaCacheControl (Header r) = Header r
     \<and> (bodyAllowedForStatus (StatusCode r) \<or> Body r = []) \<and> - 1 \<le> ContentLength r"

definition framing_headers :: "string list" where
  "framing_headers = ''Connection'' # excluded_headers"

lemma three_digits:
  assumes "100 \<le> n" "n \<le> 999"
  shows "pad3 n = itoa n \<and> length (itoa n) = 3 \<and> list_all is_digit (itoa n) \<and> atou (itoa n) = n
    \<and> CHR '' '' \<notin> set (itoa n)"
proof -
  have "itoa n = utoa n" using assms by (simp add: itoa_def)
  moreover have len: "length (utoa n) = 3"
  proof -
    from assms have "\<not> n < 10" "\<not> n div 10 < 10" "n div 10 div 10 < 10" by presburger+
    then show ?thesis
    by (simp add: utoa.simps [of n] utoa.simps [of "n div 10"] utoa.simps [of "n div 10 div 10"])
  qed
  moreover have dig: "list_all is_digit (utoa n)"
    using utoa_digits [of n] assms by (simp add: list_all_iff)
  moreover have "CHR '' '' \<notin> set (utoa n)"
  proof -
    have "\<not> is_digit CHR '' ''" by code_simp
    with dig show ?thesis by (auto simp: list_all_iff)
  qed
  ultimately show ?thesis using assms atou_utoa [of n] by (simp add: pad3_def)
qed

lemma one_digit:
  assumes "0 \<le> n" "n \<le> 9"
  shows "itoa n = [digit_char n]" "is_digit (digit_char n)" "digit_val (digit_char n) = n"
    "digit_char n \<noteq> CHR '' ''" "digit_char n \<noteq> CR" "digit_char n \<noteq> LF"
proof -
  from assms have d: "is_digit (digit_char n)" "digit_val (digit_char n) = n"
    by (simp_all add: digit_char_val)
  have "\<not> is_digit CHR '' ''" "\<not> is_digit CR" "\<not> is_digit LF" by code_simp+
  with d show "itoa n = [digit_char n]" "is_digit (digit_char n)" "digit_val (digit_char n) = n"
    "digit_char n \<noteq> CHR '' ''" "digit_char n \<noteq> CR" "digit_char n \<noteq> LF"
    using assms by (auto simp: itoa_def utoa.simps [of n])
qed

lemma read_status_line:
  assumes "wf_response r"
  shows "\<exists>l. read_line (status_line r @ t) = Some (l, t) \<and>
    parse_status_line l = Some (ProtoMajor r, ProtoMinor r, Status r, StatusCode r)"
proof -
  let ?c = "itoa (StatusCode r)"
  from assms obtain tx where st: "Status r = ?c @ '' '' @ tx"
    unfolding wf_response_def has_prefix_def
    by (metis append.assoc append_take_drop_id)
  from assms have c: "pad3 (StatusCode r) = ?c" "length ?c = 3" "list_all is_digit ?c"
      "atou ?c = StatusCode r" "CHR '' '' \<notin> set ?c"
    using three_digits [of "StatusCode r"] by (simp_all add: wf_response_def)
  from assms have M: "0 \<le> ProtoMajor r" "ProtoMajor r \<le> 9" and m: "0 \<le> ProtoMinor r" "ProtoMinor r \<le> 9"
    by (simp_all add: wf_response_def)
  note d = one_digit [OF M] one_digit [OF m]
  let ?p = "''HTTP/'' @ [digit_char (ProtoMajor r)] @ ''.'' @ [digit_char (ProtoMinor r)]"
  let ?l = "?p @ '' '' @ Status r"
  have "status_text r = tx"
    by (simp add: status_text_def st has_prefix_def)
  then have line: "status_line r @ t = ?l @ CR # LF # t"
    by (simp add: status_line_def c(1) d st)
  have nosp: "CHR '' '' \<notin> set ?p" using d by simp
  have "CR \<notin> set ?l" "LF \<notin> set ?l"
    using assms d by (auto simp: wf_response_def)
  then have "read_line (status_line r @ t) = Some (?l, t)"
    unfolding line by (rule read_line_CRLF)
  moreover have "takeWhile (\<lambda>c. c \<noteq> CHR '' '') ?l = ?p"
    and "dropWhile (\<lambda>c. c \<noteq> CHR '' '') ?l = CHR '' '' # Status r"
    using nosp d by (simp_all add: takeWhile_append dropWhile_append)
  moreover have "?c \<noteq> []" "hd ?c \<noteq> CHR '' ''"
    using c(2,5) by (cases ?c; auto)+
  then have "dropWhile (\<lambda>c. c = CHR '' '') (CHR '' '' # Status r) = Status r"
    by (cases ?c) (auto simp: st)
  moreover have "takeWhile (\<lambda>c. c \<noteq> CHR '' '') (Status r) = ?c"
    using c(5) unfolding st by (subst takeWhile_append2) auto
  ultimately show ?thesis
    using c d by (simp add: parse_status_line_def)
qed

text \<open>The header fields \<open>DumpResponse\<close> writes for the answer to a GET, in order.\<close>

definition framing_fields :: "http_response \<Rightarrow> (string \<times> string) list" where
  "framing_fields r =
     (if wire_close r \<and> \<not> hasToken (header_get (Header r) ''Connection'') ''close''
      then [(''Connection'', ''close'')] else [])
     @ (if wire_chunked r then [(''Transfer-Encoding'', ''chunked'')]
        else if 0 < wire_length r then [(''Content-Length'', itoa (wire_length r))] else [])"

definition zero_fields :: "http_response \<Rightarrow> (string \<times> string) list" where
  "zero_fields r =
     (if wire_length r = 0 \<and> \<not> wire_chunked r \<and> bodyAllowedForStatus (StatusCode r)
      then [(''Content-Length'', ''0'')] else [])"

definition wire_fields :: "http_response \<Rightarrow> (string \<times> string) list" where
  "wire_fields r = framing_fields r @ fields (sent_header (Header r)) @ zero_fields r"

lemma DumpResponse_fields:
  assumes "wf_wire_header (Header r)" and "DumpResponse ''GET'' r = Some s"
  obtains b where "write_body ''GET'' r = Some b" and "\<not> BodyErr r"
    and "s = status_line r @ concat (map (\<lambda>(k, v). header_line k v) (wire_fields r)) @ CRLF @ b"
  using assms(2) write_header_fields [OF assms(1)]
  by (auto simp: DumpResponse_def wire_fields_def framing_header_def framing_fields_def
      zero_length_header_def zero_fields_def split: option.splits if_splits)

lemma wf_framing_field:
  "wf_field (''Connection'', ''close'')" "wf_field (''Transfer-Encoding'', ''chunked'')"
  "wf_field (''Content-Length'', ''0'')"
  by code_simp+

lemma itoa_digits:
  assumes "0 \<le> n"
  shows "list_all is_digit (itoa n)" "itoa n \<noteq> []" "atou (itoa n) = n"
  using assms utoa_digits [of n] atou_utoa [of n] by (simp_all add: itoa_def list_all_iff)

lemma wf_length_field: "0 \<le> n \<Longrightarrow> wf_field (''Content-Length'', itoa n)"
proof -
  assume n: "0 \<le> n"
  have "list_all validHeaderFieldByte ''Content-Length''"
    "CanonicalHeaderKey ''Content-Length'' = ''Content-Length''" by code_simp+
  moreover have "\<forall>c. is_digit c \<longrightarrow> c \<noteq> CR \<and> c \<noteq> LF \<and> \<not> ascii_space c" by code_simp
  ultimately show ?thesis
    using itoa_digits [OF n] by (auto simp: wf_field_def list_all_iff)
qed

lemma wf_wire_fields:
  "wf_wire_header (Header r) \<Longrightarrow> kv \<in> set (wire_fields r) \<Longrightarrow> wf_field kv"
  by (auto simp: wire_fields_def framing_fields_def zero_fields_def wf_framing_field
      wf_length_field fields_wf split: if_splits)

lemma field_values_wire:
  assumes "wf_wire_header (Header r)"
  shows "k \<notin> set framing_headers \<Longrightarrow> field_values (wire_fields r) k = header_values (Header r) k"
    and "field_values (wire_fields r) ''Transfer-Encoding'' = (if wire_chunked r then [''chunked''] else [])"
    and "field_values (wire_fields r) ''Content-Length'' =
      (if wire_chunked r then []
       else if 0 < wire_length r then [itoa (wire_length r)]
       else if wire_length r = 0 \<and> bodyAllowedForStatus (StatusCode r) then [''0''] else [])"
proof -
  have wf: "wf_map (Header r)" using assms by (simp add: wf_wire_header_def)
  note sent = field_values_fields [OF wf_sent_header [OF wf]]
  have "k \<in> set excluded_headers \<Longrightarrow> header_values (sent_header (Header r)) k = []" for k
  proof -
    assume "k \<in> set excluded_headers"
    then have "k \<notin> fst ` set (sent_header (Header r))" by (auto simp: sent_header_def)
    then show ?thesis by (simp add: header_values_def map_of_eq_None_iff [THEN iffD2])
  qed
  then have ex: "header_values (sent_header (Header r)) ''Transfer-Encoding'' = []"
      "header_values (sent_header (Header r)) ''Content-Length'' = []"
    by (simp_all add: excluded_headers_def)
  show "field_values (wire_fields r) k = header_values (Header r) k" if k: "k \<notin> set framing_headers"
  proof -
    have "field_values (framing_fields r) k = []" "field_values (zero_fields r) k = []"
      using k by (auto simp: framing_headers_def excluded_headers_def framing_fields_def
          zero_fields_def field_values_def)
    moreover have "header_values (sent_header (Header r)) k = header_values (Header r) k"
      using k map_of_sent_header [OF assms, of k] by (simp add: header_values_def framing_headers_def)
    ultimately show ?thesis by (simp add: wire_fields_def field_values_append sent)
  qed
  show "field_values (wire_fields r) ''Transfer-Encoding'' = (if wire_chunked r then [''chunked''] else [])"
    by (simp add: wire_fields_def field_values_append sent ex)
      (auto simp: framing_fields_def zero_fields_def field_values_def)
  show "field_values (wire_fields r) ''Content-Length'' =
      (if wire_chunked r then []
       else if 0 < wire_length r then [itoa (wire_length r)]
       else if wire_length r = 0 \<and> bodyAllowedForStatus (StatusCode r) then [''0''] else [])"
    by (simp add: wire_fields_def field_values_append sent ex)
      (auto simp: framing_fields_def zero_fields_def field_values_def)
qed

lemma fixPragma_id:
  "fixPragmaCacheControl h = h \<longleftrightarrow>
     \<not> (header_values h ''Pragma'' \<noteq> [] \<and> hd (header_values h ''Pragma'') = ''no-cache''
        \<and> map_of h ''Cache-Control'' = None)"
proof -
  have "map_of h ''Cache-Control'' = None \<Longrightarrow> AList.update ''Cache-Control'' [''no-cache''] h \<noteq> h"
    by (metis map_of_update option.distinct(1))
  then show ?thesis by (auto simp: fixPragmaCacheControl_def)
qed

text \<open>The header a reader of the dump sees before the transfer headers are interpreted.\<close>

definition read_back :: "http_response \<Rightarrow> header" where
  "read_back r = foldl (\<lambda>h (k, v). header_add h k v) [] (wire_fields r)"

lemma map_of_read_back:
  "map_of (read_back r) k =
     (if field_values (wire_fields r) k = [] then None else Some (field_values (wire_fields r) k))"
  by (simp add: read_back_def map_of_foldl_header_add header_values_def)

lemma map_of_read_back_header:
  assumes "wf_wire_header (Header r)" and "k \<notin> set framing_headers"
  shows "map_of (read_back r) k = map_of (Header r) k"
proof -
  have "map_of (Header r) k = Some vs \<Longrightarrow> vs \<noteq> []" for vs
    using assms(1) by (auto simp: wf_wire_header_def dest!: map_of_SomeD)
  then show ?thesis
    using field_values_wire(1) [OF assms]
    by (auto simp: map_of_read_back header_values_def split: option.splits)
qed

lemma ReadResponse_dump:
  assumes "wf_response r" and "DumpResponse ''GET'' r = Some s"
  obtains b proto where "write_body ''GET'' r = Some b"
    and "ReadResponse ''GET'' s = read_transfer ''GET''
      \<lparr>Status = Status r, StatusCode = StatusCode r, Proto = proto, ProtoMajor = ProtoMajor r,
       ProtoMinor = ProtoMinor r, Header = read_back r, Body = [], BodyErr = False,
       ContentLength = 0, Chunked = False, Close = False, Uncompressed = False\<rparr> b"
proof -
  from assms(1) have wf: "wf_wire_header (Header r)" and fp: "fixPragmaCacheControl (Header r) = Header r"
    by (simp_all add: wf_response_def)
  from DumpResponse_fields [OF wf assms(2)] obtain b where b: "write_body ''GET'' r = Some b"
    and s: "s = status_line r @ concat (map (\<lambda>(k, v). header_line k v) (wire_fields r)) @ CRLF @ b"
    by blast
  have "read_header [] (concat (map (\<lambda>(k, v). header_line k v) (wire_fields r)) @ CRLF @ b) =
      Some (read_back r, b)"
    unfolding read_back_def
    by (rule read_header_lines) (use wf_wire_fields [OF wf] in blast)
  moreover have "fixPragmaCacheControl (read_back r) = read_back r"
    using fp map_of_read_back_header [OF wf, of "''Pragma''"]
      map_of_read_back_header [OF wf, of "''Cache-Control''"]
    by (simp add: fixPragma_id header_values_def framing_headers_def excluded_headers_def)
  ultimately obtain proto where "ReadResponse ''GET'' s = read_transfer ''GET''
      \<lparr>Status = Status r, StatusCode = StatusCode r, Proto = proto, ProtoMajor = ProtoMajor r,
       ProtoMinor = ProtoMinor r, Header = read_back r, Body = [], BodyErr = False,
       ContentLength = 0, Chunked = False, Close = False, Uncompressed = False\<rparr> b"
    using read_status_line [OF assms(1), of "concat (map (\<lambda>(k, v). header_line k v) (wire_fields r)) @ CRLF @ b"]
    unfolding s by (force simp: ReadResponse_def)
  with b show ?thesis by (rule that)
qed

text \<open>What a stored response keeps: everything but the headers that describe the transfer.\<close>

definition same_response :: "http_response \<Rightarrow> http_response \<Rightarrow> bool" where
  "same_response r r' \<longleftrightarrow>
     StatusCode r' = StatusCode r \<and> Status r' = Status r \<and> Body r' = Body r \<and> \<not> BodyErr r'
     \<and> wf_map (Header r')
     \<and> (\<forall>k. k \<notin> set framing_headers \<longrightarrow> map_of (Header r') k = map_of (Header r) k)"

lemma wire_length_cases:
  assumes "wf_response r" and "write_body ''GET'' r = Some b" and "\<not> wire_chunked r"
  shows "wire_length r = - 1 \<and> b = Body r \<or>
    0 \<le> wire_length r \<and> wire_length r = int (length (Body r)) \<and> b = Body r"
  using assms by (auto simp: write_body_def wf_response_def wire_length_def split: if_splits)

lemma read_transfer_chunked:
  assumes "map_of (Header R) ''Transfer-Encoding'' = Some [''chunked'']" and "proto_at_least_1_1 R"
  shows "\<exists>len cl. len \<le> 0 \<and> read_transfer ''GET'' R s = Some (R\<lparr>
    Header := AList.delete ''Content-Length'' (AList.delete ''Transfer-Encoding'' (Header R)),
    Body := if bodyAllowedForStatus (StatusCode R) then fst (read_chunks s) else [],
    BodyErr := bodyAllowedForStatus (StatusCode R) \<and> snd (read_chunks s),
    ContentLength := len, Chunked := True, Close := cl\<rparr>)"
proof -
  have low: "map to_lower ''chunked'' = ''chunked''" by code_simp
  have "parse_length (AList.delete ''Content-Length'' h) = Some None" for h
    by (simp add: parse_length_def header_values_def)
  moreover obtain b e where "read_chunks s = (b, e)" by force
  moreover have "header_values (Header R) ''Transfer-Encoding'' = [''chunked'']"
    using assms(1) by (simp add: header_values_def)
  ultimately show ?thesis
    using assms low unfolding read_transfer_def Let_def
    by (intro exI [of _ "if bodyAllowedForStatus (StatusCode R) then - 1 else 0"])
      (cases "bodyAllowedForStatus (StatusCode R)"; simp; blast)
qed

lemma read_transfer_plain:
  assumes "map_of (Header R) ''Transfer-Encoding'' = None"
    and "parse_length (AList.delete ''Transfer-Encoding'' (Header R)) = Some cl"
    and "cl = None \<or> cl = Some (int (length s))"
  shows "\<exists>r'. read_transfer ''GET'' R s = Some r' \<and>
    Status r' = Status R \<and> StatusCode r' = StatusCode R \<and>
    Header r' = AList.delete ''Transfer-Encoding'' (Header R) \<and>
    Body r' = (if bodyAllowedForStatus (StatusCode R) then s else []) \<and> \<not> BodyErr r' \<and>
    (0 < ContentLength r' \<longleftrightarrow> bodyAllowedForStatus (StatusCode R) \<and> cl \<noteq> None \<and> s \<noteq> [])"
  using assms unfolding read_transfer_def Let_def
  by (cases "bodyAllowedForStatus (StatusCode R)"; cases cl) simp_all

text \<open>Besides status, headers and body, whether the length of the body is known and positive is kept, when the
  length of chunked responses is not known, as \<open>net/http\<close> has it.\<close>

definition wf_length :: "http_response \<Rightarrow> bool" where
  "wf_length r \<longleftrightarrow> \<not> (wire_chunked r \<and> 0 < ContentLength r)"

lemma dump_read:
  assumes "wf_response r" and "DumpResponse ''GET'' r = Some s"
  shows "\<exists>r'. ReadResponse ''GET'' s = Some r' \<and> same_response r r'
    \<and> (wf_length r \<longrightarrow> (0 < ContentLength r' \<longleftrightarrow> 0 < ContentLength r))"
proof -
  obtain b proto where b: "write_body ''GET'' r = Some b"
    and rd: "ReadResponse ''GET'' s = read_transfer ''GET''
      \<lparr>Status = Status r, StatusCode = StatusCode r, Proto = proto, ProtoMajor = ProtoMajor r,
       ProtoMinor = ProtoMinor r, Header = read_back r, Body = [], BodyErr = False,
       ContentLength = 0, Chunked = False, Close = False, Uncompressed = False\<rparr> b"
    using ReadResponse_dump [OF assms] by blast
  let ?R = "\<lparr>Status = Status r, StatusCode = StatusCode r, Proto = proto, ProtoMajor = ProtoMajor r,
       ProtoMinor = ProtoMinor r, Header = read_back r, Body = [], BodyErr = False,
       ContentLength = 0, Chunked = False, Close = False, Uncompressed = False\<rparr>"
    from assms(1) have wf: "wf_wire_header (Header r)"
    and nobody: "bodyAllowedForStatus (StatusCode r) \<or> Body r = []"
    by (simp_all add: wf_response_def)
  have wfm: "wf_map (read_back r)"
    using wf_foldl_header_add [of "[]" "wire_fields r"] wf_wire_fields [OF wf]
    by (auto simp: read_back_def wf_header_def)
  have hdr: "k \<notin> set framing_headers \<Longrightarrow> map_of (read_back r) k = map_of (Header r) k" for k
    by (rule map_of_read_back_header [OF wf])
  have fr: "''Content-Length'' \<in> set framing_headers" "''Transfer-Encoding'' \<in> set framing_headers"
    by (simp_all add: framing_headers_def excluded_headers_def)
  show ?thesis
  proof (cases "wire_chunked r")
    case True
    have "b = (if Body r = [] then [] else to_hex (int (length (Body r))) @ CRLF @ Body r @ CRLF)
        @ ''0'' @ CRLF @ CRLF"
      using b True by (auto simp: write_body_def)
    then have rc: "read_chunks b = (Body r, False)" using read_chunks_body by simp
    have "map_of (Header ?R) ''Transfer-Encoding'' = Some [''chunked'']"
      using field_values_wire(2) [OF wf] True by (simp add: map_of_read_back)
    moreover have "proto_at_least_1_1 ?R"
      using True by (simp add: wire_chunked_def proto_at_least_1_1_def)
    ultimately obtain len cl where "len \<le> 0" "ReadResponse ''GET'' s = Some (?R\<lparr>
      Header := AList.delete ''Content-Length'' (AList.delete ''Transfer-Encoding'' (read_back r)),
      Body := if bodyAllowedForStatus (StatusCode r) then Body r else [], BodyErr := False,
      ContentLength := len, Chunked := True, Close := cl\<rparr>)"
      using read_transfer_chunked [of ?R b] unfolding rd rc by auto
    then show ?thesis
      using nobody hdr fr wfm True by (auto simp: same_response_def wf_map_delete wf_length_def)
  next
    case False
    note len = wire_length_cases [OF assms(1) b False]
    have te: "map_of (Header ?R) ''Transfer-Encoding'' = None"
      using field_values_wire(2) [OF wf] False by (simp add: map_of_read_back)
    define cl where "cl = (if 0 < wire_length r then Some (wire_length r)
            else if wire_length r = 0 \<and> bodyAllowedForStatus (StatusCode r) then Some 0 else None)"
    have zero: "is_digit CHR ''0''" "atou ''0'' = 0" by code_simp+
    have vals: "header_values (AList.delete ''Transfer-Encoding'' (read_back r)) ''Content-Length'' =
        field_values (wire_fields r) ''Content-Length''"
      by (simp add: header_values_def map_of_read_back)
    have pl: "parse_length (AList.delete ''Transfer-Encoding'' (Header ?R)) = Some cl"
      using field_values_wire(3) [OF wf] False itoa_digits [of "wire_length r"]
      by (simp add: parse_length_def vals zero cl_def)
    have "cl = None \<or> cl = Some (int (length b))"
      using len by (auto simp: cl_def)
    from read_transfer_plain [OF te pl this] obtain r' where "ReadResponse ''GET'' s = Some r'"
      "Status r' = Status r" "StatusCode r' = StatusCode r"
      "Header r' = AList.delete ''Transfer-Encoding'' (read_back r)"
      "Body r' = (if bodyAllowedForStatus (StatusCode r) then b else [])" "\<not> BodyErr r'"
      and sign: "0 < ContentLength r' \<longleftrightarrow> bodyAllowedForStatus (StatusCode r) \<and> cl \<noteq> None \<and> b \<noteq> []"
      unfolding rd by auto
    moreover have "b = Body r" using len by blast
    moreover have "0 < ContentLength r' \<longleftrightarrow> 0 < ContentLength r"
      using sign len False nobody by (auto simp: cl_def wire_length_def split: if_splits)
    ultimately show ?thesis
      using nobody hdr fr wfm by (auto simp: same_response_def wf_map_delete)
  qed
qed

lemma dump_read_same:
  assumes "wf_response r" and "DumpResponse ''GET'' r = Some s"
  shows "\<exists>r'. ReadResponse ''GET'' s = Some r' \<and> same_response r r'"
  using dump_read [OF assms] by blast

end
