(* ===== verification/Go_MD5.thy ===== *)
theory Go_MD5
  imports Prelude "HOL-Library.Word"
begin

text \<open>
  \<open>crypto/md5\<close> and \<open>encoding/hex\<close>, as the disk cache uses them to turn a cache key into
  a file name: the MD5 digest (RFC 1321) over 32-bit words and its lower-case hexadecimal text.
\<close>

unbundle bit_operations_syntax

type_synonym u32 = "32 word"

definition md5_K :: "u32 list" where
  "md5_K = [
     3614090360, 3905402710, 606105819, 3250441966, 4118548399, 1200080426,
     2821735955, 4249261313, 1770035416, 2336552879, 4294925233, 2304563134,
     1804603682, 4254626195, 2792965006, 1236535329, 4129170786, 3225465664,
     643717713, 3921069994, 3593408605, 38016083, 3634488961, 3889429448,
     568446438, 3275163606, 4107603335, 1163531501, 2850285829, 4243563512,
     1735328473, 2368359562, 4294588738, 2272392833, 1839030562, 4259657740,
     2763975236, 1272893353, 4139469664, 3200236656, 681279174, 3936430074,
     3572445317, 76029189, 3654602809, 3873151461, 530742520, 3299628645,
     4096336452, 1126891415, 2878612391, 4237533241, 1700485571, 2399980690,
     4293915773, 2240044497, 1873313359, 4264355552, 2734768916, 1309151649,
     4149444226, 3174756917, 718787259, 3951481745]"

definition md5_shift :: "nat list" where
  "md5_shift = [
     7, 12, 17, 22, 7, 12, 17, 22, 7, 12, 17, 22, 7, 12, 17, 22,
     5, 9, 14, 20, 5, 9, 14, 20, 5, 9, 14, 20, 5, 9, 14, 20,
     4, 11, 16, 23, 4, 11, 16, 23, 4, 11, 16, 23, 4, 11, 16, 23,
     6, 10, 15, 21, 6, 10, 15, 21, 6, 10, 15, 21, 6, 10, 15, 21]"

definition rotl :: "nat \<Rightarrow> u32 \<Rightarrow> u32" where
  "rotl n x = push_bit n x OR drop_bit (32 - n) x"

definition le_word :: "string \<Rightarrow> u32" where
  "le_word bs = foldr (\<lambda>b w. push_bit 8 w OR word_of_int (byte b)) bs 0"

definition le_bytes :: "u32 \<Rightarrow> string" where
  "le_bytes w = map (\<lambda>i. char_of (uint (drop_bit (8 * i) w AND 255))) [0, 1, 2, 3]"

text \<open>The length in bits, as eight little-endian bytes.\<close>

definition le_length :: "int \<Rightarrow> string" where
  "le_length n = map (\<lambda>i. char_of (n div 256 ^ i mod 256)) [0, 1, 2, 3, 4, 5, 6, 7]"

definition md5_pad :: "string \<Rightarrow> string" where
  "md5_pad s = s @ [CHR 0x80] @ replicate ((119 - length s mod 64) mod 64) CHR 0x00
     @ le_length (8 * int (length s))"

fun chunks_of :: "nat \<Rightarrow> nat \<Rightarrow> 'a list \<Rightarrow> 'a list list" where
  "chunks_of 0 n xs = []"
| "chunks_of (Suc k) n xs = take n xs # chunks_of k n (drop n xs)"

definition md5_round :: "u32 list \<Rightarrow> nat \<Rightarrow> u32 \<times> u32 \<times> u32 \<times> u32 \<Rightarrow> u32 \<times> u32 \<times> u32 \<times> u32" where
  "md5_round M i st =
     (case st of (A, B, C, D) \<Rightarrow>
        let (F, g) =
              (if i < 16 then ((B AND C) OR (NOT B AND D), i)
               else if i < 32 then ((D AND B) OR (NOT D AND C), (5 * i + 1) mod 16)
               else if i < 48 then (B XOR C XOR D, (3 * i + 5) mod 16)
               else (C XOR (B OR NOT D), (7 * i) mod 16));
            F' = F + A + md5_K ! i + M ! g
        in (D, B + rotl (md5_shift ! i) F', B, C))"

definition md5_block :: "u32 \<times> u32 \<times> u32 \<times> u32 \<Rightarrow> string \<Rightarrow> u32 \<times> u32 \<times> u32 \<times> u32" where
  "md5_block st blk =
     (let M = map le_word (chunks_of 16 4 blk);
          (a, b, c, d) = st;
          (A, B, C, D) = fold (md5_round M) [0..<64] st
      in (a + A, b + B, c + C, d + D))"

definition md5_init :: "u32 \<times> u32 \<times> u32 \<times> u32" where
  "md5_init = (1732584193, 4023233417, 2562383102, 271733878)"

definition md5 :: "string \<Rightarrow> string" where
  "md5 s =
     (let p = md5_pad s;
          (a, b, c, d) = foldl md5_block md5_init (chunks_of (length p div 64) 64 p)
      in le_bytes a @ le_bytes b @ le_bytes c @ le_bytes d)"

text \<open>\<open>hex.EncodeToString\<close>.\<close>

definition hex_digit :: "int \<Rightarrow> char" where
  "hex_digit d = char_of (if d < 10 then d + 48 else d + 87)"

definition hex_encode :: "string \<Rightarrow> string" where
  "hex_encode s = concat (map (\<lambda>c. [hex_digit (byte c div 16), hex_digit (byte c mod 16)]) s)"

definition hex_undigit :: "char \<Rightarrow> int" where
  "hex_undigit c = (if byte c < 58 then byte c - 48 else byte c - 87)"

fun hex_decode :: "string \<Rightarrow> string" where
  "hex_decode (a # b # s) = char_of (hex_undigit a * 16 + hex_undigit b) # hex_decode s"
| "hex_decode s = []"

lemma byte_range: "0 \<le> byte c \<and> byte c < 256"
proof -
  have "\<forall>c. 0 \<le> byte c \<and> byte c < 256" by code_simp
  then show ?thesis by blast
qed

lemma hex_undigit_digit: "0 \<le> d \<Longrightarrow> d < 16 \<Longrightarrow> hex_undigit (hex_digit d) = d"
proof -
  assume "0 \<le> d" "d < 16"
  have "list_all (\<lambda>d. hex_undigit (hex_digit d) = d) [0..15]" by code_simp
  moreover from \<open>0 \<le> d\<close> \<open>d < 16\<close> have "d \<in> set [0..15]" by simp
  ultimately show ?thesis unfolding list_all_iff by blast
qed

lemma hex_byte: "char_of (hex_undigit (hex_digit (byte c div 16)) * 16 +
    hex_undigit (hex_digit (byte c mod 16))) = c"
proof -
  have "0 \<le> byte c div 16" "byte c div 16 < 16"
    using byte_range [of c] by presburger+
  then have "hex_undigit (hex_digit (byte c div 16)) * 16 +
    hex_undigit (hex_digit (byte c mod 16)) = byte c"
    by (simp add: hex_undigit_digit div_mult_mod_eq)
  then show ?thesis by simp
qed

lemma hex_decode_encode [simp]: "hex_decode (hex_encode s) = s"
  by (induction s) (simp_all add: hex_encode_def hex_byte)

lemma hex_encode_inject: "hex_encode s = hex_encode t \<longleftrightarrow> s = t"
  by (metis hex_decode_encode)

end
