(* ===== verification/Go_Time.thy ===== *)
theory Go_Time
  imports Go_Strings "HOL-Library.Monad_Syntax"
begin

text \<open>
  The functions of Go's \<open>time\<close> package the cache policy uses: \<open>time.ParseDuration\<close>,
  \<open>time.Parse\<close> for the layout \<open>time.RFC1123\<close>, \<open>Time.Sub\<close> and the \<open>timer\<close>
  interface of \<open>cache/cache.go\<close>. A \<open>time.Duration\<close> is an \<open>int64\<close> count of
  nanoseconds, kept as an \<open>int\<close> within \<open>in64\<close>; a \<open>time.Time\<close> is the number of
  nanoseconds since 1970-01-01 UTC.
\<close>

section \<open>float64\<close>

text \<open>
  \<open>ParseDuration\<close> scales the digits after a decimal point in \<open>float64\<close>. \<open>fl64 a b\<close>
  is the double nearest to the fraction \<open>a / b\<close> (ties to even), as a fraction again; the
  values that occur here are far from the subnormal and overflow ranges.
\<close>

function bitlen :: "int \<Rightarrow> nat" where
  "bitlen n = (if n \<le> 0 then 0 else Suc (bitlen (n div 2)))"
  by pat_completeness auto
termination
  by (relation "measure nat") auto

declare bitlen.simps [simp del]

definition round_half_even :: "int \<Rightarrow> int \<Rightarrow> int" where
  "round_half_even p q =
     (let m = p div q; r = p mod q
      in if 2 * r < q then m else if q < 2 * r then m + 1 else if even m then m else m + 1)"

definition fl64 :: "int \<Rightarrow> int \<Rightarrow> int \<times> int" where
  "fl64 a b =
     (if a = 0 then (0, 1)
      else let s = 54 + bitlen b;
               q = a * 2 ^ s div b;
               drop = bitlen q - 53
           in (round_half_even (a * 2 ^ s) (b * 2 ^ drop) * 2 ^ drop, 2 ^ s))"

definition fl64_mult :: "int \<times> int \<Rightarrow> int \<times> int \<Rightarrow> int \<times> int" where
  "fl64_mult x y = fl64 (fst x * fst y) (snd x * snd y)"

definition fl64_trunc :: "int \<times> int \<Rightarrow> int" where
  "fl64_trunc x = fst x div snd x"

section \<open>time.ParseDuration\<close>

fun leadingInt :: "int \<Rightarrow> string \<Rightarrow> (int \<times> string) option" where
  "leadingInt x [] = Some (x, [])"
| "leadingInt x (c # cs) =
     (if \<not> is_digit c then Some (x, c # cs)
      else if x > 2 ^ 63 div 10 then None
      else let y = x * 10 + digit_val c
           in if y > 2 ^ 63 then None else leadingInt y cs)"

text \<open>After an overflow the remaining digits are skipped and change neither value nor scale.\<close>

fun leadingFraction :: "int \<Rightarrow> int \<Rightarrow> bool \<Rightarrow> string \<Rightarrow> int \<times> int \<times> string" where
  "leadingFraction x scale overflow [] = (x, scale, [])"
| "leadingFraction x scale overflow (c # cs) =
     (if \<not> is_digit c then (x, scale, c # cs)
      else if overflow then leadingFraction x scale overflow cs
      else if x > (2 ^ 63 - 1) div 10 then leadingFraction x scale True cs
      else let y = x * 10 + digit_val c
           in if y > 2 ^ 63 then leadingFraction x scale True cs
              else leadingFraction y (scale * 10) False cs)"

definition unitMap :: "string \<Rightarrow> int option" where
  "unitMap u =
     (if u = ''ns'' then Some 1
      else if u = ''us'' then Some 1000
      else if u = [CHR 0xC2, CHR 0xB5, CHR ''s''] then Some 1000
      else if u = [CHR 0xCE, CHR 0xBC, CHR ''s''] then Some 1000
      else if u = ''ms'' then Some 1000000
      else if u = ''s'' then Some 1000000000
      else if u = ''m'' then Some 60000000000
      else if u = ''h'' then Some 3600000000000
      else None)"

definition dur_char :: "char \<Rightarrow> bool" where
  "dur_char c \<longleftrightarrow> c = CHR ''.'' \<or> is_digit c"

definition frac_part :: "string \<Rightarrow> int \<times> int \<times> string \<times> bool" where
  "frac_part s =
     (case s of [] \<Rightarrow> (0, 1, s, False)
      | c # cs \<Rightarrow>
          if c = CHR ''.'' then
            let (f, scale, r) = leadingFraction 0 1 False cs
            in (f, scale, r, length r \<noteq> length cs)
          else (0, 1, s, False))"

text \<open>One round of the loop of \<open>ParseDuration\<close>: a number and its unit, in nanoseconds.\<close>

definition parse_segment :: "string \<Rightarrow> (int \<times> string) option" where
  "parse_segment s =
     (if s = [] \<or> \<not> dur_char (hd s) then None
      else (case leadingInt 0 s of None \<Rightarrow> None
      | Some (v, s1) \<Rightarrow>
          let pre = length s1 \<noteq> length s;
              (f, scale, s2, post) = frac_part s1;
              u = takeWhile (\<lambda>c. \<not> dur_char c) s2;
              s3 = dropWhile (\<lambda>c. \<not> dur_char c) s2
          in if \<not> pre \<and> \<not> post then None
             else if u = [] then None
             else (case unitMap u of None \<Rightarrow> None
             | Some unit \<Rightarrow>
                 if v > 2 ^ 63 div unit then None
                 else if f > 0 then
                   (let v' = v * unit + fl64_trunc (fl64_mult (fl64 f 1) (fl64 unit scale))
                    in if v' > 2 ^ 63 then None else Some (v', s3))
                 else Some (v * unit, s3))))"

lemma leadingInt_length: "leadingInt x s = Some (y, r) \<Longrightarrow> length r \<le> length s"
  by (induction x s rule: leadingInt.induct) (auto simp: Let_def split: if_splits)

lemma leadingFraction_length: "leadingFraction x sc ov s = (y, sc', r) \<Longrightarrow> length r \<le> length s"
  by (induction x sc ov s rule: leadingFraction.induct) (fastforce simp: Let_def split: if_splits)+

lemma frac_part_length: "frac_part s = (f, sc, r, p) \<Longrightarrow> length r \<le> length s"
  by (auto simp: frac_part_def split: list.splits if_splits prod.splits
      dest: leadingFraction_length)

lemma parse_segment_length:
  assumes "parse_segment s = Some (v, r)"
  shows "length r < length s"
proof -
  from assms obtain w s1 where li: "leadingInt 0 s = Some (w, s1)"
    by (auto simp: parse_segment_def split: if_splits option.splits)
  obtain f sc s2 p where fp: "frac_part s1 = (f, sc, s2, p)"
    by (metis prod_cases4)
  let ?u = "takeWhile (\<lambda>c. \<not> dur_char c) s2"
  from assms li fp have u: "?u \<noteq> []" and r: "r = dropWhile (\<lambda>c. \<not> dur_char c) s2"
    by (auto simp: parse_segment_def Let_def split: if_splits option.splits)
  have "length s2 = length ?u + length r"
    unfolding r by (metis length_append takeWhile_dropWhile_id)
  with u have "length r < length s2" by simp
  with leadingInt_length [OF li] frac_part_length [OF fp] show ?thesis by simp
qed

function parse_segments :: "int \<Rightarrow> string \<Rightarrow> int option" where
  "parse_segments d s =
     (if s = [] then Some d
      else (case parse_segment s of None \<Rightarrow> None
      | Some (v, r) \<Rightarrow>
          let d' = (d + v) mod 2 ^ 64
          in if d' > 2 ^ 63 then None else parse_segments d' r))"
  by pat_completeness auto
termination
  by (relation "measure (\<lambda>(d, s). length s)") (auto dest: parse_segment_length)

declare parse_segments.simps [simp del]

definition ParseDuration :: "string \<Rightarrow> int option" where
  "ParseDuration s =
     (let sgn = s \<noteq> [] \<and> (hd s = CHR ''-'' \<or> hd s = CHR ''+'');
          neg = s \<noteq> [] \<and> hd s = CHR ''-'';
          s' = (if sgn then tl s else s)
      in if s' = ''0'' then Some 0
         else if s' = [] then None
         else (case parse_segments 0 s' of None \<Rightarrow> None
         | Some d \<Rightarrow>
             if neg then Some (wrap64 (- d))
             else if d > 2 ^ 63 - 1 then None
             else Some d))"

subsection \<open>Whole seconds\<close>

lemma foldl_digits_mono:
  "0 \<le> x \<Longrightarrow> \<forall>c\<in>set ds. is_digit c \<Longrightarrow> x \<le> foldl (\<lambda>n c. n * 10 + digit_val c) x ds"
proof (induction ds arbitrary: x)
  case Nil
  then show ?case by simp
next
  case (Cons c ds)
  then have "0 \<le> digit_val c" by (auto simp: is_digit_def digit_val_def)
  with Cons.prems have "x \<le> x * 10 + digit_val c" by simp
  also have "\<dots> \<le> foldl (\<lambda>n c. n * 10 + digit_val c) (x * 10 + digit_val c) ds"
    using Cons.prems \<open>0 \<le> digit_val c\<close> by (intro Cons.IH) auto
  finally show ?case by simp
qed

lemma leadingInt_digits:
  assumes "\<forall>c\<in>set ds. is_digit c" "0 \<le> x" "x \<le> 2 ^ 63" "r = [] \<or> \<not> is_digit (hd r)"
  shows "leadingInt x (ds @ r) =
    (let v = foldl (\<lambda>n c. n * 10 + digit_val c) x ds in if v > 2 ^ 63 then None else Some (v, r))"
  using assms
proof (induction ds arbitrary: x)
  case Nil
  then show ?case by (cases r) (auto simp: Let_def)
next
  case (Cons c ds)
  let ?y = "x * 10 + digit_val c"
  have d: "0 \<le> digit_val c" "is_digit c" using Cons.prems by (auto simp: is_digit_def digit_val_def)
  show ?case
  proof (cases "?y > 2 ^ 63")
    case True
    moreover have "?y \<le> foldl (\<lambda>n c. n * 10 + digit_val c) ?y ds"
      using Cons.prems d by (intro foldl_digits_mono) auto
    ultimately show ?thesis using d by (simp add: Let_def)
  next
    case False
    with d have "\<not> x > 2 ^ 63 div 10" by simp
    moreover have "leadingInt ?y (ds @ r) =
      (let v = foldl (\<lambda>n c. n * 10 + digit_val c) ?y ds in if v > 2 ^ 63 then None else Some (v, r))"
      using Cons.prems d False by (intro Cons.IH) auto
    ultimately show ?thesis using d False by (simp add: Let_def)
  qed
qed

lemma leadingInt_utoa:
  assumes "0 \<le> n" "r = [] \<or> \<not> is_digit (hd r)"
  shows "leadingInt 0 (utoa n @ r) = (if n > 2 ^ 63 then None else Some (n, r))"
  using leadingInt_digits [OF utoa_digits, of n 0 r] assms atou_utoa [of n]
  by (simp add: atou_def Let_def)

text \<open>
  The form the cache policy builds: a number of seconds with the letter \<open>s\<close> appended. What
  does not fit an \<open>int64\<close> count of nanoseconds is an error.
\<close>

lemma parse_segment_seconds:
  assumes "0 \<le> n"
  shows "parse_segment (utoa n @ ''s'') =
    (if n > 9223372036 then None else Some (n * 1000000000, []))"
proof -
  have "is_digit (hd (utoa n))"
    using utoa_digits [OF assms] by (simp add: hd_in_set)
  then have "dur_char (hd (utoa n @ ''s''))" by (simp add: dur_char_def)
  moreover have "\<not> is_digit CHR ''s''" by (simp add: is_digit_def)
  ultimately show ?thesis
    using leadingInt_utoa [OF assms, of "''s''"]
    by (auto simp: parse_segment_def frac_part_def dur_char_def Let_def unitMap_def)
qed

lemma parse_segments_Nil: "parse_segments d [] = Some d"
  by (simp add: parse_segments.simps)

lemma utoa_hd_digit: "0 \<le> n \<Longrightarrow> is_digit (hd (utoa n))"
  using utoa_digits [of n] by (simp add: hd_in_set)

lemma ParseDuration_seconds:
  assumes "0 \<le> n"
  shows "ParseDuration (utoa n @ ''s'') =
    (if n > 9223372036 then None else Some (n * 1000000000))"
proof -
  have "hd (utoa n) \<noteq> CHR ''-''" and "hd (utoa n) \<noteq> CHR ''+''"
    using utoa_hd_digit [OF assms] by (auto simp: is_digit_def)
  moreover have "utoa n @ ''s'' \<noteq> ''0''"
    by (simp add: append_eq_Cons_conv)
  moreover have "(n * 1000000000) mod 2 ^ 64 = n * 1000000000" if "n \<le> 9223372036"
    using assms that by simp
  ultimately show ?thesis
    using parse_segment_seconds [OF assms] assms
    by (simp add: ParseDuration_def parse_segments.simps [of 0 "utoa n @ ''s''"]
        parse_segments_Nil)
qed

section \<open>time.Parse with the layout time.RFC1123\<close>

text \<open>
  \<open>Parse\<close> walks the layout \<open>Mon, 02 Jan 2006 15:04:05 MST\<close>. Weekday and month names match
  without regard to case, the weekday is not compared with the date, and the day may have one
  digit. A zone other than GMT and UTC is resolved through the host's local zone; that reading
  is the parameter \<open>zone\<close> of the environment below, as is the clock.
\<close>

record timer =
  since :: "int \<Rightarrow> int"
  zone :: "string \<Rightarrow> int option"

fun skip :: "string \<Rightarrow> string \<Rightarrow> string option" where
  "skip value [] = Some value"
| "skip value (p # ps) =
     (if p = CHR '' '' then
        (if value \<noteq> [] \<and> hd value \<noteq> CHR '' '' then None
         else skip (dropWhile (\<lambda>c. c = CHR '' '') value) ps)
      else if value = [] \<or> hd value \<noteq> p then None
      else skip (tl value) ps)"

definition getnum :: "string \<Rightarrow> bool \<Rightarrow> (int \<times> string) option" where
  "getnum s fixed =
     (if s = [] \<or> \<not> is_digit (hd s) then None
      else if tl s = [] \<or> \<not> is_digit (hd (tl s)) then
        (if fixed then None else Some (digit_val (hd s), tl s))
      else Some (digit_val (hd s) * 10 + digit_val (hd (tl s)), drop 2 s))"

fun lookup_name :: "int \<Rightarrow> string list \<Rightarrow> string \<Rightarrow> (int \<times> string) option" where
  "lookup_name i [] value = None"
| "lookup_name i (v # tab) value =
     (if length v \<le> length value \<and> map to_lower (take (length v) value) = map to_lower v
      then Some (i, drop (length v) value)
      else lookup_name (i + 1) tab value)"

definition shortDayNames :: "string list" where
  "shortDayNames = [''Sun'', ''Mon'', ''Tue'', ''Wed'', ''Thu'', ''Fri'', ''Sat'']"

definition shortMonthNames :: "string list" where
  "shortMonthNames = [''Jan'', ''Feb'', ''Mar'', ''Apr'', ''May'', ''Jun'', ''Jul'', ''Aug'',
     ''Sep'', ''Oct'', ''Nov'', ''Dec'']"

definition get_year :: "string \<Rightarrow> (int \<times> string) option" where
  "get_year s =
     (if length s < 4 \<or> \<not> list_all is_digit (take 4 s) then None
      else Some (atou (take 4 s), drop 4 s))"

definition below :: "int \<Rightarrow> int \<times> string \<Rightarrow> (int \<times> string) option" where
  "below bound r = (if fst r < bound then Some r else None)"

text \<open>A fraction after the seconds is taken although the layout has none: at most nine digits count.\<close>

definition get_fraction :: "string \<Rightarrow> int \<times> string" where
  "get_fraction s =
     (case s of c # d # cs \<Rightarrow>
        if (c = CHR ''.'' \<or> c = CHR '','') \<and> is_digit d then
          let ds = takeWhile is_digit (d # cs);
              ns = take 9 ds
          in (atou ns * 10 ^ (9 - length ns), dropWhile is_digit (d # cs))
        else (0, s)
      | _ \<Rightarrow> (0, s))"

definition isLeap :: "int \<Rightarrow> bool" where
  "isLeap y \<longleftrightarrow> y mod 4 = 0 \<and> (y mod 100 \<noteq> 0 \<or> y mod 400 = 0)"

definition month_days :: "int \<Rightarrow> int list" where
  "month_days y = [31, if isLeap y then 29 else 28, 31, 30, 31, 30, 31, 31, 30, 31, 30, 31]"

text \<open>Days from 1970-01-01 to the given day; \<open>m\<close> counts months from 0.\<close>

definition unix_days :: "int \<Rightarrow> nat \<Rightarrow> int \<Rightarrow> int" where
  "unix_days y m d =
     365 * y + (y + 3) div 4 - (y + 99) div 100 + (y + 399) div 400 - 719528
       + sum_list (take m (month_days y)) + (d - 1)"

definition zone_offset :: "timer \<Rightarrow> string \<Rightarrow> int option" where
  "zone_offset clk s = (if s = ''GMT'' \<or> s = ''UTC'' then Some 0 else zone clk s)"

definition parse_RFC1123 :: "timer \<Rightarrow> string \<Rightarrow> int option" where
  "parse_RFC1123 clk s0 = do {
     (wd, s) \<leftarrow> lookup_name 0 shortDayNames s0;
     s \<leftarrow> skip s '', '';
     (day, s) \<leftarrow> getnum s False;
     s \<leftarrow> skip s '' '';
     (month, s) \<leftarrow> lookup_name 0 shortMonthNames s;
     s \<leftarrow> skip s '' '';
     (year, s) \<leftarrow> get_year s;
     s \<leftarrow> skip s '' '';
     (hour, s) \<leftarrow> Option.bind (getnum s False) (below 24);
     s \<leftarrow> skip s '':'';
     (min, s) \<leftarrow> Option.bind (getnum s True) (below 60);
     s \<leftarrow> skip s '':'';
     (sec, s) \<leftarrow> Option.bind (getnum s True) (below 60);
     let (nsec, s) = get_fraction s;
     s \<leftarrow> skip s '' '';
     off \<leftarrow> zone_offset clk s;
     if day < 1 \<or> month_days year ! nat month < day then None
     else Some
       ((((unix_days year (nat month) day * 24 + hour) * 60 + min) * 60 + sec - off) * 1000000000
          + nsec)
   }"

lemma parse_RFC1123_cong:
  assumes "zone clk' = zone clk"
  shows "parse_RFC1123 clk' = parse_RFC1123 clk"
proof -
  have "zone_offset clk' = zone_offset clk"
    by (rule ext) (simp add: zone_offset_def assms)
  then show ?thesis by (intro ext) (simp only: parse_RFC1123_def)
qed

text \<open>\<open>Time.Sub\<close> and the real clock's \<open>since\<close> saturate.\<close>

definition time_sub :: "int \<Rightarrow> int \<Rightarrow> int" where
  "time_sub t u = sat64 (t - u)"

definition realClock :: "int \<Rightarrow> (string \<Rightarrow> int option) \<Rightarrow> timer" where
  "realClock now z = \<lparr>since = (\<lambda>d. time_sub now d), zone = z\<rparr>"

text \<open>The \<open>timer\<close> interface promises a \<open>Duration\<close>, an \<open>int64\<close>.\<close>

definition wf_timer :: "timer \<Rightarrow> bool" where
  "wf_timer clk \<longleftrightarrow> (\<forall>d. in64 (since clk d))"

lemma wf_realClock: "wf_timer (realClock now z)"
  by (simp add: wf_timer_def realClock_def time_sub_def sat64_in64)

lemma ParseDuration_in64: "ParseDuration s = Some d \<Longrightarrow> in64 d"
proof -
  have ge: "parse_segments d s = Some r \<Longrightarrow> 0 \<le> d \<Longrightarrow> d \<le> 2 ^ 63 \<Longrightarrow> 0 \<le> r \<and> r \<le> 2 ^ 63" for d s r
  proof (induction d s rule: parse_segments.induct)
    case (1 d s)
    show ?case
    proof (cases "s = []")
      case True
      with 1 show ?thesis by (simp add: parse_segments_Nil)
    next
      case False
      with 1 show ?thesis
        by (subst (asm) (2) parse_segments.simps)
          (auto simp: Let_def split: option.splits if_splits)
    qed
  qed
  show "ParseDuration s = Some d \<Longrightarrow> in64 d"
    using wrap64_in64 ge
    by (fastforce simp: ParseDuration_def Let_def in64_def min64_def max64_def
        split: if_splits option.splits)
qed

end
