(* ===== verification/Cache_Policy.thy ===== *)
theory Cache_Policy
  imports Http Go_Time
begin

text \<open>
  The pure half of \<open>cache/cache.go\<close>: the cache key, the Cache-Control and Vary parsers, and
  the decisions of the RFC 2616 policy (freshness, stale-if-error, storability, end-to-end
  headers). The clock and the host's zone table come in as a \<open>timer\<close>.
\<close>

section \<open>Cache key\<close>

definition cacheKey :: "http_request \<Rightarrow> string" where
  "cacheKey req =
     (if Method req = ''GET'' then URLString (URL req)
      else Method req @ '' '' @ URLString (URL req))"

section \<open>Cache-Control\<close>

type_synonym cacheControl = "(string \<times> string) list"

text \<open>The body of the loop of \<open>parseCacheControl\<close>, for one part of the header.\<close>

definition cc_add :: "cacheControl \<Rightarrow> string \<Rightarrow> cacheControl" where
  "cc_add cc part0 =
     (let part = trim part0 '' ''
      in if part = [] then cc
         else if CHR ''='' \<in> set part then
           (let keyval = split_on (CHR ''='') part
            in AList.update (trim (keyval ! 0) '' '') (trim (keyval ! 1) '','') cc)
         else AList.update part [] cc)"

definition parseCacheControl :: "header \<Rightarrow> cacheControl" where
  "parseCacheControl headers =
     foldl cc_add [] (split_on (CHR '','') (header_get headers ''Cache-Control''))"

definition has_directive :: "cacheControl \<Rightarrow> string \<Rightarrow> bool" where
  "has_directive cc d \<longleftrightarrow> map_of cc d \<noteq> None"

definition canStore :: "cacheControl \<Rightarrow> cacheControl \<Rightarrow> bool" where
  "canStore reqCacheControl respCacheControl =
     (if has_directive respCacheControl ''no-store'' then False
      else if has_directive reqCacheControl ''no-store'' then False
      else True)"

section \<open>Comma-separated headers and Vary\<close>

definition headerAllCommaSepValues :: "header \<Rightarrow> string \<Rightarrow> string list" where
  "headerAllCommaSepValues headers name =
     concat (map (\<lambda>val. map trim_space (split_on (CHR '','') val))
       (header_values headers (CanonicalHeaderKey name)))"

fun varyMatches_all :: "string list \<Rightarrow> header \<Rightarrow> header \<Rightarrow> bool" where
  "varyMatches_all [] cachedHeader reqHeader = True"
| "varyMatches_all (h # hs) cachedHeader reqHeader =
     (let header = CanonicalHeaderKey h
      in if header \<noteq> [] \<and>
            header_get reqHeader header \<noteq> header_get cachedHeader (''X-Varied-'' @ header)
         then False
         else varyMatches_all hs cachedHeader reqHeader)"

definition varyMatches :: "http_response \<Rightarrow> http_request \<Rightarrow> bool" where
  "varyMatches cachedResp req =
     varyMatches_all (headerAllCommaSepValues (Header cachedResp) ''vary'')
       (Header cachedResp) (ReqHeader req)"

section \<open>End-to-end headers\<close>

definition hopByHopHeaders :: "string list" where
  "hopByHopHeaders = [''Connection'', ''Keep-Alive'', ''Proxy-Authenticate'',
     ''Proxy-Authorization'', ''Te'', ''Trailers'', ''Transfer-Encoding'', ''Upgrade'']"

definition getEndToEndHeaders :: "header \<Rightarrow> string list" where
  "getEndToEndHeaders respHeaders =
     (let extras = filter (\<lambda>extra. trim extra '' '' \<noteq> [])
            (split_on (CHR '','') (header_get respHeaders ''connection''));
          hop = hopByHopHeaders @ map CanonicalHeaderKey extras
      in filter (\<lambda>respHeader. respHeader \<notin> set hop) (map fst respHeaders))"

section \<open>Date and freshness\<close>

datatype date_error = ErrNoDateHeader | ErrDateSyntax

definition Date :: "timer \<Rightarrow> header \<Rightarrow> date_error + int" where
  "Date clk respHeaders =
     (let dateHeader = header_get respHeaders ''date''
      in if dateHeader = [] then Inl ErrNoDateHeader
         else case parse_RFC1123 clk dateHeader of
           None \<Rightarrow> Inl ErrDateSyntax
         | Some t \<Rightarrow> Inr t)"

datatype freshness = stale | fresh | transparent

definition zeroDuration :: int where
  "zeroDuration = 0"

definition seconds :: "string \<Rightarrow> int option" where
  "seconds v = ParseDuration (v @ ''s'')"

definition seconds_or_zero :: "string \<Rightarrow> int" where
  "seconds_or_zero v = (case seconds v of None \<Rightarrow> zeroDuration | Some d \<Rightarrow> d)"

text \<open>The lifetime the response announces: its max-age directive, else its Expires header.\<close>

definition resp_lifetime :: "timer \<Rightarrow> header \<Rightarrow> cacheControl \<Rightarrow> int \<Rightarrow> int" where
  "resp_lifetime clk respHeaders respCacheControl date =
     (case map_of respCacheControl ''max-age'' of
        Some maxAge \<Rightarrow> seconds_or_zero maxAge
      | None \<Rightarrow>
          (let expiresHeader = header_get respHeaders ''Expires''
           in if expiresHeader \<noteq> [] then
                (case parse_RFC1123 clk expiresHeader of
                   None \<Rightarrow> zeroDuration
                 | Some expires \<Rightarrow> time_sub expires date)
              else 0))"

definition getFreshness :: "timer \<Rightarrow> header \<Rightarrow> header \<Rightarrow> freshness" where
  "getFreshness clk respHeaders reqHeaders =
     (let respCacheControl = parseCacheControl respHeaders;
          reqCacheControl = parseCacheControl reqHeaders
      in if has_directive reqCacheControl ''no-cache'' then transparent
         else if has_directive respCacheControl ''no-cache'' then stale
         else if has_directive reqCacheControl ''only-if-cached'' then fresh
         else (case Date clk respHeaders of
           Inl err \<Rightarrow> stale
         | Inr date \<Rightarrow>
             (let currentAge = since clk date;
                  lifetime = resp_lifetime clk respHeaders respCacheControl date;
                  lifetime = (case map_of reqCacheControl ''max-age'' of
                      None \<Rightarrow> lifetime
                    | Some maxAge \<Rightarrow> seconds_or_zero maxAge);
                  currentAge = (case map_of reqCacheControl ''min-fresh'' of
                      None \<Rightarrow> currentAge
                    | Some minfresh \<Rightarrow>
                        (case seconds minfresh of None \<Rightarrow> currentAge
                         | Some minfreshDuration \<Rightarrow> wrap64 (currentAge + minfreshDuration)))
              in case map_of reqCacheControl ''max-stale'' of
                   None \<Rightarrow> if lifetime > currentAge then fresh else stale
                 | Some maxstale \<Rightarrow>
                     if maxstale = [] then fresh
                     else (let currentAge = (case seconds maxstale of None \<Rightarrow> currentAge
                             | Some maxstaleDuration \<Rightarrow> wrap64 (currentAge - maxstaleDuration))
                           in if lifetime > currentAge then fresh else stale))))"

text \<open>
  One stale-if-error directive: \<open>Inl b\<close> when the function returns \<open>b\<close> at once, \<open>Inr d\<close>
  when it goes on with lifetime \<open>d\<close>.
\<close>

definition stale_if_error :: "cacheControl \<Rightarrow> int \<Rightarrow> bool + int" where
  "stale_if_error cc lifetime =
     (case map_of cc ''stale-if-error'' of
        None \<Rightarrow> Inr lifetime
      | Some staleMaxAge \<Rightarrow>
          if staleMaxAge \<noteq> [] then
            (case seconds staleMaxAge of None \<Rightarrow> Inl False | Some d \<Rightarrow> Inr d)
          else Inl True)"

definition canStaleOnError :: "timer \<Rightarrow> header \<Rightarrow> header \<Rightarrow> bool" where
  "canStaleOnError clk respHeaders reqHeaders =
     (case stale_if_error (parseCacheControl respHeaders) (- 1) of
        Inl b \<Rightarrow> b
      | Inr lifetime \<Rightarrow>
          (case stale_if_error (parseCacheControl reqHeaders) lifetime of
             Inl b \<Rightarrow> b
           | Inr lifetime \<Rightarrow>
               if lifetime \<ge> 0 then
                 (case Date clk respHeaders of
                    Inl err \<Rightarrow> False
                  | Inr date \<Rightarrow> (let currentAge = since clk date in lifetime > currentAge))
               else False))"

section \<open>Cache-Control: lemmas\<close>

lemma wf_cc_add [wf_intros]: "wf_map cc \<Longrightarrow> wf_map (cc_add cc p)"
  by (simp add: cc_add_def Let_def wf_map_update)

lemma wf_foldl_cc_add: "wf_map cc \<Longrightarrow> wf_map (foldl cc_add cc ps)"
  by (induction ps arbitrary: cc) (auto intro: wf_intros)

lemma wf_parseCacheControl [simp]: "wf_map (parseCacheControl h)"
  by (simp add: parseCacheControl_def wf_foldl_cc_add)

lemma parseCacheControl_absent:
  "header_get h ''Cache-Control'' = [] \<Longrightarrow> parseCacheControl h = []"
  by (simp add: parseCacheControl_def cc_add_def trim_def trim_set_def Let_def)

lemma parseCacheControl_cong:
  "header_get h ''Cache-Control'' = header_get h' ''Cache-Control'' \<Longrightarrow>
   parseCacheControl h = parseCacheControl h'"
  by (simp add: parseCacheControl_def)

text \<open>Rendering a directive, and the directives a Cache-Control header can carry.\<close>

definition render_directive :: "string \<times> string \<Rightarrow> string" where
  "render_directive d = (if snd d = [] then fst d else fst d @ CHR ''='' # snd d)"

definition cc_text :: "string \<Rightarrow> bool" where
  "cc_text s \<longleftrightarrow> set s \<inter> set '',='' = {} \<and> (s = [] \<or> hd s \<noteq> CHR '' '' \<and> last s \<noteq> CHR '' '')"

definition wf_directive :: "string \<times> string \<Rightarrow> bool" where
  "wf_directive d \<longleftrightarrow> fst d \<noteq> [] \<and> cc_text (fst d) \<and> cc_text (snd d)"

lemma trim_cc_text: "cc_text s \<Longrightarrow> trim s '' '' = s"
  by (auto simp: trim_def cc_text_def intro: trim_set_id)

lemma trim_comma_cc_text: "cc_text s \<Longrightarrow> trim s '','' = s"
  unfolding trim_def
  by (rule trim_set_id) (cases "s = []", auto simp: cc_text_def dest: hd_in_set last_in_set)

lemma cc_add_directive:
  assumes "wf_directive d" and "trim p '' '' = render_directive d"
  shows "cc_add cc p = AList.update (fst d) (snd d) cc"
proof (cases "snd d = []")
  case True
  with assms show ?thesis
    by (auto simp: cc_add_def render_directive_def wf_directive_def cc_text_def)
next
  case False
  from assms(1) have "split_on (CHR ''='') (fst d @ CHR ''='' # snd d) = [fst d, snd d]"
    by (auto simp: wf_directive_def cc_text_def split_on_append_sep split_on_single)
  with False assms show ?thesis
    by (simp add: cc_add_def render_directive_def wf_directive_def trim_cc_text trim_comma_cc_text)
qed

lemma foldl_cc_add_directives:
  "list_all2 (\<lambda>p d. wf_directive d \<and> trim p '' '' = render_directive d) ps ds \<Longrightarrow>
   map_of (foldl cc_add cc ps) k = (case map_of (rev ds) k of None \<Rightarrow> map_of cc k | Some v \<Rightarrow> Some v)"
proof (induction ps ds arbitrary: cc rule: list_all2_induct)
  case Nil
  then show ?case by simp
next
  case (Cons p ps d ds)
  then have "cc_add cc p = AList.update (fst d) (snd d) cc"
    by (simp add: cc_add_directive)
  with Cons show ?case
    by (cases d) (auto simp: map_add_def split: option.splits)
qed


text \<open>C12: a Cache-Control header written as comma-separated parts, each the text of a directive with
  blanks around it, is read back as the map from directive names to values, the last
  occurrence of a name winning.\<close>
theorem parse_render_cache_control:
  assumes "ps \<noteq> []" and "\<forall>p\<in>set ps. CHR '','' \<notin> set p"
    and "list_all2 (\<lambda>p d. wf_directive d \<and> trim p '' '' = render_directive d) ps ds"
    and "header_get h ''Cache-Control'' = join_on (CHR '','') ps"
  shows "map_of (parseCacheControl h) = map_of (rev ds)"
proof
  fix k
  have "split_on (CHR '','') (header_get h ''Cache-Control'') = ps"
    using assms(1,2,4) by (simp add: split_join)
  then show "map_of (parseCacheControl h) k = map_of (rev ds) k"
    by (simp add: parseCacheControl_def foldl_cc_add_directives [OF assms(3)] split: option.split)
qed

theorem parse_render_cache_control_witness:
  "map_of (parseCacheControl [(''Cache-Control'', [''max-age=60, no-store,max-age=5''])]) =
   map_of (rev [(''max-age'', ''60''), (''no-store'', []), (''max-age'', ''5'')])"
  by (rule parse_render_cache_control [where ps = "[''max-age=60'', '' no-store'', ''max-age=5'']"])
    code_simp+

section \<open>Vary and end-to-end headers: lemmas\<close>

lemma varyMatches_all_iff:
  "varyMatches_all hs c r \<longleftrightarrow>
     (\<forall>h\<in>set hs. h \<noteq> [] \<longrightarrow> header_get r h = header_get c (''X-Varied-'' @ CanonicalHeaderKey h))"
  by (induction hs c r rule: varyMatches_all.induct) (auto simp: Let_def)

lemma headerAllCommaSepValues_cong:
  "header_values h (CanonicalHeaderKey n) = header_values h' (CanonicalHeaderKey n) \<Longrightarrow>
   headerAllCommaSepValues h n = headerAllCommaSepValues h' n"
  by (simp add: headerAllCommaSepValues_def)

lemma getEndToEndHeaders_iff:
  "k \<in> set (getEndToEndHeaders h) \<longleftrightarrow>
     k \<in> fst ` set h \<and> k \<notin> set hopByHopHeaders \<and>
     (\<forall>e\<in>set (split_on (CHR '','') (header_get h ''connection'')).
        trim e '' '' \<noteq> [] \<longrightarrow> k \<noteq> CanonicalHeaderKey e)"
  by (auto simp: getEndToEndHeaders_def Let_def)

lemma distinct_getEndToEndHeaders: "wf_map h \<Longrightarrow> distinct (getEndToEndHeaders h)"
  by (simp add: getEndToEndHeaders_def wf_map_def Let_def)

lemma canonical_header_names [canon_simps]:
  "CanonicalHeaderKey ''Vary'' = ''Vary''" "CanonicalHeaderKey ''vary'' = ''Vary''"
  "CanonicalHeaderKey ''*'' = ''*''"
  "CanonicalHeaderKey ''connection'' = ''Connection''"
  "CanonicalHeaderKey ''Cache-Control'' = ''Cache-Control''"
  "CanonicalHeaderKey ''X-From-Cache'' = ''X-From-Cache''"
  "CanonicalHeaderKey ''etag'' = ''Etag''"
  "CanonicalHeaderKey ''last-modified'' = ''Last-Modified''"
  "CanonicalHeaderKey ''if-none-match'' = ''If-None-Match''"
  "CanonicalHeaderKey ''if-modified-since'' = ''If-Modified-Since''"
  "CanonicalHeaderKey ''date'' = ''Date''" "CanonicalHeaderKey ''Expires'' = ''Expires''"
  "CanonicalHeaderKey ''range'' = ''Range''"
  by code_simp+

lemma split_on_append:
  "split_on d (x @ d # y) = split_on d x @ split_on d y"
  by (induction x) (auto split: list.splits simp: neq_Nil_conv)

lemma CanonicalHeaderKey_blank [simp]: "CanonicalHeaderKey (CHR '' '' # s) = CHR '' '' # s"
proof -
  have "\<not> validHeaderFieldByte CHR '' ''" by code_simp
  then show ?thesis by (simp add: CanonicalHeaderKey_def)
qed

text \<open>The names of the headers taken over from a 304 response are exactly the response's own
  headers minus the fixed hop-by-hop names and minus the canonical form of every non-blank
  field of its Connection header.\<close>
theorem end_to_end_headers_iff:
  "k \<in> set (getEndToEndHeaders h) \<longleftrightarrow>
     (\<exists>vs. (k, vs) \<in> set h) \<and> k \<notin> set hopByHopHeaders \<and>
     \<not> (\<exists>e. e \<in> set (split_on (CHR '','') (header_get h ''Connection'')) \<and>
          trim e '' '' \<noteq> [] \<and> k = CanonicalHeaderKey e)"
proof -
  have "header_get h ''Connection'' = header_get h ''connection''"
    by (metis canonical_header_names(4) header_get_canonical)
  then show ?thesis by (force simp: getEndToEndHeaders_iff)
qed

text \<open>A header named in Connection after a comma and a blank, as HTTP lists are usually
  written, is not recognised as hop-by-hop: the blank stays in front of the name when it is
  looked up, so the header is taken over from the 304 response all the same.\<close>
theorem connection_list_blank_ignored:
  assumes "header_get h ''connection'' = p @ '', '' @ n" and "CHR '','' \<notin> set n"
    and "\<forall>e\<in>set (split_on (CHR '','') p). CanonicalHeaderKey e \<noteq> n"
    and "n \<in> fst ` set h" and "n \<notin> set hopByHopHeaders"
  shows "n \<in> set (getEndToEndHeaders h)"
proof -
  have "p @ '', '' @ n = p @ CHR '','' # CHR '' '' # n" by simp
  then have "split_on (CHR '','') (header_get h ''connection'') =
    split_on (CHR '','') p @ [CHR '' '' # n]"
    using assms(1,2) by (simp add: split_on_append split_on_single del: split_on.simps)
  moreover have "CHR '' '' # n \<noteq> n" by (metis impossible_Cons le_refl)
  ultimately show ?thesis
    using assms(3,4,5) by (auto simp: getEndToEndHeaders_iff)
qed

theorem connection_list_blank_ignored_witness:
  "''X-Foo'' \<in> set (getEndToEndHeaders
     [(''Connection'', [''close, X-Foo'']), (''X-Foo'', [''1''])])"
  by (rule connection_list_blank_ignored [where p = "''close''"]) code_simp+

text \<open>A cached response with \<open>Vary: *\<close>, which HTTP says matches no other request, matches
  every request, because the star is looked up as an ordinary header name.\<close>
theorem vary_star_matches:
  assumes "header_values (Header cachedResp) ''Vary'' = [''*'']"
    and "header_get (Header cachedResp) ''X-Varied-*'' = []"
    and "header_get (ReqHeader req) ''*'' = []"
  shows "varyMatches cachedResp req"
proof -
  have "map trim_space (split_on CHR '','' ''*'') = [''*'']" by code_simp
  with assms show ?thesis
    by (simp add: varyMatches_def headerAllCommaSepValues_def canon_simps)
qed

theorem vary_star_matches_witness:
  "varyMatches
     (mk_response ''200 OK'' 200 [(''Vary'', [''*''])] ''a'')
     (mk_request ''GET'' ''h'' ''/'' [(''Accept'', [''b''])])"
  by (rule vary_star_matches) code_simp+

section \<open>Freshness: lemmas\<close>

text \<open>The test clock of \<open>cache_test.go\<close>: every age is \<open>elapsed\<close>.\<close>

definition fakeClock :: "int \<Rightarrow> timer" where
  "fakeClock elapsed = \<lparr>since = (\<lambda>d. elapsed), zone = (\<lambda>s. None)\<rparr>"

lemma seconds_utoa:
  "0 \<le> n \<Longrightarrow> seconds (utoa n) = (if n > 9223372036 then None else Some (n * 1000000000))"
  by (simp add: seconds_def ParseDuration_seconds)

lemma seconds_in64: "seconds v = Some d \<Longrightarrow> in64 d"
  by (simp add: seconds_def ParseDuration_in64)

lemma has_directive_Nil [simp]: "\<not> has_directive [] d"
  by (simp add: has_directive_def)

lemma Date_cong: "zone clk' = zone clk \<Longrightarrow> Date clk' = Date clk"
  by (intro ext) (simp add: Date_def Let_def parse_RFC1123_cong [of clk' clk])

lemma resp_lifetime_cong: "zone clk' = zone clk \<Longrightarrow> resp_lifetime clk' = resp_lifetime clk"
  by (intro ext) (simp only: resp_lifetime_def parse_RFC1123_cong [of clk' clk])

lemma getFreshness_min_fresh:
  assumes "parseCacheControl req = [(''min-fresh'', utoa m)]" and "0 \<le> m" and "m \<le> 9223372036"
    and "\<not> has_directive (parseCacheControl resp) ''no-cache''"
    and "Date clk resp = Inr date"
  shows "getFreshness clk resp req = fresh \<longleftrightarrow>
    wrap64 (since clk date + m * 1000000000) < resp_lifetime clk resp (parseCacheControl resp) date"
  using assms
  by (simp add: getFreshness_def has_directive_def seconds_utoa Let_def)

section \<open>Freshness: properties\<close>

text \<open>C13: with a request that asks for nothing, a dated response with \<open>max-age=n\<close> is fresh exactly
  while it is younger than \<open>n\<close> seconds; an \<open>n\<close> beyond the range of an \<open>int64\<close> count of
  nanoseconds (about 292 years) is a parse error and counts as 0.\<close>
theorem max_age_freshness:
  assumes "parseCacheControl req = []"
    and "\<not> has_directive (parseCacheControl resp) ''no-cache''"
    and "map_of (parseCacheControl resp) ''max-age'' = Some (utoa n)" and "0 \<le> n"
    and "Date clk resp = Inr date"
  shows "getFreshness clk resp req =
    (if since clk date < (if n \<le> 9223372036 then n * 1000000000 else 0) then fresh else stale)"
  using assms
  by (simp add: getFreshness_def resp_lifetime_def seconds_or_zero_def seconds_utoa
      zeroDuration_def Let_def)

theorem max_age_freshness_witness:
  "getFreshness (fakeClock 59000000000)
     [(''Date'', [''Tue, 14 Dec 2010 01:01:50 GMT'']), (''Cache-Control'', [''max-age=60''])] [] =
   (if since (fakeClock 59000000000) 1292288510000000000 <
       (if (60::int) \<le> 9223372036 then 60 * 1000000000 else 0) then fresh else stale)"
  by (rule max_age_freshness) code_simp+

text \<open>The age is the only way the clock enters the decision, and it enters monotonically: for a
  request without min-fresh and without a bounded max-stale, what is fresh at some age was
  fresh at every smaller age.\<close>
theorem freshness_antitone_in_age:
  assumes "\<not> has_directive (parseCacheControl req) ''min-fresh''"
    and "map_of (parseCacheControl req) ''max-stale'' \<in> {None, Some []}"
    and "getFreshness clk resp req = fresh"
    and "zone clk' = zone clk" and "\<And>d. since clk' d \<le> since clk d"
  shows "getFreshness clk' resp req = fresh"
proof -
  have age: "since clk d < l \<Longrightarrow> since clk' d < l" for d l
    using assms(5) [of d] by simp
  show ?thesis
    using assms(1,2,3)
    by (auto simp: getFreshness_def Let_def Date_cong [OF assms(4)]
        resp_lifetime_cong [OF assms(4)] has_directive_def
        split: if_splits sum.splits option.splits intro: age)
qed

theorem freshness_antitone_in_age_witness:
  "getFreshness (fakeClock 1000000000)
     [(''Date'', [''Tue, 14 Dec 2010 01:01:50 GMT'']), (''Cache-Control'', [''max-age=60''])]
     [(''Cache-Control'', [''max-stale''])] = fresh"
proof (rule freshness_antitone_in_age [where clk = "fakeClock 99000000000"])
  show "getFreshness (fakeClock 99000000000)
     [(''Date'', [''Tue, 14 Dec 2010 01:01:50 GMT'']), (''Cache-Control'', [''max-age=60''])]
     [(''Cache-Control'', [''max-stale''])] = fresh" by code_simp
  show "\<not> has_directive (parseCacheControl [(''Cache-Control'', [''max-stale''])]) ''min-fresh''"
    by code_simp
  show "map_of (parseCacheControl [(''Cache-Control'', [''max-stale''])]) ''max-stale'' \<in> {None, Some []}"
    by code_simp
qed (simp_all add: fakeClock_def)

text \<open>A request with \<open>max-age=m\<close> replaces the lifetime the response announces in both directions:
  a response that expired by its own max-age or Expires is still served as fresh when the
  request allows a larger age.\<close>
theorem request_max_age_replaces_lifetime:
  assumes "parseCacheControl req = [(''max-age'', utoa m)]" and "0 \<le> m" and "m \<le> 9223372036"
    and "\<not> has_directive (parseCacheControl resp) ''no-cache''"
    and "Date clk resp = Inr date"
  shows "getFreshness clk resp req = (if since clk date < m * 1000000000 then fresh else stale)"
  using assms
  by (simp add: getFreshness_def has_directive_def seconds_or_zero_def seconds_utoa Let_def)

theorem request_max_age_replaces_lifetime_witness:
  "getFreshness (fakeClock 3600000000000)
     [(''Date'', [''Tue, 14 Dec 2010 01:01:50 GMT'']), (''Cache-Control'', [''max-age=10''])]
     [(''Cache-Control'', [''max-age=86400''])] =
   (if since (fakeClock 3600000000000) 1292288510000000000 < 86400 * 1000000000 then fresh else stale)"
  by (rule request_max_age_replaces_lifetime) code_simp+

text \<open>With \<open>min-fresh=m\<close> the response must stay fresh for another \<open>m\<close> seconds, as long as age plus
  \<open>m\<close> seconds fits an \<open>int64\<close>; when it does not, the sum wraps to a negative age and every
  response with a non-negative lifetime is served as fresh, however old it is.\<close>
theorem min_fresh_freshness:
  assumes "parseCacheControl req = [(''min-fresh'', utoa m)]" and "0 \<le> m" and "m \<le> 9223372036"
    and "\<not> has_directive (parseCacheControl resp) ''no-cache''"
    and "Date clk resp = Inr date" and "0 \<le> since clk date" and "since clk date \<le> max64"
  shows "(in64 (since clk date + m * 1000000000) \<longrightarrow>
      (getFreshness clk resp req = fresh \<longleftrightarrow>
        since clk date + m * 1000000000 < resp_lifetime clk resp (parseCacheControl resp) date)) \<and>
    (\<not> in64 (since clk date + m * 1000000000) \<longrightarrow>
      0 \<le> resp_lifetime clk resp (parseCacheControl resp) date \<longrightarrow>
      getFreshness clk resp req = fresh)"
proof -
  let ?s = "since clk date + m * 1000000000"
  have "wrap64 ?s < 0" if "\<not> in64 ?s"
  proof -
    from that assms(2,3,6,7) have "9223372036854775808 \<le> ?s" and "?s < 18446744073709551616"
      by (auto simp: in64_def max64_def min64_def)
    then show ?thesis by (simp add: wrap64_overflow)
  qed
  then show ?thesis
    using getFreshness_min_fresh [OF assms(1-5)] by (auto simp: wrap64_id)
qed

theorem min_fresh_freshness_witness:
  "getFreshness (fakeClock 1000000000)
     [(''Date'', [''Tue, 14 Dec 2010 01:01:50 GMT''])]
     [(''Cache-Control'', [''min-fresh=9223372036''])] = fresh"
proof -
  have "Date (fakeClock 1000000000) [(''Date'', [''Tue, 14 Dec 2010 01:01:50 GMT''])] =
    Inr 1292288510000000000" by code_simp
  moreover have "parseCacheControl [(''Cache-Control'', [''min-fresh=9223372036''])] =
    [(''min-fresh'', utoa 9223372036)]" by code_simp
  moreover have "\<not> has_directive
    (parseCacheControl [(''Date'', [''Tue, 14 Dec 2010 01:01:50 GMT''])]) ''no-cache''" by code_simp
  moreover have "resp_lifetime (fakeClock 1000000000)
    [(''Date'', [''Tue, 14 Dec 2010 01:01:50 GMT''])]
    (parseCacheControl [(''Date'', [''Tue, 14 Dec 2010 01:01:50 GMT''])]) 1292288510000000000 = 0"
    by code_simp
  ultimately show ?thesis
    using min_fresh_freshness [of "[(''Cache-Control'', [''min-fresh=9223372036''])]" 9223372036
        "[(''Date'', [''Tue, 14 Dec 2010 01:01:50 GMT''])]" "fakeClock 1000000000"
        1292288510000000000]
    by (simp add: fakeClock_def in64_def max64_def min64_def)
qed

text \<open>A stored response may answer for a failing server exactly when the response's
  stale-if-error directive is empty, or else when it is absent or a duration and the request's
  directive is empty or the directive that counts (the request's before the response's) gives
  a duration the dated response's age is below.\<close>
theorem stale_on_error_iff:
  "canStaleOnError clk resp req \<longleftrightarrow>
    (let s = map_of (parseCacheControl resp) ''stale-if-error'';
         q = map_of (parseCacheControl req) ''stale-if-error''
     in s = Some [] \<or>
        (s = None \<or> (\<exists>v d. s = Some v \<and> seconds v = Some d)) \<and>
        (q = Some [] \<or>
         (\<exists>v d date. (if q = None then s else q) = Some v \<and> seconds v = Some d \<and> 0 \<le> d \<and>
            Date clk resp = Inr date \<and> since clk date < d)))"
  by (auto simp: canStaleOnError_def stale_if_error_def Let_def
      split: option.splits sum.splits if_splits)

end
