(* ===== verification/Cache_Store.thy ===== *)
theory Cache_Store
  imports Wire Go_MD5 Cache_Policy
begin

text \<open>
  The \<open>Cache\<close> interface of \<open>cache/cache.go\<close> as a locale, and its three providers:
  \<open>memorycache\<close>, \<open>diskcache\<close> and \<open>leveldbcache\<close>. Every operation is one atomic step (the
  in-memory map holds its mutex during each of them; the two stores lock internally).

  \<open>Get\<close> returns the bytes and a flag, as in Go. A provider may keep several keys in one slot:
  the disk cache does so for keys with the same MD5 digest. The databases behind the disk
  and LevelDB caches are third-party code; their operations are parameters.
\<close>

section \<open>The interface\<close>

text \<open>The helper \<open>PleaseCache\<close> that exercises an implementation: \<open>Some\<close> message when it fails.\<close>

definition PleaseCache ::
  "('s \<Rightarrow> string \<Rightarrow> string \<times> bool) \<Rightarrow> ('s \<Rightarrow> string \<Rightarrow> string \<Rightarrow> 's) \<Rightarrow> ('s \<Rightarrow> string \<Rightarrow> 's) \<Rightarrow> 's \<Rightarrow>
   string option" where
  "PleaseCache get put del s =
     (let key = ''testKey'';
          val = ''some bytes''
      in if snd (get s key) then Some ''retrieved key before adding it''
         else
           (let s1 = put s key val;
                (retVal, ok) = get s1 key
            in if \<not> ok then Some ''could not retrieve an element we just added''
               else if retVal \<noteq> val then Some ''retrieved a different value than what we put in''
               else if snd (get (del s1 key) key) then Some ''deleted key still present''
               else None))"

locale cache_store =
  fixes get :: "'s \<Rightarrow> string \<Rightarrow> string \<times> bool"
    and put :: "'s \<Rightarrow> string \<Rightarrow> string \<Rightarrow> 's"
    and del :: "'s \<Rightarrow> string \<Rightarrow> 's"
    and slot :: "string \<Rightarrow> string"
  assumes get_put_same: "slot k' = slot k \<Longrightarrow> get (put s k v) k' = (v, True)"
    and get_put_other: "slot k' \<noteq> slot k \<Longrightarrow> get (put s k v) k' = get s k'"
    and get_del_same: "slot k' = slot k \<Longrightarrow> snd (get (del s k) k') = False"
    and get_del_other: "slot k' \<noteq> slot k \<Longrightarrow> get (del s k) k' = get s k'"
begin

text \<open>Every implementation passes \<open>PleaseCache\<close> when it starts without the key of the test.\<close>

lemma please_cache: "PleaseCache get put del s = None \<longleftrightarrow> \<not> snd (get s ''testKey'')"
  by (simp add: PleaseCache_def Let_def get_put_same get_del_same)

lemma put_overwrites: "get (put (put s k v) k w) k = (w, True)"
  by (simp add: get_put_same)

lemma put_commute_get:
  "slot k \<noteq> slot k' \<Longrightarrow> get (put (put s k v) k' w) x = get (put (put s k' w) k v) x"
  by (cases "slot x = slot k"; cases "slot x = slot k'") (simp_all add: get_put_same get_put_other)

lemma del_idempotent: "snd (get (del (del s k) k) k') = snd (get (del s k) k')"
  by (cases "slot k' = slot k") (simp_all add: get_del_same get_del_other)

lemma del_after_put: "slot k' \<noteq> slot k \<Longrightarrow> get (del (put s k v) k) k' = get s k'"
  by (simp add: get_del_other get_put_other)

end

section \<open>memorycache\<close>

record memory_cache =
  items :: "(string \<times> string) list"

definition memory_Get :: "memory_cache \<Rightarrow> string \<Rightarrow> string \<times> bool" where
  "memory_Get c key = (case map_of (items c) key of None \<Rightarrow> ([], False) | Some resp \<Rightarrow> (resp, True))"

definition memory_Set :: "memory_cache \<Rightarrow> string \<Rightarrow> string \<Rightarrow> memory_cache" where
  "memory_Set c key resp = c\<lparr>items := AList.update key resp (items c)\<rparr>"

definition memory_Delete :: "memory_cache \<Rightarrow> string \<Rightarrow> memory_cache" where
  "memory_Delete c key = c\<lparr>items := AList.delete key (items c)\<rparr>"

definition memory_New :: memory_cache where
  "memory_New = \<lparr>items = []\<rparr>"

interpretation mem: cache_store memory_Get memory_Set memory_Delete "\<lambda>k. k"
  by unfold_locales (simp_all add: memory_Get_def memory_Set_def memory_Delete_def)

lemma memory_wf:
  "wf_map (items memory_New)"
  "wf_map (items c) \<Longrightarrow> wf_map (items (memory_Set c k v))"
  "wf_map (items c) \<Longrightarrow> wf_map (items (memory_Delete c k))"
  by (simp_all add: memory_New_def memory_Set_def memory_Delete_def wf_map_update wf_map_delete)

section \<open>diskcache\<close>

text \<open>
  The operations of \<open>diskv\<close> are parameters: \<open>Read\<close> fails (\<open>None\<close>) when there is no readable
  file, \<open>WriteStream\<close> and \<open>Erase\<close> report an error, which the cache drops.
\<close>

definition keyToFilename :: "string \<Rightarrow> string" where
  "keyToFilename key = hex_encode (md5 key)"

definition disk_Get :: "('d \<Rightarrow> string \<Rightarrow> string option) \<Rightarrow> 'd \<Rightarrow> string \<Rightarrow> string \<times> bool" where
  "disk_Get Read d key =
     (case Read d (keyToFilename key) of None \<Rightarrow> ([], False) | Some resp \<Rightarrow> (resp, True))"

definition disk_Set ::
  "('d \<Rightarrow> string \<Rightarrow> string \<Rightarrow> bool \<times> 'd) \<Rightarrow> 'd \<Rightarrow> string \<Rightarrow> string \<Rightarrow> 'd" where
  "disk_Set WriteStream d key resp = snd (WriteStream d (keyToFilename key) resp)"

definition disk_Delete :: "('d \<Rightarrow> string \<Rightarrow> bool \<times> 'd) \<Rightarrow> 'd \<Rightarrow> string \<Rightarrow> 'd" where
  "disk_Delete Erase d key = snd (Erase d (keyToFilename key))"

text \<open>\<open>New\<close>, where \<open>diskv_New\<close> opens a store with a base path and a size limit of its own cache,
  and \<open>NewWithDiskv\<close>: a disk cache is nothing but its store.\<close>

definition disk_New :: "(string \<Rightarrow> int \<Rightarrow> 'd) \<Rightarrow> string \<Rightarrow> 'd" where
  "disk_New diskv_New basePath = diskv_New basePath (100 * 1024 * 1024)"

definition NewWithDiskv :: "'d \<Rightarrow> 'd" where
  "NewWithDiskv d = d"

section \<open>leveldbcache\<close>

definition leveldb_Get :: "('d \<Rightarrow> string \<Rightarrow> string option) \<Rightarrow> 'd \<Rightarrow> string \<Rightarrow> string \<times> bool" where
  "leveldb_Get DbGet d key = (case DbGet d key of None \<Rightarrow> ([], False) | Some resp \<Rightarrow> (resp, True))"

definition leveldb_Set ::
  "('d \<Rightarrow> string \<Rightarrow> string \<Rightarrow> bool \<times> 'd) \<Rightarrow> 'd \<Rightarrow> string \<Rightarrow> string \<Rightarrow> 'd" where
  "leveldb_Set Put d key resp = snd (Put d key resp)"

definition leveldb_Delete :: "('d \<Rightarrow> string \<Rightarrow> bool \<times> 'd) \<Rightarrow> 'd \<Rightarrow> string \<Rightarrow> 'd" where
  "leveldb_Delete DbDelete d key = snd (DbDelete d key)"

text \<open>\<open>New\<close> fails with the error of \<open>leveldb.OpenFile\<close>.\<close>

definition leveldb_New :: "(string \<Rightarrow> 'e + 'd) \<Rightarrow> string \<Rightarrow> 'e + 'd" where
  "leveldb_New OpenFile path = (case OpenFile path of Inl err \<Rightarrow> Inl err | Inr db \<Rightarrow> Inr db)"

definition NewWithDB :: "'d \<Rightarrow> 'd" where
  "NewWithDB db = db"

section \<open>The contract of the two persistent caches\<close>

text \<open>
  The documented behaviour of a key-value store in which no operation fails for another
  reason than a missing key: a read sees the last write, an erased key is gone.
\<close>

definition kv_laws ::
  "('d \<Rightarrow> string \<Rightarrow> string option) \<Rightarrow> ('d \<Rightarrow> string \<Rightarrow> string \<Rightarrow> bool \<times> 'd) \<Rightarrow>
   ('d \<Rightarrow> string \<Rightarrow> bool \<times> 'd) \<Rightarrow> bool" where
  "kv_laws rd wr er \<longleftrightarrow>
     (\<forall>d k v k'. rd (snd (wr d k v)) k' = (if k' = k then Some v else rd d k')) \<and>
     (\<forall>d k k'. rd (snd (er d k)) k' = (if k' = k then None else rd d k'))"

lemma keyToFilename_eq: "keyToFilename k = keyToFilename k' \<longleftrightarrow> md5 k = md5 k'"
  by (simp add: keyToFilename_def hex_encode_inject)

text \<open>C15: over a store that behaves as documented, the disk cache keeps the contract of the Cache
  interface, two keys sharing an entry exactly when their MD5 digests are equal.\<close>
theorem disk_cache_contract:
  assumes "kv_laws rd wr er"
  shows "cache_store (disk_Get rd) (disk_Set wr) (disk_Delete er) md5"
  using assms
  by unfold_locales
    (simp_all add: kv_laws_def disk_Get_def disk_Set_def disk_Delete_def keyToFilename_eq)

text \<open>Over a store that behaves as documented, the LevelDB cache keeps the contract of the
  Cache interface with one entry per key.\<close>
theorem leveldb_cache_contract:
  assumes "kv_laws rd wr er"
  shows "cache_store (leveldb_Get rd) (leveldb_Set wr) (leveldb_Delete er) (\<lambda>k. k)"
  using assms
  by unfold_locales (simp_all add: kv_laws_def leveldb_Get_def leveldb_Set_def leveldb_Delete_def)

text \<open>The documented behaviour is that of a map.\<close>

lemma kv_laws_map:
  "kv_laws (\<lambda>d k. d k) (\<lambda>d k v. (False, d(k \<mapsto> v))) (\<lambda>d k. (d k = None, d(k := None)))"
  by (simp add: kv_laws_def)

theorem disk_cache_contract_witness:
  "disk_Get (\<lambda>d k. d k) (disk_Set (\<lambda>d k v. (False, d(k \<mapsto> v))) Map.empty ''http://a/'' ''x'')
     ''http://a/'' = (''x'', True)"
  by (rule cache_store.get_put_same [OF disk_cache_contract [OF kv_laws_map]]) simp

theorem leveldb_cache_contract_witness:
  "leveldb_Get (\<lambda>d k. d k) (leveldb_Set (\<lambda>d k v. (False, d(k \<mapsto> v))) Map.empty ''http://a/'' ''x'')
     ''http://b/'' = ([], False)"
proof -
  have "leveldb_Get (\<lambda>d k. d k)
      (leveldb_Set (\<lambda>d k v. (False, d(k \<mapsto> v))) Map.empty ''http://a/'' ''x'') ''http://b/''
    = leveldb_Get (\<lambda>d k. d k) Map.empty ''http://b/''"
    by (rule cache_store.get_put_other [OF leveldb_cache_contract [OF kv_laws_map]]) simp
  then show ?thesis by (simp add: leveldb_Get_def)
qed

end
