(* ===== verification/Cache_Transport.thy ===== *)
theory Cache_Transport
  imports Cache_Store
begin

text \<open>
  The caching \<open>http.RoundTripper\<close> of \<open>cache/cache.go\<close>: both policies of \<open>RoundTrip\<close> and the
  reader that stores a GET response when its body has been read to the end.

  The cache is a value of the \<open>Cache\<close> interface: a record of its three operations over a
  state. The transport that makes the real requests is a parameter, a function of the
  request and of a network state; it returns an error or a response.
\<close>

section \<open>Interfaces and results\<close>

record 's cache_impl =
  Get :: "'s \<Rightarrow> string \<Rightarrow> string \<times> bool"
  Set :: "'s \<Rightarrow> string \<Rightarrow> string \<Rightarrow> 's"
  Delete :: "'s \<Rightarrow> string \<Rightarrow> 's"

definition memory_impl :: "memory_cache cache_impl" where
  "memory_impl = \<lparr>Get = memory_Get, Set = memory_Set, Delete = memory_Delete\<rparr>"

type_synonym ('e, 'w) round_tripper = "http_request \<Rightarrow> 'w \<Rightarrow> ('e + http_response) \<times> 'w"

datatype policy = Dummy | RFC2616

record transport =
  Policy :: policy
  MarkCachedResponses :: bool

definition NewTransport :: transport where
  "NewTransport = \<lparr>Policy = RFC2616, MarkCachedResponses = True\<rparr>"

text \<open>\<open>NewMemoryCacheTransport\<close>: a transport and the empty in-memory cache it uses.\<close>

definition NewMemoryCacheTransport :: "transport \<times> memory_cache cache_impl \<times> memory_cache" where
  "NewMemoryCacheTransport = (NewTransport, memory_impl, memory_New)"

definition XFromCache :: string where
  "XFromCache = ''X-From-Cache''"

text \<open>The three results of \<open>CachedResponse\<close>: nil without error, an error, a response.\<close>

datatype cached_result = NotCached | BadCached | Cached http_response

definition CachedResponse :: "'s cache_impl \<Rightarrow> 's \<Rightarrow> http_request \<Rightarrow> cached_result" where
  "CachedResponse c s req =
     (let (cachedVal, ok) = Get c s (cacheKey req)
      in if \<not> ok then NotCached
         else (case ReadResponse (Method req) cachedVal of
           None \<Rightarrow> BadCached | Some resp \<Rightarrow> Cached resp))"

datatype 'e rt_error = TransportErr 'e | PanicGateway

text \<open>
  A response that a \<open>cachingReadCloser\<close> wraps: the key and the response to store once its body
  has been read to EOF. \<open>None\<close> for a response that is returned as it is.
\<close>

type_synonym pending = "(string \<times> http_response) option"

section \<open>Helpers of RoundTrip\<close>

definition cacheable :: "http_request \<Rightarrow> bool" where
  "cacheable req \<longleftrightarrow>
     (Method req = ''GET'' \<or> Method req = ''HEAD'') \<and> header_get (ReqHeader req) ''range'' = []"

definition lookup_cached :: "'s cache_impl \<Rightarrow> 's \<Rightarrow> http_request \<Rightarrow> cached_result" where
  "lookup_cached c s req = (if cacheable req then CachedResponse c s req else NotCached)"

definition invalidate :: "'s cache_impl \<Rightarrow> 's \<Rightarrow> http_request \<Rightarrow> 's" where
  "invalidate c s req = (if cacheable req then s else Delete c s (cacheKey req))"

definition mark :: "transport \<Rightarrow> http_response \<Rightarrow> http_response" where
  "mark t resp =
     (if MarkCachedResponses t then resp\<lparr>Header := header_set (Header resp) XFromCache ''1''\<rparr> else resp)"

text \<open>Dumping a response whose body fails consumes the body and stores nothing.\<close>

definition dump_to_cache ::
  "'s cache_impl \<Rightarrow> 's \<Rightarrow> string \<Rightarrow> string \<Rightarrow> http_response \<Rightarrow> http_response \<times> 's" where
  "dump_to_cache c s key method resp =
     (case DumpResponse method resp of
        None \<Rightarrow> (if BodyErr resp then resp\<lparr>Body := []\<rparr> else resp, s)
      | Some respBytes \<Rightarrow> (resp, Set c s key respBytes))"

text \<open>\<open>cloneRequest\<close> copies the header entry by entry.\<close>

definition cloneRequest :: "http_request \<Rightarrow> http_request" where
  "cloneRequest r =
     r\<lparr>ReqHeader := foldl (\<lambda>h (k, s). AList.update k s h) [] (ReqHeader r)\<rparr>"

definition newGatewayTimeoutResponse :: "http_request \<Rightarrow> http_response option" where
  "newGatewayTimeoutResponse req =
     ReadResponse (Method req) (''HTTP/1.1 504 Gateway Timeout'' @ CRLF @ CRLF)"

text \<open>The request that is sent for a stale entry: validators are added where the caller has none.\<close>

definition add_validators :: "http_response \<Rightarrow> http_request \<Rightarrow> http_request" where
  "add_validators cachedResp req =
     (let etag = header_get (Header cachedResp) ''etag'';
          req2 = (if etag \<noteq> [] \<and> header_get (ReqHeader req) ''etag'' = []
                  then Some ((cloneRequest req)\<lparr>ReqHeader :=
                         header_set (ReqHeader (cloneRequest req)) ''if-none-match'' etag\<rparr>)
                  else None);
          lastModified = header_get (Header cachedResp) ''last-modified'';
          req2 = (if lastModified \<noteq> [] \<and> header_get (ReqHeader req) ''last-modified'' = []
                  then (let r = (case req2 of None \<Rightarrow> cloneRequest req | Some r \<Rightarrow> r)
                        in Some (r\<lparr>ReqHeader := header_set (ReqHeader r) ''if-modified-since'' lastModified\<rparr>))
                  else req2)
      in case req2 of None \<Rightarrow> req | Some r \<Rightarrow> r)"

definition update_from_304 :: "http_response \<Rightarrow> http_response \<Rightarrow> http_response" where
  "update_from_304 cachedResp resp =
     cachedResp\<lparr>Header := foldl (\<lambda>h header. AList.update header (header_values (Header resp) header) h)
       (Header cachedResp) (getEndToEndHeaders (Header resp))\<rparr>"

text \<open>The loop that records the request's values of the headers named in Vary.\<close>

definition vary_step :: "header \<Rightarrow> header \<Rightarrow> string \<Rightarrow> header" where
  "vary_step reqHeader h varyKey0 =
     (let varyKey = CanonicalHeaderKey varyKey0;
          fakeHeader = ''X-Varied-'' @ varyKey;
          reqValue = header_get reqHeader varyKey
      in if reqValue \<noteq> [] then header_set h fakeHeader reqValue else h)"

definition record_vary :: "http_request \<Rightarrow> http_response \<Rightarrow> http_response" where
  "record_vary req resp =
     resp\<lparr>Header := foldl (vary_step (ReqHeader req)) (Header resp)
       (headerAllCommaSepValues (Header resp) ''vary'')\<rparr>"

text \<open>The last part of \<open>RoundTripRFC2616\<close>: store the response, or make sure nothing is stored.\<close>

definition finish ::
  "'s cache_impl \<Rightarrow> string \<Rightarrow> http_request \<Rightarrow> http_response \<Rightarrow> 's \<Rightarrow> (http_response \<times> pending) \<times> 's" where
  "finish c key req resp s =
     (if cacheable req \<and> canStore (parseCacheControl (ReqHeader req)) (parseCacheControl (Header resp))
      then (let resp = record_vary req resp
            in if Method req = ''GET'' then ((resp, Some (key, resp)), s)
               else (let (resp', s') = dump_to_cache c s key (Method req) resp
                     in ((resp', None), s')))
      else ((resp, None), Delete c s key))"

section \<open>RoundTrip\<close>

definition RoundTripDummy ::
  "transport \<Rightarrow> 's cache_impl \<Rightarrow> ('e, 'w) round_tripper \<Rightarrow> http_request \<Rightarrow> 's \<Rightarrow> 'w \<Rightarrow>
   ('e rt_error + http_response \<times> pending) \<times> 's \<times> 'w" where
  "RoundTripDummy t c rt req s w =
     (let s1 = invalidate c s req
      in case lookup_cached c s req of
           Cached cachedResp \<Rightarrow> (Inr (mark t cachedResp, None), s1, w)
         | _ \<Rightarrow>
             (case rt req w of
                (Inl err, w') \<Rightarrow> (Inl (TransportErr err), s1, w')
              | (Inr resp, w') \<Rightarrow>
                  (let (resp', s2) =
                     (if cacheable req then dump_to_cache c s1 (cacheKey req) (Method req) resp
                      else (resp, Delete c s1 (cacheKey req)))
                   in (Inr (resp', None), s2, w'))))"

text \<open>What the transport's answer makes of a cached response that could not be served at once.\<close>

definition revalidate ::
  "timer \<Rightarrow> 's cache_impl \<Rightarrow> http_request \<Rightarrow> http_response \<Rightarrow> 'e + http_response \<Rightarrow> 's \<Rightarrow>
   ('e rt_error + http_response \<times> pending) \<times> 's" where
  "revalidate clk c req cachedResp answer s =
     (let key = cacheKey req;
          failed = (case answer of Inl err \<Rightarrow> True | Inr resp \<Rightarrow> StatusCode resp \<ge> 500);
          not_ok = (case answer of Inl err \<Rightarrow> True | Inr resp \<Rightarrow> StatusCode resp \<noteq> 200);
          not_modified = (case answer of Inl err \<Rightarrow> False
            | Inr resp \<Rightarrow> Method req = ''GET'' \<and> StatusCode resp = 304)
      in if not_modified then
           (case answer of Inl err \<Rightarrow> (Inl (TransportErr err), s)
            | Inr resp \<Rightarrow> map_prod Inr id (finish c key req (update_from_304 cachedResp resp) s))
         else if failed \<and> Method req = ''GET'' \<and> canStaleOnError clk (Header cachedResp) (ReqHeader req)
         then (Inr (cachedResp, None), s)
         else (let s' = (if not_ok then Delete c s key else s)
               in case answer of Inl err \<Rightarrow> (Inl (TransportErr err), s')
                  | Inr resp \<Rightarrow> map_prod Inr id (finish c key req resp s')))"

definition RoundTripRFC2616 ::
  "timer \<Rightarrow> transport \<Rightarrow> 's cache_impl \<Rightarrow> ('e, 'w) round_tripper \<Rightarrow> http_request \<Rightarrow> 's \<Rightarrow> 'w \<Rightarrow>
   ('e rt_error + http_response \<times> pending) \<times> 's \<times> 'w" where
  "RoundTripRFC2616 clk t c rt req s w =
     (let s1 = invalidate c s req
      in case lookup_cached c s req of
           Cached cachedResp0 \<Rightarrow>
             (let cachedResp = mark t cachedResp0;
                  matches = varyMatches cachedResp req;
                  freshness = getFreshness clk (Header cachedResp) (ReqHeader req)
              in if matches \<and> freshness = fresh then (Inr (cachedResp, None), s1, w)
                 else (let req' = (if matches \<and> freshness = stale then add_validators cachedResp req
                                   else req);
                           (answer, w') = rt req' w;
                           (result, s2) = revalidate clk c req' cachedResp answer s1
                       in (result, s2, w')))
         | _ \<Rightarrow>
             if has_directive (parseCacheControl (ReqHeader req)) ''only-if-cached'' then
               (case newGatewayTimeoutResponse req of
                  None \<Rightarrow> (Inl PanicGateway, s1, w)
                | Some resp \<Rightarrow>
                    (let (result, s2) = finish c (cacheKey req) req resp s1 in (Inr result, s2, w)))
             else
               (case rt req w of
                  (Inl err, w') \<Rightarrow> (Inl (TransportErr err), s1, w')
                | (Inr resp, w') \<Rightarrow>
                    (let (result, s2) = finish c (cacheKey req) req resp s1 in (Inr result, s2, w'))))"

definition RoundTrip ::
  "timer \<Rightarrow> transport \<Rightarrow> 's cache_impl \<Rightarrow> ('e, 'w) round_tripper \<Rightarrow> http_request \<Rightarrow> 's \<Rightarrow> 'w \<Rightarrow>
   ('e rt_error + http_response \<times> pending) \<times> 's \<times> 'w" where
  "RoundTrip clk t c rt req s w =
     (if Policy t = Dummy then RoundTripDummy t c rt req s w
      else RoundTripRFC2616 clk t c rt req s w)"

section \<open>cachingReadCloser\<close>

text \<open>
  The wrapped reader is the list of results its \<open>Read\<close> calls will give: bytes, and \<open>EOF\<close> or
  another error where the call reports one. A reader without further results is at EOF.
\<close>

datatype read_end = EOF | ReadError

record cachingReadCloser =
  R :: "(string \<times> read_end option) list"
  buf :: string

definition onEOF :: "'s cache_impl \<Rightarrow> string \<times> http_response \<Rightarrow> string \<Rightarrow> 's \<Rightarrow> 's" where
  "onEOF c p content s =
     (case DumpResponse ''GET'' ((snd p)\<lparr>Body := content, BodyErr := False\<rparr>) of
        None \<Rightarrow> s | Some respBytes \<Rightarrow> Set c s (fst p) respBytes)"

definition caching_Read ::
  "'s cache_impl \<Rightarrow> string \<times> http_response \<Rightarrow> cachingReadCloser \<Rightarrow> 's \<Rightarrow>
   (string \<times> read_end option) \<times> cachingReadCloser \<times> 's" where
  "caching_Read c p r s =
     (let (bytes, err) = (case R r of [] \<Rightarrow> ([], Some EOF) | x # xs \<Rightarrow> x);
          r' = r\<lparr>R := tl (R r), buf := buf r @ bytes\<rparr>;
          s' = (if err = Some EOF then onEOF c p (buf r') s else s)
      in ((bytes, err), r', s'))"

text \<open>A consumer that calls \<open>Read\<close> \<open>n\<close> times and collects the bytes.\<close>

fun read_n ::
  "nat \<Rightarrow> 's cache_impl \<Rightarrow> string \<times> http_response \<Rightarrow> cachingReadCloser \<Rightarrow> 's \<Rightarrow>
   string \<times> cachingReadCloser \<times> 's" where
  "read_n 0 c p r s = ([], r, s)"
| "read_n (Suc n) c p r s =
     (let ((bytes, err), r', s') = caching_Read c p r s;
          (more, r'', s'') = read_n n c p r' s'
      in (bytes @ more, r'', s''))"

end
