(* ===== verification/Transport_Laws.thy ===== *)
theory Transport_Laws
  imports Cache_Transport
begin

text \<open>
  What the caching transport guarantees. The lemmas that hold for every cache that keeps the
  contract of the \<open>Cache\<close> interface are proved in the locale \<open>caching\<close>, which is interpreted
  on the in-memory cache.
\<close>

section \<open>Facts about the helpers\<close>

lemma memory_impl_simps [simp]:
  "Get memory_impl = memory_Get" "Set memory_impl = memory_Set" "Delete memory_impl = memory_Delete"
  by (simp_all add: memory_impl_def)

lemma foldl_update_other: "k \<notin> set ks \<Longrightarrow>
   map_of (foldl (\<lambda>h k. AList.update k (f k) h) h ks) k = map_of h k"
  by (induction ks arbitrary: h) auto

lemma foldl_update_keys:
  "map_of (foldl (\<lambda>h k. AList.update k (f k) h) h ks) k =
     (if k \<in> set ks then Some (f k) else map_of h k)"
  by (induction ks rule: rev_induct) auto

lemma clone_header_gen:
  "wf_map h \<Longrightarrow> map_of (foldl (\<lambda>h (k, s). AList.update k s h) g h) k =
     (case map_of h k of Some v \<Rightarrow> Some v | None \<Rightarrow> map_of g k)"
proof (induction h arbitrary: g)
  case Nil
  then show ?case by simp
next
  case (Cons kv h)
  obtain k' v where kv: "kv = (k', v)" by force
  from Cons.prems have "wf_map h" and "map_of h k' = None"
    by (auto simp: wf_map_def kv map_of_eq_None_iff)
  then show ?case using Cons.IH by (auto simp: kv split: option.splits)
qed

lemma cloneRequest_header:
  "wf_map (ReqHeader r) \<Longrightarrow> map_of (ReqHeader (cloneRequest r)) = map_of (ReqHeader r)"
  by (rule ext) (simp add: cloneRequest_def clone_header_gen split: option.splits)

lemma cloneRequest_get:
  "wf_map (ReqHeader r) \<Longrightarrow> header_get (ReqHeader (cloneRequest r)) = header_get (ReqHeader r)"
  by (rule header_get_cong) (rule cloneRequest_header)

lemma cloneRequest_sel [simp]:
  "Method (cloneRequest r) = Method r" "URL (cloneRequest r) = URL r"
  "RHost (cloneRequest r) = RHost r" "ReqBody (cloneRequest r) = ReqBody r"
  by (simp_all add: cloneRequest_def)

lemma add_validators_sel [simp]:
  "Method (add_validators r req) = Method req" "URL (add_validators r req) = URL req"
  "RHost (add_validators r req) = RHost req" "ReqBody (add_validators r req) = ReqBody req"
  by (simp_all add: add_validators_def Let_def)

lemma cacheKey_add_validators [simp]: "cacheKey (add_validators r req) = cacheKey req"
  by (simp add: cacheKey_def)

lemma cacheKey_other_method:
  "Method req \<noteq> ''GET'' \<Longrightarrow> cacheKey req \<noteq> URLString (URL req)"
  by (simp add: cacheKey_def)

lemma mark_sel [simp]:
  "Status (mark t r) = Status r" "StatusCode (mark t r) = StatusCode r" "Body (mark t r) = Body r"
  "BodyErr (mark t r) = BodyErr r"
  by (simp_all add: mark_def)

lemma header_get_mark:
  "header_get (Header (mark t r)) k =
     (if MarkCachedResponses t \<and> CanonicalHeaderKey k = CanonicalHeaderKey XFromCache then ''1''
      else header_get (Header r) k)"
  by (simp add: mark_def)

lemma canonical_varied:
  "CanonicalHeaderKey (''X-Varied-'' @ k) = ''X-Varied-'' @ CanonicalHeaderKey k"
  by (simp add: CanonicalHeaderKey_def validHeaderFieldByte_def is_digit_def is_lower_def is_upper_def
      to_upper_def to_lower_def)

lemma record_vary_values:
  "header_values (Header (record_vary req resp)) k =
     (if \<exists>h\<in>set (headerAllCommaSepValues (Header resp) ''vary'').
           k = ''X-Varied-'' @ CanonicalHeaderKey h \<and> header_get (ReqHeader req) h \<noteq> []
      then [header_get (ReqHeader req) (drop (length ''X-Varied-'') k)]
      else header_values (Header resp) k)"
proof -
  have "header_values (foldl (vary_step (ReqHeader req)) g hs) k =
     (if \<exists>h\<in>set hs. k = ''X-Varied-'' @ CanonicalHeaderKey h \<and> header_get (ReqHeader req) h \<noteq> []
      then [header_get (ReqHeader req) (drop (length ''X-Varied-'') k)] else header_values g k)" for g hs
  proof (induction hs rule: rev_induct)
    case Nil
    then show ?case by simp
  next
    case (snoc h hs)
    then show ?case
      by (simp add: vary_step_def Let_def canonical_varied [simplified]) auto
  qed
  then show ?thesis by (simp add: record_vary_def)
qed

lemma record_vary_sel [simp]:
  "Status (record_vary req r) = Status r" "StatusCode (record_vary req r) = StatusCode r"
  "Body (record_vary req r) = Body r" "BodyErr (record_vary req r) = BodyErr r"
  by (simp_all add: record_vary_def)

lemma record_vary_get:
  "take 9 (CanonicalHeaderKey k) \<noteq> ''X-Varied-'' \<Longrightarrow>
   header_get (Header (record_vary req r)) k = header_get (Header r) k"
  by (auto simp: header_get_def record_vary_values)

lemma record_vary_vary [simp]:
  "headerAllCommaSepValues (Header (record_vary req r)) ''vary'' = headerAllCommaSepValues (Header r) ''vary''"
  by (rule headerAllCommaSepValues_cong) (simp add: record_vary_values canon_simps)

lemma parseCacheControl_record_vary [simp]:
  "parseCacheControl (Header (record_vary req r)) = parseCacheControl (Header r)"
  by (rule parseCacheControl_cong) (rule record_vary_get, simp add: canon_simps)

lemma parseCacheControl_mark [simp]:
  "parseCacheControl (Header (mark t r)) = parseCacheControl (Header r)"
  by (rule parseCacheControl_cong) (simp add: header_get_mark canon_simps XFromCache_def)

text \<open>The header fields on which the decisions of the transport rest.\<close>

lemma getFreshness_cong:
  assumes "\<And>k. k \<in> {''Cache-Control'', ''date'', ''Expires''} \<Longrightarrow> header_get h k = header_get h' k"
  shows "getFreshness clk h q = getFreshness clk h' q"
proof -
  note eqs = assms [of "''Cache-Control''", simplified] assms [of "''date''", simplified]
    assms [of "''Expires''", simplified]
  have "parseCacheControl h = parseCacheControl h'" using eqs(1) by (rule parseCacheControl_cong)
  moreover have "Date clk h = Date clk h'" by (simp add: Date_def eqs)
  moreover have "resp_lifetime clk h = resp_lifetime clk h'"
    by (intro ext) (simp add: resp_lifetime_def eqs split: option.split)
  ultimately show ?thesis unfolding getFreshness_def by (simp only:)
qed

section \<open>Laws over every cache\<close>

locale caching = cache_store "Get c" "Set c" "Delete c" slot
  for c :: "'s cache_impl" and slot :: "string \<Rightarrow> string"
begin

lemma invalidate_other:
  "slot k \<noteq> slot (cacheKey req) \<Longrightarrow> Get c (invalidate c s req) k = Get c s k"
  by (simp add: invalidate_def get_del_other)

lemma dump_to_cache_other:
  "slot k \<noteq> slot key \<Longrightarrow> Get c (snd (dump_to_cache c s key m r)) k = Get c s k"
  by (simp add: dump_to_cache_def get_put_other split: option.split)

lemma finish_other:
  "slot k \<noteq> slot key \<Longrightarrow> Get c (snd (finish c key req r s)) k = Get c s k"
  by (simp add: finish_def Let_def dump_to_cache_other get_del_other split: prod.split)
    (metis dump_to_cache_other snd_conv)

lemma revalidate_other:
  "slot k \<noteq> slot (cacheKey req) \<Longrightarrow>
   Get c (snd (revalidate clk c req cached ans s)) k = Get c s k"
  by (simp add: revalidate_def Let_def finish_other get_del_other split: sum.split)

lemma RoundTripDummy_other:
  assumes "slot k \<noteq> slot (cacheKey req)"
  shows "Get c (fst (snd (RoundTripDummy t c rt req s w))) k = Get c s k"
proof -
  have "Get c (snd (dump_to_cache c s1 (cacheKey req) m r)) k = Get c s1 k" for s1 m r
    using assms by (rule dump_to_cache_other)
  then have *: "dump_to_cache c s1 (cacheKey req) m r = (a, b) \<Longrightarrow> Get c b k = Get c s1 k" for s1 m r a b
    by (metis snd_conv)
  show ?thesis
    using assms invalidate_other [OF assms]
    by (simp add: RoundTripDummy_def Let_def get_del_other * split: cached_result.split prod.split sum.split)
qed

lemma RoundTripRFC2616_other:
  assumes "slot k \<noteq> slot (cacheKey req)"
  shows "Get c (fst (snd (RoundTripRFC2616 clk t c rt req s w))) k = Get c s k"
proof -
  have f: "finish c (cacheKey req) q r s1 = (a, b) \<Longrightarrow> Get c b k = Get c s1 k" for q r s1 a b
    using finish_other [OF assms, of q r s1] by simp
  have v: "revalidate clk c q r ans s1 = (a, b) \<Longrightarrow> cacheKey q = cacheKey req \<Longrightarrow> Get c b k = Get c s1 k"
    for q r ans s1 a b
    using revalidate_other [of k q clk r ans s1] assms by simp
  show ?thesis
    using invalidate_other [OF assms]
    by (auto simp: RoundTripRFC2616_def Let_def f v
        split: cached_result.split option.split prod.split sum.split)
qed

lemma RoundTrip_other:
  "slot k \<noteq> slot (cacheKey req) \<Longrightarrow>
   Get c (fst (snd (RoundTrip clk t c rt req s w))) k = Get c s k"
  by (simp add: RoundTrip_def RoundTripDummy_other RoundTripRFC2616_other)

text \<open>The response that is stored when its body has been read is stored under the key of the request.\<close>

lemma finish_key: "finish c key req r s = ((resp, Some p), s') \<Longrightarrow> fst p = key"
  by (auto simp: finish_def Let_def split: if_splits prod.splits)

lemma finish_key_Inr:
  "map_prod Inr id (finish c key req r s) = (Inr (resp, Some p) :: 'e rt_error + _, s') \<Longrightarrow> fst p = key"
  by (cases "finish c key req r s") (auto dest: finish_key)

lemma revalidate_key: "revalidate clk c req r ans s = (Inr (resp, Some p), s') \<Longrightarrow> fst p = cacheKey req"
  by (auto simp: revalidate_def Let_def dest: finish_key_Inr split: sum.splits if_splits)

lemma RoundTrip_key:
  assumes "RoundTrip clk t c rt req s w = (Inr (resp, Some p), s', w')"
  shows "fst p = cacheKey req"
proof (cases "Policy t = Dummy")
  case True
  then show ?thesis using assms
    by (auto simp: RoundTrip_def RoundTripDummy_def Let_def split: cached_result.splits sum.splits prod.splits)
next
  case False
  then show ?thesis using assms
    by (auto simp: RoundTrip_def RoundTripRFC2616_def Let_def dest!: finish_key revalidate_key
        split: cached_result.splits sum.splits prod.splits if_splits option.splits)
qed

lemma read_n_other:
  assumes "slot k \<noteq> slot (fst p)"
  shows "Get c (snd (snd (read_n n c p r s))) k = Get c s k"
proof -
  have eof: "Get c (onEOF c p content s) k = Get c s k" for content s
    using assms by (simp add: onEOF_def get_put_other split: option.split)
  show ?thesis
  proof (induction n arbitrary: r s)
    case (Suc n)
    have "Get c (snd (snd (caching_Read c p r s))) k = Get c s k"
      using eof by (simp add: caching_Read_def Let_def split: list.split prod.split)
    then show ?case using Suc by (simp add: Let_def case_prod_beta)
  qed simp
qed

end

interpretation mc: caching memory_impl "\<lambda>k. k"
  by unfold_locales (simp_all add: mem.get_put_same mem.get_put_other mem.get_del_same mem.get_del_other)

section \<open>Facts about single steps\<close>

lemma lookup_cached_SomeD:
  "lookup_cached c s req = Cached r \<Longrightarrow> cacheable req"
  by (simp add: lookup_cached_def split: if_splits)

lemma invalidate_cacheable [simp]: "cacheable req \<Longrightarrow> invalidate c s req = s"
  by (simp add: invalidate_def)

lemma cacheable_add_validators [simp]:
  assumes "wf_map (ReqHeader req)"
  shows "cacheable (add_validators r req) = cacheable req"
  using cloneRequest_get [OF assms]
  by (simp add: cacheable_def add_validators_def Let_def canon_simps)

lemma parseCacheControl_add_validators [simp]:
  assumes "wf_map (ReqHeader req)"
  shows "parseCacheControl (ReqHeader (add_validators r req)) = parseCacheControl (ReqHeader req)"
  using cloneRequest_get [OF assms]
  by (intro parseCacheControl_cong) (simp add: add_validators_def Let_def canon_simps)

lemma GatewayTimeout_some:
  "\<exists>resp. newGatewayTimeoutResponse req = Some resp \<and> StatusCode resp = 504 \<and> Body resp = [] \<and> Header resp = []
     \<and> \<not> BodyErr resp"
proof -
  have "read_line (''HTTP/1.1 504 Gateway Timeout'' @ CRLF @ CRLF) = Some (''HTTP/1.1 504 Gateway Timeout'', CRLF)"
    "parse_status_line ''HTTP/1.1 504 Gateway Timeout'' = Some (1, 1, ''504 Gateway Timeout'', 504)"
    "read_header [] CRLF = Some ([], [])" "fixPragmaCacheControl [] = []"
    by code_simp+
  then show ?thesis
    by (simp add: newGatewayTimeoutResponse_def ReadResponse_def read_transfer_def header_values_def
        parse_length_def header_get_def bodyAllowedForStatus_def Let_def del: append.simps)
qed

lemma GatewayTimeout_not_None [simp]: "newGatewayTimeoutResponse req \<noteq> None"
  using GatewayTimeout_some [of req] by auto

lemma revalidate_no_panic: "fst (revalidate clk c req r ans s) \<noteq> Inl PanicGateway"
  by (simp add: revalidate_def Let_def split: sum.split)

text \<open>\<open>RoundTripRFC2616\<close> on a hit and on a miss.\<close>

definition sent_request :: "timer \<Rightarrow> http_response \<Rightarrow> http_request \<Rightarrow> http_request" where
  "sent_request clk r req =
     (if varyMatches r req \<and> getFreshness clk (Header r) (ReqHeader req) = stale
      then add_validators r req else req)"

definition servable :: "timer \<Rightarrow> http_response \<Rightarrow> http_request \<Rightarrow> bool" where
  "servable clk r req \<longleftrightarrow> varyMatches r req \<and> getFreshness clk (Header r) (ReqHeader req) = fresh"

lemma sent_request_sel [simp]:
  "Method (sent_request clk r req) = Method req" "URL (sent_request clk r req) = URL req"
  "cacheKey (sent_request clk r req) = cacheKey req"
  by (simp_all add: sent_request_def)

lemma sent_request_header [simp]:
  assumes "wf_map (ReqHeader req)"
  shows "cacheable (sent_request clk r req) = cacheable req"
    "parseCacheControl (ReqHeader (sent_request clk r req)) = parseCacheControl (ReqHeader req)"
  using assms by (simp_all add: sent_request_def)

lemma RFC_fresh:
  assumes "lookup_cached c s req = Cached r0" and "servable clk (mark t r0) req"
  shows "RoundTripRFC2616 clk t c rt req s w = (Inr (mark t r0, None), s, w)"
  using assms lookup_cached_SomeD [OF assms(1)]
  by (simp add: RoundTripRFC2616_def servable_def Let_def)

lemma RFC_revalidate:
  assumes "lookup_cached c s req = Cached r0" and "\<not> servable clk (mark t r0) req"
  shows "RoundTripRFC2616 clk t c rt req s w =
     (let q = sent_request clk (mark t r0) req;
          v = revalidate clk c q (mark t r0) (fst (rt q w)) s
      in (fst v, snd v, snd (rt q w)))"
  using assms lookup_cached_SomeD [OF assms(1)]
  by (auto simp: RoundTripRFC2616_def servable_def sent_request_def Let_def split: prod.split)

lemma RFC_only_if_cached:
  assumes "newGatewayTimeoutResponse req = Some resp"
    and "\<forall>r. lookup_cached c s req \<noteq> Cached r"
    and "has_directive (parseCacheControl (ReqHeader req)) ''only-if-cached''"
  shows "RoundTripRFC2616 clk t c rt req s w =
     (let f = finish c (cacheKey req) req resp (invalidate c s req) in (Inr (fst f), snd f, w))"
  using assms by (auto simp: RoundTripRFC2616_def Let_def split: cached_result.split prod.split)

lemma RFC_miss:
  assumes "\<forall>r. lookup_cached c s req \<noteq> Cached r"
    and "\<not> has_directive (parseCacheControl (ReqHeader req)) ''only-if-cached''"
  shows "RoundTripRFC2616 clk t c rt req s w =
     (case fst (rt req w) of
        Inl err \<Rightarrow> (Inl (TransportErr err), invalidate c s req, snd (rt req w))
      | Inr resp \<Rightarrow>
          (let f = finish c (cacheKey req) req resp (invalidate c s req)
           in (Inr (fst f), snd f, snd (rt req w))))"
  using assms
  by (auto simp: RoundTripRFC2616_def Let_def split: cached_result.split prod.split sum.split)

lemma finish_result:
  "finish c key req r s = ((resp, p), s') \<Longrightarrow>
   p \<noteq> None \<Longrightarrow> p = Some (key, resp) \<and> Method req = ''GET'' \<and> cacheable req
     \<and> canStore (parseCacheControl (ReqHeader req)) (parseCacheControl (Header r))
     \<and> resp = record_vary req r \<and> s' = s"
  by (auto simp: finish_def Let_def split: if_splits prod.splits)

lemma finish_refused:
  "\<not> cacheable req \<or> \<not> canStore (parseCacheControl (ReqHeader req)) (parseCacheControl (Header r)) \<Longrightarrow>
   finish c key req r s = ((r, None), Delete c s key)"
  by (auto simp: finish_def)

section \<open>Which requests reach the network\<close>

text \<open>A network that records the requests it is asked.\<close>

definition logged :: "(http_request \<Rightarrow> 'e + http_response) \<Rightarrow> ('e, http_request list) round_tripper" where
  "logged answer req log = (answer req, log @ [req])"

definition requests_sent :: "timer \<Rightarrow> transport \<Rightarrow> cached_result \<Rightarrow> http_request \<Rightarrow> http_request list" where
  "requests_sent clk t cached req =
     (case cached of
        Cached r0 \<Rightarrow>
          (if Policy t = Dummy then []
           else if \<not> varyMatches (mark t r0) req then [req]
           else case getFreshness clk (Header (mark t r0)) (ReqHeader req) of
               fresh \<Rightarrow> [] | stale \<Rightarrow> [add_validators (mark t r0) req] | transparent \<Rightarrow> [req])
      | _ \<Rightarrow> if Policy t = RFC2616 \<and> has_directive (parseCacheControl (ReqHeader req)) ''only-if-cached''
             then [] else [req])"

text \<open>C8: the network is asked at most once per request, and exactly as follows: not at all for a
  Dummy hit, for a fresh matching entry and for an only-if-cached miss; with validators added
  for a stale matching entry; with the caller's request in every other case.\<close>
theorem round_trip_requests:
  "snd (snd (RoundTrip clk t c (logged answer) req s log)) =
     log @ requests_sent clk t (lookup_cached c s req) req"
proof (cases "Policy t")
  case Dummy
  then show ?thesis
    by (auto simp: RoundTrip_def RoundTripDummy_def requests_sent_def logged_def Let_def
        split: cached_result.split sum.split prod.split)
next
  case RFC2616
  then show ?thesis
    by (auto simp: RoundTrip_def RoundTripRFC2616_def requests_sent_def logged_def Let_def
        split: cached_result.split sum.split prod.split option.split freshness.split)
qed

text \<open>NewGatewayTimeoutResponse parses, so the transport never panics.\<close>
theorem round_trip_never_panics:
  "fst (RoundTrip clk t c rt req s w) \<noteq> Inl PanicGateway"
proof -
  have "fst (RoundTripDummy t c rt req s w) \<noteq> Inl PanicGateway"
    by (simp add: RoundTripDummy_def Let_def split: cached_result.split sum.split prod.split)
  moreover have "fst (RoundTripRFC2616 clk t c rt req s w) \<noteq> Inl PanicGateway"
  proof (cases "\<exists>r0. lookup_cached c s req = Cached r0")
    case True
    then obtain r0 where hit: "lookup_cached c s req = Cached r0" by blast
    obtain ans w' where "rt (sent_request clk (mark t r0) req) w = (ans, w')" by force
    with hit show ?thesis
      by (cases "servable clk (mark t r0) req")
        (simp_all add: RFC_fresh RFC_revalidate Let_def revalidate_no_panic)
  next
    case False
    obtain ans w' resp where "rt req w = (ans, w')" "newGatewayTimeoutResponse req = Some resp"
      using GatewayTimeout_some by (metis surj_pair)
    with False show ?thesis
      by (cases "has_directive (parseCacheControl (ReqHeader req)) ''only-if-cached''")
        (auto simp: RFC_only_if_cached RFC_miss Let_def split: sum.split)
  qed
  ultimately show ?thesis by (simp add: RoundTrip_def)
qed

section \<open>What a request leaves in the cache\<close>

text \<open>C6: Over every cache that keeps the contract of the \<open>Cache\<close> interface, under both policies and whatever
  the network answers, a request changes at most the entries for its own URL: the call of \<open>RoundTrip\<close> leaves
  every entry under another key than that of the request and its URL as it is, and so do all reads of the
  body of the response it returns, which store it later, in whatever state the cache is then.\<close>

theorem round_trip_frame:
  assumes "caching c slot" and "RoundTrip clk t c rt req s w = (result, s', w')"
    and "slot k \<noteq> slot (cacheKey req)" and "slot k \<noteq> slot (URLString (URL req))"
  shows "Get c s' k = Get c s k
    \<and> (case result of Inr (resp, Some p) \<Rightarrow> \<forall>n reads later. Get c (snd (snd (read_n n c p reads later))) k = Get c later k
       | _ \<Rightarrow> True)"
proof
  show "Get c s' k = Get c s k"
    using caching.RoundTrip_other [OF assms(1,3), of clk t rt s w] assms(2) by simp
  have "Get c (snd (snd (read_n n c p reads later))) k = Get c later k" if "result = Inr (resp, Some p)"
    for resp p n reads later
    using caching.read_n_other [OF assms(1)] caching.RoundTrip_key [OF assms(1) assms(2) [unfolded that]] assms(3)
    by metis
  then show "case result of Inr (resp, Some p) \<Rightarrow> \<forall>n reads later. Get c (snd (snd (read_n n c p reads later))) k = Get c later k
       | _ \<Rightarrow> True"
    by (auto split: sum.split option.split)
qed

theorem round_trip_frame_witness:
  "\<exists>result s' w'. RoundTrip (fakeClock 0) NewTransport memory_impl
      (logged (\<lambda>q. Inr (mk_response ''200 OK'' 200 [] ''x'') :: string + http_response))
      (mk_request ''HEAD'' ''a'' ''/'' []) (memory_Set memory_New ''http://b/'' ''y'') [] = (result, s', w')
    \<and> memory_Get s' ''http://b/'' = (''y'', True)"
proof -
  obtain result s' w' where run: "RoundTrip (fakeClock 0) NewTransport memory_impl
      (logged (\<lambda>q. Inr (mk_response ''200 OK'' 200 [] ''x'') :: string + http_response))
      (mk_request ''HEAD'' ''a'' ''/'' []) (memory_Set memory_New ''http://b/'' ''y'') [] = (result, s', w')"
    by (metis surj_pair)
  from round_trip_frame [OF mc.caching_axioms run, of "''http://b/''"] run show ?thesis
    by (auto simp: cacheKey_def mk_request_def mem.get_put_same)
qed

text \<open>A request with another method than GET never touches the cached GET response of the
  same URL: its own key has the method in front, so the invalidation of unsafe requests
  deletes a different entry.\<close>
theorem unsafe_requests_keep_GET_entry:
  assumes "Method req \<noteq> ''GET''"
  shows "memory_Get (fst (snd (RoundTrip clk t memory_impl rt req s w))) (URLString (URL req)) =
    memory_Get s (URLString (URL req))"
  using mc.RoundTrip_other [OF cacheKey_other_method [OF assms, symmetric]] by simp

theorem unsafe_requests_keep_GET_entry_witness:
  "memory_Get (fst (snd (RoundTrip (fakeClock 0) NewTransport memory_impl
      (logged (\<lambda>q. Inr (mk_response ''200 OK'' 200 [] ''x'') :: string + http_response))
      (mk_request ''POST'' ''a'' ''/'' []) (memory_Set memory_New ''http://a/'' ''old'') []))) ''http://a/''
   = (''old'', True)"
  using unsafe_requests_keep_GET_entry [of "mk_request ''POST'' ''a'' ''/'' []",
    where rt = "logged (\<lambda>q. Inr (mk_response ''200 OK'' 200 [] ''x'') :: string + http_response)" and w = "[]"]
  by (simp add: mk_request_def mem.get_put_same)

context caching
begin

lemma finish_no_store:
  "has_directive (parseCacheControl (ReqHeader req)) ''no-store'' \<or>
   has_directive (parseCacheControl (Header r)) ''no-store'' \<Longrightarrow>
   finish c key req r s = ((r, None), Delete c s key)"
  by (auto simp: finish_def canStore_def)

lemma revalidate_request_no_store:
  assumes "has_directive (parseCacheControl (ReqHeader req)) ''no-store''"
    and "revalidate clk c req r ans s = (result, s')"
  shows "(\<forall>resp p. result = Inr (resp, p) \<longrightarrow> p = None) \<and>
    (s' = s \<or> \<not> snd (Get c s' (cacheKey req)))"
  using assms(2)
  by (auto simp: revalidate_def Let_def finish_no_store assms(1) get_del_same split: sum.splits if_splits)

lemma revalidate_response_no_store:
  assumes "\<And>r. ans = Inr r \<Longrightarrow> StatusCode r \<noteq> 304 \<and> has_directive (parseCacheControl (Header r)) ''no-store''"
    and "revalidate clk c req r ans s = (result, s')"
  shows "(\<forall>resp p. result = Inr (resp, p) \<longrightarrow> p = None) \<and>
    (s' = s \<or> \<not> snd (Get c s' (cacheKey req)))"
  using assms
  by (auto simp: revalidate_def Let_def finish_no_store get_del_same split: sum.splits if_splits)

lemma invalidate_gone: "invalidate c s req = s \<or> \<not> snd (Get c (invalidate c s req) (cacheKey req))"
  by (simp add: invalidate_def get_del_same)

lemma no_store_request:
  assumes "wf_map (ReqHeader req)"
    and ns: "has_directive (parseCacheControl (ReqHeader req)) ''no-store''"
    and run: "RoundTripRFC2616 clk t c rt req s w = (result, s', w')"
  shows "(\<forall>resp p. result = Inr (resp, p) \<longrightarrow> p = None) \<and>
    (s' = s \<or> \<not> snd (Get c s' (cacheKey req)))"
proof (cases "\<exists>r0. lookup_cached c s req = Cached r0")
  case True
  then obtain r0 where hit: "lookup_cached c s req = Cached r0" by blast
  let ?q = "sent_request clk (mark t r0) req"
  obtain ans w1 where rt: "rt ?q w = (ans, w1)" by force
  obtain res s1 where rv: "revalidate clk c ?q (mark t r0) ans s = (res, s1)" by force
  have "has_directive (parseCacheControl (ReqHeader ?q)) ''no-store''" using ns assms(1) by simp
  from revalidate_request_no_store [OF this rv] show ?thesis
    using run RFC_fresh [OF hit, of clk t rt w] RFC_revalidate [OF hit, of clk t rt w] rv
    by (cases "servable clk (mark t r0) req") (auto simp: Let_def rt)
next
  case False
  obtain ans w1 where rt: "rt req w = (ans, w1)" by force
  obtain resp where gt: "newGatewayTimeoutResponse req = Some resp" using GatewayTimeout_some by metis
  show ?thesis
    using False run RFC_only_if_cached [OF gt, of c s clk t rt w] RFC_miss [of c s req clk t rt w]
      invalidate_gone [of s req]
    by (cases "has_directive (parseCacheControl (ReqHeader req)) ''only-if-cached''")
      (auto simp: Let_def finish_no_store ns get_del_same rt split: sum.splits)
qed

lemma no_store_response:
  assumes ans: "\<And>q w r. fst (rt q w) = Inr r \<Longrightarrow>
      StatusCode r \<noteq> 304 \<and> has_directive (parseCacheControl (Header r)) ''no-store''"
    and online: "\<not> has_directive (parseCacheControl (ReqHeader req)) ''only-if-cached''"
    and run: "RoundTripRFC2616 clk t c rt req s w = (result, s', w')"
  shows "(\<forall>resp p. result = Inr (resp, p) \<longrightarrow> p = None) \<and>
    (s' = s \<or> \<not> snd (Get c s' (cacheKey req)))"
proof (cases "\<exists>r0. lookup_cached c s req = Cached r0")
  case True
  then obtain r0 where hit: "lookup_cached c s req = Cached r0" by blast
  let ?q = "sent_request clk (mark t r0) req"
  obtain a w1 where rt: "rt ?q w = (a, w1)" by force
  obtain res s1 where rv: "revalidate clk c ?q (mark t r0) a s = (res, s1)" by force
  have "a = Inr r \<Longrightarrow> StatusCode r \<noteq> 304 \<and> has_directive (parseCacheControl (Header r)) ''no-store''" for r
    using ans [of ?q w r] rt by simp
  from revalidate_response_no_store [OF this rv] show ?thesis
    using run RFC_fresh [OF hit, of clk t rt w] RFC_revalidate [OF hit, of clk t rt w] rv
    by (cases "servable clk (mark t r0) req") (auto simp: Let_def rt)
next
  case False
  obtain a w1 where rt: "rt req w = (a, w1)" by force
  then have "a = Inr r \<Longrightarrow> has_directive (parseCacheControl (Header r)) ''no-store''" for r
    using ans [of req w r] by simp
  then show ?thesis
    using False run RFC_miss [of c s req clk t rt w] online invalidate_gone [of s req]
    by (auto simp: Let_def finish_no_store get_del_same rt split: sum.splits)
qed

end

text \<open>No-store in a request is honoured, over every cache that keeps the contract of the Cache
  interface: no returned body is one that will be stored on EOF, and afterwards either
  the cache is as before or it holds no entry for the request.\<close>
theorem no_store_request_not_stored:
  assumes "caching c slot" and "wf_map (ReqHeader req)"
    and "has_directive (parseCacheControl (ReqHeader req)) ''no-store''"
    and "RoundTripRFC2616 clk t c rt req s w = (result, s', w')"
  shows "(\<forall>resp p. result = Inr (resp, p) \<longrightarrow> p = None) \<and>
    (s' = s \<or> \<not> snd (Get c s' (cacheKey req)))"
  by (rule caching.no_store_request [OF assms])

theorem no_store_request_not_stored_witness:
  "\<exists>result s' w'. RoundTripRFC2616 (fakeClock 0) NewTransport memory_impl
      (logged (\<lambda>q. Inr (mk_response ''200 OK'' 200 [] ''x'') :: string + http_response))
      (mk_request ''GET'' ''a'' ''/'' [(''Cache-Control'', [''no-store''])]) memory_New [] = (result, s', w')
    \<and> (s' = memory_New \<or> \<not> snd (memory_Get s' ''http://a/''))"
proof -
  let ?q = "mk_request ''GET'' ''a'' ''/'' [(''Cache-Control'', [''no-store''])]"
  let ?run = "RoundTripRFC2616 (fakeClock 0) NewTransport memory_impl
      (logged (\<lambda>q. Inr (mk_response ''200 OK'' 200 [] ''x'') :: string + http_response)) ?q memory_New []"
  obtain result s' w' where run: "?run = (result, s', w')" by (metis surj_pair)
  have "has_directive (parseCacheControl (ReqHeader ?q)) ''no-store''" by code_simp
  moreover have "wf_map (ReqHeader ?q)" by (simp add: mk_request_def wf_map_def)
  moreover have "cacheKey ?q = ''http://a/''" by (simp add: mk_request_def cacheKey_def)
  ultimately show ?thesis
    using no_store_request_not_stored [OF mc.caching_axioms _ _ run] run by simp
qed

text \<open>C7: no-store in a response is honoured as well, when the request may use the network and the
  response is not a 304.\<close>
theorem no_store_response_not_stored:
  assumes "caching c slot"
    and "\<And>q w r. fst (rt q w) = Inr r \<Longrightarrow>
      StatusCode r \<noteq> 304 \<and> has_directive (parseCacheControl (Header r)) ''no-store''"
    and "\<not> has_directive (parseCacheControl (ReqHeader req)) ''only-if-cached''"
    and "RoundTripRFC2616 clk t c rt req s w = (result, s', w')"
  shows "(\<forall>resp p. result = Inr (resp, p) \<longrightarrow> p = None) \<and>
    (s' = s \<or> \<not> snd (Get c s' (cacheKey req)))"
  by (rule caching.no_store_response [OF assms])

theorem no_store_response_not_stored_witness:
  "\<exists>result s' w'. RoundTripRFC2616 (fakeClock 0) NewTransport memory_impl
      (logged (\<lambda>q. Inr (mk_response ''200 OK'' 200 [(''Cache-Control'', [''no-store''])] ''x'') :: string + http_response))
      (mk_request ''GET'' ''a'' ''/'' []) memory_New [] = (result, s', w')
    \<and> (s' = memory_New \<or> \<not> snd (memory_Get s' ''http://a/''))"
proof -
  let ?q = "mk_request ''GET'' ''a'' ''/'' []"
  let ?r = "mk_response ''200 OK'' 200 [(''Cache-Control'', [''no-store''])] ''x''"
  let ?rt = "logged (\<lambda>q. Inr ?r :: string + http_response)"
  obtain result s' w' where
    run: "RoundTripRFC2616 (fakeClock 0) NewTransport memory_impl ?rt ?q memory_New [] = (result, s', w')"
    by (metis surj_pair)
  have "has_directive (parseCacheControl (Header ?r)) ''no-store''" by code_simp
  then have "fst (?rt q w) = Inr r \<Longrightarrow>
      StatusCode r \<noteq> 304 \<and> has_directive (parseCacheControl (Header r)) ''no-store''" for q w r
    by (auto simp: logged_def mk_response_def)
  moreover have "\<not> has_directive (parseCacheControl (ReqHeader ?q)) ''only-if-cached''" by code_simp
  moreover have "cacheKey ?q = ''http://a/''" by (simp add: mk_request_def cacheKey_def)
  ultimately show ?thesis
    using no_store_response_not_stored [OF mc.caching_axioms _ _ run] run by simp
qed

section \<open>Revalidation\<close>

text \<open>The request sent for a stale entry is the caller's with If-None-Match set to the entry's
  ETag and If-Modified-Since set to its Last-Modified. A validator of the caller's own is
  replaced: the guard looks at the request headers Etag and Last-Modified.\<close>
theorem validators_sent:
  assumes "wf_map (ReqHeader req)"
  shows "header_get (ReqHeader (add_validators r req)) k =
    (if CanonicalHeaderKey k = ''If-None-Match'' \<and> header_get (Header r) ''etag'' \<noteq> []
        \<and> header_get (ReqHeader req) ''etag'' = []
     then header_get (Header r) ''etag''
     else if CanonicalHeaderKey k = ''If-Modified-Since'' \<and> header_get (Header r) ''last-modified'' \<noteq> []
        \<and> header_get (ReqHeader req) ''last-modified'' = []
     then header_get (Header r) ''last-modified''
     else header_get (ReqHeader req) k)"
  using cloneRequest_get [OF assms] by (auto simp: add_validators_def Let_def canon_simps)

theorem validators_sent_witness:
  "header_get (ReqHeader (add_validators (mk_response ''200 OK'' 200 [(''Etag'', [''B''])] [])
      (mk_request ''GET'' ''a'' ''/'' [(''If-None-Match'', [''A''])]))) ''If-None-Match'' = ''B''"
proof -
  have "CanonicalHeaderKey ''If-None-Match'' = ''If-None-Match''" by code_simp
  then show ?thesis
    using validators_sent [of "mk_request ''GET'' ''a'' ''/'' [(''If-None-Match'', [''A''])]"
      "mk_response ''200 OK'' 200 [(''Etag'', [''B''])] []" "''If-None-Match''"]
    by (simp add: mk_request_def mk_response_def wf_map_def header_get_def header_values_def canon_simps)
qed

text \<open>C9: a 304 answer to a GET revalidation gives the cached response: its body and status, every
  end-to-end header of the 304 taken over, every other header kept; and it is stored again
  when its body is read, unless no-store forbids it.\<close>
theorem not_modified_refreshes:
  assumes "lookup_cached c s req = Cached r0" and "\<not> servable clk (mark t r0) req"
    and "rt (sent_request clk (mark t r0) req) w = (Inr resp, w')" and "StatusCode resp = 304"
    and "Method req = ''GET''" and "wf_map (ReqHeader req)"
  shows "\<exists>out p s'. RoundTripRFC2616 clk t c rt req s w = (Inr (out, p), s', w')
    \<and> Body out = Body r0 \<and> StatusCode out = StatusCode r0
    \<and> (\<forall>k. take 9 k \<noteq> ''X-Varied-'' \<longrightarrow>
         header_values (Header out) k =
           (if k \<in> set (getEndToEndHeaders (Header resp)) then header_values (Header resp) k
            else header_values (Header (mark t r0)) k))
    \<and> (p = Some (cacheKey req, out) \<and> s' = s \<or> p = None \<and> s' = Delete c s (cacheKey req))"
proof -
  let ?q = "sent_request clk (mark t r0) req"
  let ?u = "update_from_304 (mark t r0) resp"
  have cq: "cacheable ?q" using lookup_cached_SomeD [OF assms(1)] assms(6) by simp
  have u: "header_values (Header ?u) k =
      (if k \<in> set (getEndToEndHeaders (Header resp)) then header_values (Header resp) k
       else header_values (Header (mark t r0)) k)" for k
    by (simp add: update_from_304_def header_values_def foldl_update_keys)
  have sel: "Body ?u = Body r0" "StatusCode ?u = StatusCode r0"
    by (simp_all add: update_from_304_def)
  obtain out p s' where f: "finish c (cacheKey ?q) ?q ?u s = ((out, p), s')" by (metis surj_pair)
  then have run: "RoundTripRFC2616 clk t c rt req s w = (Inr (out, p), s', w')"
    using RFC_revalidate [OF assms(1,2), of rt w] assms(3,4,5)
    by (simp add: Let_def revalidate_def)
  have "out = record_vary ?q ?u \<and> p = Some (cacheKey req, out) \<and> s' = s
      \<or> out = ?u \<and> p = None \<and> s' = Delete c s (cacheKey req)"
    using f assms(5) cq by (auto simp: finish_def Let_def split: if_splits)
  moreover have "header_values (Header (record_vary ?q ?u)) k = header_values (Header ?u) k"
    if "take 9 k \<noteq> ''X-Varied-''" for k
    using that by (auto simp: record_vary_values)
  ultimately have "Body out = Body r0 \<and> StatusCode out = StatusCode r0
    \<and> (\<forall>k. take 9 k \<noteq> ''X-Varied-'' \<longrightarrow>
         header_values (Header out) k =
           (if k \<in> set (getEndToEndHeaders (Header resp)) then header_values (Header resp) k
            else header_values (Header (mark t r0)) k))
    \<and> (p = Some (cacheKey req, out) \<and> s' = s \<or> p = None \<and> s' = Delete c s (cacheKey req))"
    by (auto simp: u sel)
  with run show ?thesis by blast
qed

text \<open>C10: when revalidation fails (a transport error or a 5xx answer), a GET whose entry may be used
  on error gets the cached response and the cache is left alone. Otherwise the entry is
  deleted, and the caller gets the error, or the 5xx answer treated as any new response.\<close>
theorem failed_revalidation:
  assumes "lookup_cached c s req = Cached r0" and "\<not> servable clk (mark t r0) req"
    and "rt (sent_request clk (mark t r0) req) w = (ans, w')"
    and "\<forall>resp. ans = Inr resp \<longrightarrow> 500 \<le> StatusCode resp" and "wf_map (ReqHeader req)"
  shows "RoundTripRFC2616 clk t c rt req s w =
    (if Method req = ''GET'' \<and> canStaleOnError clk (Header (mark t r0)) (ReqHeader req)
     then (Inr (mark t r0, None), s, w')
     else (case ans of
         Inl err \<Rightarrow> (Inl (TransportErr err), Delete c s (cacheKey req), w')
       | Inr resp \<Rightarrow>
           (let f = finish c (cacheKey req) (sent_request clk (mark t r0) req) resp
                      (Delete c s (cacheKey req))
            in (Inr (fst f), snd f, w'))))"
proof -
  have "canStaleOnError clk h (ReqHeader (sent_request clk (mark t r0) req)) =
      canStaleOnError clk h (ReqHeader req)" for h
    by (simp only: canStaleOnError_def sent_request_header(2) [OF assms(5)])
  then show ?thesis
    using RFC_revalidate [OF assms(1,2), of rt w] assms(3,4)
    by (auto simp: Let_def revalidate_def split: sum.split prod.split)
qed

text \<open>A request with only-if-cached that misses never uses the network and gets a 504. A GET
  that may be stored hands the 504 out as a body to be stored under its key on EOF.\<close>
theorem only_if_cached_miss:
  assumes "\<forall>r. lookup_cached c s req \<noteq> Cached r"
    and "has_directive (parseCacheControl (ReqHeader req)) ''only-if-cached''"
  shows "\<exists>out p s'. RoundTripRFC2616 clk t c rt req s w = (Inr (out, p), s', w)
    \<and> StatusCode out = 504 \<and> Body out = []
    \<and> (Method req = ''GET'' \<and> cacheable req
         \<and> \<not> has_directive (parseCacheControl (ReqHeader req)) ''no-store''
       \<longrightarrow> p = Some (cacheKey req, out) \<and> s' = s)"
proof -
  obtain resp where resp: "newGatewayTimeoutResponse req = Some resp" "StatusCode resp = 504"
    "Body resp = []" "Header resp = []" "\<not> BodyErr resp"
    using GatewayTimeout_some by metis
  obtain out p s' where
    f: "finish c (cacheKey req) req resp (invalidate c s req) = ((out, p), s')" by (metis surj_pair)
  then have "StatusCode out = 504" "Body out = []" using resp
    by (auto simp: finish_def dump_to_cache_def Let_def split: if_splits option.splits)
  moreover have "Method req = ''GET'' \<and> cacheable req
      \<and> \<not> has_directive (parseCacheControl (ReqHeader req)) ''no-store''
    \<longrightarrow> p = Some (cacheKey req, out) \<and> s' = s"
    using f resp(4) parseCacheControl_absent [of "[]"]
    by (auto simp: finish_def canStore_def Let_def header_get_def header_values_def)
  ultimately show ?thesis using RFC_only_if_cached [OF resp(1) assms, of clk t rt w] f by (auto simp: Let_def)
qed

text \<open>A stored response, and a request for it, to instantiate the three theorems.\<close>

definition example_store :: memory_cache where
  "example_store = memory_Set memory_New ''http://a/''
     (''HTTP/1.1 200 OK'' @ CRLF @ ''Etag: B'' @ CRLF @ ''Content-Length: 2'' @ CRLF @ CRLF @ ''hi'')"

definition example_response :: http_response where
  "example_response = mk_response ''200 OK'' 200
     [(''Etag'', [''B'']), (''Content-Length'', [''2''])] ''hi''"

definition example_request :: http_request where
  "example_request = mk_request ''GET'' ''a'' ''/'' []"

lemma example_hit: "lookup_cached memory_impl example_store example_request = Cached example_response"
  by code_simp

lemma example_stale: "\<not> servable (fakeClock 0) (mark NewTransport example_response) example_request"
  by code_simp

lemma example_facts: "Method example_request = ''GET''" "wf_map (ReqHeader example_request)"
  "cacheKey example_request = ''http://a/''"
  by (simp_all add: example_request_def mk_request_def wf_map_def cacheKey_def)

theorem not_modified_refreshes_witness:
  "\<exists>out p s' w'. RoundTripRFC2616 (fakeClock 0) NewTransport memory_impl
      (logged (\<lambda>q. Inr (mk_response ''304 Not Modified'' 304 [] []) :: string + http_response))
      example_request example_store [] = (Inr (out, p), s', w') \<and> Body out = ''hi''"
proof -
  have "logged (\<lambda>q. Inr (mk_response ''304 Not Modified'' 304 [] []) :: string + http_response)
      (sent_request (fakeClock 0) (mark NewTransport example_response) example_request) [] =
    (Inr (mk_response ''304 Not Modified'' 304 [] []),
     [sent_request (fakeClock 0) (mark NewTransport example_response) example_request])"
    by (simp add: logged_def)
  with not_modified_refreshes [OF example_hit example_stale _ _ example_facts(1,2), of
      "logged (\<lambda>q. Inr (mk_response ''304 Not Modified'' 304 [] []) :: string + http_response)" "[]"]
  show ?thesis by (force simp: mk_response_def example_response_def)
qed

theorem failed_revalidation_witness:
  "RoundTripRFC2616 (fakeClock 0) NewTransport memory_impl
      (logged (\<lambda>q. Inl ''timeout'' :: string + http_response)) example_request example_store [] =
    (Inl (TransportErr ''timeout''), memory_Delete example_store ''http://a/'',
     [sent_request (fakeClock 0) (mark NewTransport example_response) example_request])"
proof -
  have "logged (\<lambda>q. Inl ''timeout'' :: string + http_response)
      (sent_request (fakeClock 0) (mark NewTransport example_response) example_request) [] =
    (Inl ''timeout'', [sent_request (fakeClock 0) (mark NewTransport example_response) example_request])"
    by (simp add: logged_def)
  moreover have "\<not> canStaleOnError (fakeClock 0) (Header (mark NewTransport example_response))
      (ReqHeader example_request)"
    by code_simp
  ultimately show ?thesis
    using failed_revalidation [OF example_hit example_stale _ _ example_facts(2),
      of "logged (\<lambda>q. Inl ''timeout'' :: string + http_response)" "[]"]
    by (simp add: example_facts(3))
qed

theorem only_if_cached_miss_witness:
  "\<exists>out p s'. RoundTripRFC2616 (fakeClock 0) NewTransport memory_impl
      (logged (\<lambda>q. Inl ''offline'' :: string + http_response))
      (mk_request ''GET'' ''a'' ''/'' [(''Cache-Control'', [''only-if-cached''])]) memory_New [] =
        (Inr (out, p), s', []) \<and> StatusCode out = 504"
proof -
  let ?q = "mk_request ''GET'' ''a'' ''/'' [(''Cache-Control'', [''only-if-cached''])]"
  have "lookup_cached memory_impl memory_New ?q = NotCached" by code_simp
  moreover have "has_directive (parseCacheControl (ReqHeader ?q)) ''only-if-cached''" by code_simp
  ultimately show ?thesis
    using only_if_cached_miss [of memory_impl memory_New ?q "fakeClock 0" NewTransport
      "logged (\<lambda>q. Inl ''offline'' :: string + http_response)" "[]"] by auto
qed

section \<open>Replay\<close>

lemma getFreshness_mark [simp]:
  "getFreshness clk (Header (mark t r)) q = getFreshness clk (Header r) q"
  by (rule getFreshness_cong) (auto simp: header_get_mark canon_simps XFromCache_def)

lemma getFreshness_record_vary [simp]:
  "getFreshness clk (Header (record_vary req r)) q = getFreshness clk (Header r) q"
  by (rule getFreshness_cong) (auto simp: record_vary_get canon_simps)

lemma varyMatches_mark [simp]: "varyMatches (mark t r) req = varyMatches r req"
proof -
  have "headerAllCommaSepValues (Header (mark t r)) ''vary'' = headerAllCommaSepValues (Header r) ''vary''"
    by (rule headerAllCommaSepValues_cong) (simp add: mark_def canon_simps XFromCache_def)
  moreover have "header_get (Header (mark t r)) (''X-Varied-'' @ CanonicalHeaderKey h) =
      header_get (Header r) (''X-Varied-'' @ CanonicalHeaderKey h)" for h
    using canonical_varied [of "CanonicalHeaderKey h"]
    by (simp add: header_get_mark canon_simps XFromCache_def)
  ultimately show ?thesis by (simp add: varyMatches_def varyMatches_all_iff)
qed

text \<open>The header fields the transport decides on come back from the cache as they were.\<close>

lemma same_response_get:
  assumes "same_response r r'" and "CanonicalHeaderKey k \<notin> set framing_headers"
  shows "header_get (Header r') k = header_get (Header r) k"
    "header_values (Header r') (CanonicalHeaderKey k) = header_values (Header r) (CanonicalHeaderKey k)"
  using assms by (simp_all add: same_response_def header_get_def header_values_def)

lemma same_response_freshness:
  assumes "same_response r r'"
  shows "getFreshness clk (Header r') q = getFreshness clk (Header r) q"
  using same_response_get(1) [OF assms]
  by (intro getFreshness_cong) (auto simp: framing_headers_def excluded_headers_def canon_simps)

lemma same_response_vary:
  assumes "same_response r r'"
  shows "varyMatches r' req = varyMatches r req"
proof -
  have "headerAllCommaSepValues (Header r') ''vary'' = headerAllCommaSepValues (Header r) ''vary''"
    using same_response_get(2) [OF assms, of "''vary''"]
    by (intro headerAllCommaSepValues_cong) (simp add: framing_headers_def excluded_headers_def canon_simps)
  moreover have "header_get (Header r') (''X-Varied-'' @ CanonicalHeaderKey h) =
      header_get (Header r) (''X-Varied-'' @ CanonicalHeaderKey h)" for h
    using canonical_varied [of "CanonicalHeaderKey h"]
    by (intro same_response_get(1) [OF assms]) (simp add: framing_headers_def excluded_headers_def)
  ultimately show ?thesis by (simp add: varyMatches_def varyMatches_all_iff)
qed

text \<open>A response decorated for a request matches that request, unless the server itself sends
  X-Varied headers.\<close>

lemma record_vary_matches:
  assumes "\<And>h. header_get (Header r) (''X-Varied-'' @ h) = []"
  shows "varyMatches (record_vary req r) req"
proof -
  have "header_get (ReqHeader req) h =
      header_get (Header (record_vary req r)) (''X-Varied-'' @ CanonicalHeaderKey h)"
    if h: "h \<in> set (headerAllCommaSepValues (Header r) ''vary'')" for h
  proof -
    have none: "header_get (Header r) (''X-Varied-'' @ CanonicalHeaderKey h) = []" by (rule assms)
    have key: "CanonicalHeaderKey (''X-Varied-'' @ CanonicalHeaderKey h) = ''X-Varied-'' @ CanonicalHeaderKey h"
      using canonical_varied [of "CanonicalHeaderKey h"] by simp
    show ?thesis
    proof (cases "header_get (ReqHeader req) h = []")
      case False
      with h show ?thesis
        unfolding header_get_def [of "Header (record_vary req r)"] key record_vary_values by auto
    next
      case True
      have "header_get (ReqHeader req) h' = []" if "CanonicalHeaderKey h' = CanonicalHeaderKey h" for h'
        using True that by (metis header_get_canonical)
      then have "header_values (Header (record_vary req r)) (''X-Varied-'' @ CanonicalHeaderKey h) =
          header_values (Header r) (''X-Varied-'' @ CanonicalHeaderKey h)"
        unfolding record_vary_values by auto
      with none True key show ?thesis by (simp add: header_get_def)
    qed
  qed
  then show ?thesis by (simp add: varyMatches_def varyMatches_all_iff)
qed

context caching
begin

lemma lookup_after_store:
  assumes "cacheable req" and "key = cacheKey req" and "ReadResponse (Method req) b = Some r"
  shows "lookup_cached c (Set c s key b) req = Cached r"
  using assms by (simp add: lookup_cached_def CachedResponse_def get_put_same Let_def)

lemma lookup_after_dump:
  assumes "wf_response r" and "DumpResponse ''GET'' r = Some b"
    and "cacheable req" and "Method req = ''GET''" and "key = cacheKey req"
  shows "\<exists>r'. lookup_cached c (Set c s key b) req = Cached r' \<and> same_response r r'"
  using dump_read_same [OF assms(1,2)] lookup_after_store [OF assms(3,5)] assms(4) by auto

lemma dummy_replay:
  assumes "Policy t = Dummy" and "cacheable req" and "Method req = ''GET''"
    and "\<forall>r. lookup_cached c s req \<noteq> Cached r"
    and "rt req w = (Inr resp, w')" and "wf_response resp" and "DumpResponse ''GET'' resp = Some b"
    and "cacheable req2" and "Method req2 = ''GET''" and "cacheKey req2 = cacheKey req"
  shows "\<exists>s' r'. RoundTrip clk t c rt req s w = (Inr (resp, None), s', w') \<and> same_response resp r'
    \<and> RoundTrip clk2 t c rt2 req2 s' w2 = (Inr (mark t r', None), s', w2)"
proof -
  let ?s = "Set c s (cacheKey req) b"
  obtain r' where r': "lookup_cached c ?s req2 = Cached r'" "same_response resp r'"
    using lookup_after_dump [OF assms(6,7,8,9), of "cacheKey req"] assms(10) by auto
  have "RoundTrip clk t c rt req s w = (Inr (resp, None), ?s, w')"
    using assms(1-5,7)
    by (auto simp: RoundTrip_def RoundTripDummy_def dump_to_cache_def Let_def split: cached_result.split)
  moreover have "RoundTrip clk2 t c rt2 req2 ?s w2 = (Inr (mark t r', None), ?s, w2)"
    using assms(1,8) r'(1) by (simp add: RoundTrip_def RoundTripDummy_def Let_def)
  ultimately show ?thesis using r'(2) by blast
qed

lemma rfc_replay:
  assumes "cacheable req" and "Method req = ''GET''"
    and "\<forall>r. lookup_cached c s req \<noteq> Cached r"
    and "\<not> has_directive (parseCacheControl (ReqHeader req)) ''only-if-cached''"
    and "rt req w = (Inr resp, w')"
    and "canStore (parseCacheControl (ReqHeader req)) (parseCacheControl (Header resp))"
    and "\<And>h. header_get (Header resp) (''X-Varied-'' @ h) = []"
    and "wf_response (record_vary req resp)" and "\<not> BodyErr resp"
    and "DumpResponse ''GET'' (record_vary req resp) = Some b"
    and "getFreshness clk2 (Header resp) (ReqHeader req) = fresh"
  shows "\<exists>out p r'. RoundTripRFC2616 clk t c rt req s w = (Inr (out, Some p), s, w')
    \<and> same_response out r'
    \<and> RoundTripRFC2616 clk2 t c rt2 req (onEOF c p (Body resp) s) w2 =
        (Inr (mark t r', None), onEOF c p (Body resp) s, w2)"
proof -
  let ?out = "record_vary req resp"
  let ?p = "(cacheKey req, ?out)"
  have run: "RoundTripRFC2616 clk t c rt req s w = (Inr (?out, Some ?p), s, w')"
    using RFC_miss [OF assms(3,4), of clk t rt w] assms(1,2,5,6) by (simp add: finish_def Let_def)
  have "?out\<lparr>Body := Body resp, BodyErr := False\<rparr> = ?out"
    using assms(9) record_vary_sel(3,4) [of req resp] by simp
  then have st: "onEOF c ?p (Body resp) s = Set c s (cacheKey req) b"
    using assms(10) by (simp add: onEOF_def)
  obtain r' where r': "lookup_cached c (Set c s (cacheKey req) b) req = Cached r'" "same_response ?out r'"
    using lookup_after_dump [OF assms(8,10,1,2)] by blast
  have "servable clk2 (mark t r') req"
    using record_vary_matches [OF assms(7), of req] assms(11)
    by (simp add: servable_def same_response_vary [OF r'(2)] same_response_freshness [OF r'(2)])
  from RFC_fresh [OF r'(1) this, of rt2 w2] run st r'(2) show ?thesis
    by (intro exI [of _ ?out] exI [of _ ?p] exI [of _ r']) simp
qed

end

text \<open>With the Dummy policy a GET response that was fetched once is replayed from the cache to
  every later GET of the same URL, with the same status, headers and body and without
  network traffic, whatever Cache-Control says and however much time has passed.\<close>
theorem dummy_policy_replays:
  assumes "caching c slot" and "Policy t = Dummy" and "cacheable req" and "Method req = ''GET''"
    and "\<forall>r. lookup_cached c s req \<noteq> Cached r"
    and "rt req w = (Inr resp, w')" and "wf_response resp" and "DumpResponse ''GET'' resp = Some b"
    and "cacheable req2" and "Method req2 = ''GET''" and "cacheKey req2 = cacheKey req"
  shows "\<exists>s' r'. RoundTrip clk t c rt req s w = (Inr (resp, None), s', w') \<and> same_response resp r'
    \<and> RoundTrip clk2 t c rt2 req2 s' w2 = (Inr (mark t r', None), s', w2)"
  using assms(2-) by (rule caching.dummy_replay [OF assms(1)])

text \<open>C4: with the RFC 2616 policy a GET response whose body was read to the end is served from the
  cache to the same request for as long as it is fresh: the recorded Vary values match, and
  status, headers and body are the ones the first caller got.\<close>
theorem rfc_policy_replays:
  assumes "caching c slot" and "cacheable req" and "Method req = ''GET''"
    and "\<forall>r. lookup_cached c s req \<noteq> Cached r"
    and "\<not> has_directive (parseCacheControl (ReqHeader req)) ''only-if-cached''"
    and "rt req w = (Inr resp, w')"
    and "canStore (parseCacheControl (ReqHeader req)) (parseCacheControl (Header resp))"
    and "\<And>h. header_get (Header resp) (''X-Varied-'' @ h) = []"
    and "wf_response (record_vary req resp)" and "\<not> BodyErr resp"
    and "DumpResponse ''GET'' (record_vary req resp) = Some b"
    and "getFreshness clk2 (Header resp) (ReqHeader req) = fresh"
  shows "\<exists>out p r'. RoundTripRFC2616 clk t c rt req s w = (Inr (out, Some p), s, w')
    \<and> same_response out r'
    \<and> RoundTripRFC2616 clk2 t c rt2 req (onEOF c p (Body resp) s) w2 =
        (Inr (mark t r', None), onEOF c p (Body resp) s, w2)"
  using assms(2-) by (rule caching.rfc_replay [OF assms(1)])

text \<open>A response to instantiate the two theorems with, and its stored form.\<close>

definition example_page :: http_response where
  "example_page = mk_response ''200 OK'' 200
     [(''Date'', [''Tue, 14 Dec 2010 01:01:50 GMT'']), (''Cache-Control'', [''max-age=60'']),
      (''Vary'', [''Accept''])] ''hi''"

definition example_get :: http_request where
  "example_get = mk_request ''GET'' ''a'' ''/'' [(''Accept'', [''text/html''])]"

lemma example_page_facts:
  "lookup_cached memory_impl memory_New example_get = NotCached" "cacheable example_get"
  "wf_response example_page" "wf_response (record_vary example_get example_page)"
  "DumpResponse ''GET'' example_page \<noteq> None"
  "DumpResponse ''GET'' (record_vary example_get example_page) \<noteq> None"
  "\<not> has_directive (parseCacheControl (ReqHeader example_get)) ''only-if-cached''"
  "canStore (parseCacheControl (ReqHeader example_get)) (parseCacheControl (Header example_page))"
  "getFreshness (fakeClock 59000000000) (Header example_page) (ReqHeader example_get) = fresh"
  "\<not> BodyErr example_page" "Method example_get = ''GET''" "Body example_page = ''hi''"
  by code_simp+

lemma example_page_not_varied: "header_get (Header example_page) (''X-Varied-'' @ h) = []"
  by (simp add: header_get_def canonical_varied [simplified] header_values_def example_page_def
      mk_response_def)

theorem dummy_policy_replays_witness:
  "\<exists>s' r'. RoundTrip (fakeClock 0) \<lparr>Policy = Dummy, MarkCachedResponses = True\<rparr> memory_impl
      (logged (\<lambda>q. Inr example_page :: string + http_response)) example_get memory_New [] =
        (Inr (example_page, None), s', [example_get])
    \<and> same_response example_page r'
    \<and> RoundTrip (fakeClock 1) \<lparr>Policy = Dummy, MarkCachedResponses = True\<rparr> memory_impl
        (logged (\<lambda>q. Inl ''offline'' :: string + http_response)) example_get s' [] =
        (Inr (mark \<lparr>Policy = Dummy, MarkCachedResponses = True\<rparr> r', None), s', [])"
proof -
  let ?t = "\<lparr>Policy = Dummy, MarkCachedResponses = True\<rparr>"
  let ?rt = "logged (\<lambda>q. Inr example_page :: string + http_response)"
  have "?rt example_get [] = (Inr example_page, [example_get])" by (simp add: logged_def)
  moreover obtain b where "DumpResponse ''GET'' example_page = Some b"
    using example_page_facts(5) by blast
  ultimately show ?thesis
    using dummy_policy_replays [OF mc.caching_axioms, of ?t example_get memory_New ?rt "[]"
        example_page "[example_get]" b example_get "fakeClock 0" "fakeClock 1"
        "logged (\<lambda>q. Inl ''offline'' :: string + http_response)" "[]"] example_page_facts by auto
qed

theorem rfc_policy_replays_witness:
  "\<exists>out p r' s'. RoundTripRFC2616 (fakeClock 0) NewTransport memory_impl
      (logged (\<lambda>q. Inr example_page :: string + http_response)) example_get memory_New [] =
        (Inr (out, Some p), memory_New, [example_get])
    \<and> same_response out r' \<and> s' = onEOF memory_impl p ''hi'' memory_New
    \<and> RoundTripRFC2616 (fakeClock 59000000000) NewTransport memory_impl
        (logged (\<lambda>q. Inl ''offline'' :: string + http_response)) example_get s' [] =
        (Inr (mark NewTransport r', None), s', [])"
proof -
  let ?rt = "logged (\<lambda>q. Inr example_page :: string + http_response)"
  have "?rt example_get [] = (Inr example_page, [example_get])" by (simp add: logged_def)
  moreover obtain b where "DumpResponse ''GET'' (record_vary example_get example_page) = Some b"
    using example_page_facts(6) by blast
  ultimately show ?thesis
    using rfc_policy_replays [OF mc.caching_axioms, of example_get memory_New ?rt "[]"
        example_page "[example_get]" b "fakeClock 59000000000" "fakeClock 0" NewTransport
        "logged (\<lambda>q. Inl ''offline'' :: string + http_response)" "[]"]
      example_page_facts example_page_not_varied by auto
qed

section \<open>The caching reader\<close>

lemma read_n_without_EOF:
  assumes "n \<le> length (R r)" and "\<forall>x\<in>set (take n (R r)). snd x \<noteq> Some EOF"
  shows "read_n n c p r s =
    (concat (map fst (take n (R r))),
     r\<lparr>R := drop n (R r), buf := buf r @ concat (map fst (take n (R r)))\<rparr>, s)"
  using assms
proof (induction n arbitrary: r)
  case 0
  then show ?case by simp
next
  case (Suc n)
  then obtain b e xs where R: "R r = (b, e) # xs" by (cases "R r") auto
  have "e \<noteq> Some EOF" using Suc.prems(2) by (simp add: R)
  with Suc.IH [of "r\<lparr>R := xs, buf := buf r @ b\<rparr>"] Suc.prems show ?case
    by (simp add: R caching_Read_def Let_def)
qed

lemma read_n_add:
  "read_n (m + n) c p r s =
     (let (a, r1, s1) = read_n m c p r s; (b, r2, s2) = read_n n c p r1 s1 in (a @ b, r2, s2))"
  by (induction m arbitrary: r s) (simp_all add: Let_def split: prod.splits)

lemma read_n_at_EOF:
  "R r = [] \<Longrightarrow> read_n n c p r s = ([], r, ((\<lambda>s. onEOF c p (buf r) s) ^^ n) s)"
proof (induction n arbitrary: s)
  case 0
  then show ?case by simp
next
  case (Suc n)
  have same: "R_update (\<lambda>_. []) r = r" "buf_update (\<lambda>_. buf r) r = r"
    using Suc.prems by (cases r, simp)+
  show ?case
    by (simp add: caching_Read_def Let_def Suc.prems same Suc.IH funpow_swap1)
qed

context caching
begin

lemma onEOF_get:
  "Get c (onEOF c p content s) k =
     (case DumpResponse ''GET'' ((snd p)\<lparr>Body := content, BodyErr := False\<rparr>) of
        None \<Rightarrow> Get c s k
      | Some b \<Rightarrow> if slot k = slot (fst p) then (b, True) else Get c s k)"
  by (simp add: onEOF_def get_put_same get_put_other split: option.split)

lemma onEOF_again: "Get c ((onEOF c p content ^^ Suc n) s) k = Get c (onEOF c p content s) k"
  by (induction n) (auto simp: onEOF_get split: option.split)

lemma reader_drained:
  assumes "R r = map (\<lambda>b. (b, None)) bs @ [(b, Some EOF)]" and "length bs < n"
  shows "\<exists>r' s'. read_n n c p r s = (concat bs @ b, r', s')
    \<and> (\<forall>k. Get c s' k = Get c (onEOF c p (buf r @ concat bs @ b) s) k)"
proof -
  obtain m where n: "n = length bs + (Suc m)" using assms(2) by (metis add_Suc_right less_natE)
  let ?r1 = "r\<lparr>R := [(b, Some EOF)], buf := buf r @ concat bs\<rparr>"
  let ?r2 = "r\<lparr>R := [], buf := buf r @ concat bs @ b\<rparr>"
  have "read_n (length bs) c p r s = (concat bs, ?r1, s)"
    using read_n_without_EOF [of "length bs" r c p s] assms(1) by (simp add: comp_def)
  moreover have "read_n (Suc m) c p ?r1 s =
      (b, ?r2, ((\<lambda>s. onEOF c p (buf ?r2) s) ^^ m) (onEOF c p (buf ?r2) s))"
    using read_n_at_EOF [of ?r2 m c p] by (simp add: caching_Read_def Let_def)
  ultimately have "read_n n c p r s =
      (concat bs @ b, ?r2, ((\<lambda>s. onEOF c p (buf ?r2) s) ^^ Suc m) s)"
    unfolding n read_n_add Let_def by (simp add: funpow_swap1 del: read_n.simps)
  then show ?thesis using onEOF_again [of m p "buf ?r2" s] by (auto simp del: funpow.simps)
qed

end

text \<open>A body that is not read to EOF, because the reader stops early or meets an error, is not
  stored: the cache is as before, and the caller gets exactly the bytes that were read.\<close>
theorem partial_read_stores_nothing:
  assumes "n \<le> length (R r)" and "\<forall>x\<in>set (take n (R r)). snd x \<noteq> Some EOF"
  shows "fst (read_n n c p r s) = concat (map fst (take n (R r)))
    \<and> snd (snd (read_n n c p r s)) = s"
  by (simp add: read_n_without_EOF [OF assms])

theorem partial_read_stores_nothing_witness:
  "read_n 2 memory_impl (''k'', example_page)
     \<lparr>R = [(''h'', None), ([], Some ReadError), (''i'', Some EOF)], buf = []\<rparr> memory_New =
   (''h'', \<lparr>R = [(''i'', Some EOF)], buf = ''h''\<rparr>, memory_New)"
  using partial_read_stores_nothing [of 2
      "\<lparr>R = [(''h'', None), ([], Some ReadError), (''i'', Some EOF)], buf = []\<rparr>" memory_impl
      "(''k'', example_page)" memory_New]
  by (simp add: numeral_2_eq_2 caching_Read_def Let_def)

text \<open>A body read to EOF is stored whole, however the reads cut it into pieces and however
  often the caller reads on after EOF: the caller gets the whole body, and the entry is the
  dump of the response with that body.\<close>
theorem drained_read_stores_body:
  assumes "caching c slot" and "R r = map (\<lambda>b. (b, None)) bs @ [(b, Some EOF)]" and "buf r = []"
    and "length bs < n"
    and "DumpResponse ''GET'' (resp\<lparr>Body := concat bs @ b, BodyErr := False\<rparr>) = Some stored"
  shows "\<exists>r' s'. read_n n c (key, resp) r s = (concat bs @ b, r', s')
    \<and> (\<forall>k. Get c s' k = (if slot k = slot key then (stored, True) else Get c s k))"
  using caching.reader_drained [OF assms(1,2,4), of "(key, resp)" s] assms(3,5)
  by (simp add: caching.onEOF_get [OF assms(1)])

theorem drained_read_stores_body_witness:
  "\<exists>r' s'. read_n 3 memory_impl (''k'', example_page)
     \<lparr>R = [(''h'', None), (''i'', Some EOF)], buf = []\<rparr> memory_New = (''hi'', r', s')
     \<and> snd (memory_Get s' ''k'')"
proof -
  have "example_page\<lparr>Body := concat [''h''] @ ''i'', BodyErr := False\<rparr> = example_page"
    by (simp add: example_page_def mk_response_def)
  moreover obtain b where "DumpResponse ''GET'' example_page = Some b"
    using example_page_facts(5) by blast
  ultimately show ?thesis
    using drained_read_stores_body [OF mc.caching_axioms,
      of "\<lparr>R = [(''h'', None), (''i'', Some EOF)], buf = []\<rparr>" "[''h'']" "''i''" 3 example_page b
        "''k''" memory_New] by auto
qed

end
