(* ===== verification/Client.thy ===== *)
theory Client
  imports Http "HOL-Library.Word"
begin

text \<open>
  The HTTP client of \<open>client/\<close>: requests and responses, reading and decoding a response,
  requests through Chrome, the retry loop of \<open>DoRequest\<close>, the redirect limit, cookies, and
  the rotating proxy.

  What the source calls but does not define is a record of functions, \<open>external\<close>: sending a
  request (\<open>http.Client.Do\<close>), the charset decoders, and a run of Chrome. The state of
  the world they act on is a value of any type. A reader is the bytes it delivers and whether
  it then reports an error instead of EOF.
\<close>

section \<open>Requests and responses\<close>

text \<open>\<open>HTTP\<close> is the embedded \<open>*http.Request\<close>.\<close>

record 'act request =
  HTTP :: http_request
  Meta :: "(string \<times> iface) list"
  Synchronized :: bool
  Rendered :: bool
  Encoding :: string
  Cancelled :: bool
  Actions :: "'act list"
  retryCounter :: int

definition Cancel :: "'act request \<Rightarrow> 'act request" where
  "Cancel r = r\<lparr>Cancelled := True\<rparr>"

text \<open>\<open>http_NewRequest\<close> stands for \<open>http.NewRequest\<close>, which parses and checks the URL.\<close>

definition NewRequest ::
  "(string \<Rightarrow> string \<Rightarrow> string \<Rightarrow> 'e + http_request) \<Rightarrow> string \<Rightarrow> string \<Rightarrow> string \<Rightarrow> 'e + 'act request" where
  "NewRequest http_NewRequest method url body =
     (case http_NewRequest method url body of
        Inl err \<Rightarrow> Inl err
      | Inr req \<Rightarrow> Inr \<lparr>HTTP = req, Meta = [], Synchronized = False, Rendered = False,
                        Encoding = [], Cancelled = False, Actions = [], retryCounter = 0\<rparr>)"

text \<open>\<open>Resp\<close> is the embedded \<open>*http.Response\<close>, \<open>RBody\<close> the field \<open>Body\<close> that shadows its body.\<close>

record ('act, 'doc) response =
  Resp :: http_response
  RBody :: string
  HTMLDoc :: "'doc option"
  Req :: "'act request"

definition IsHTML :: "('act, 'doc) response \<Rightarrow> bool" where
  "IsHTML r =
     (let contentType = header_get (Header (Resp r)) ''Content-Type''
      in list_ex (contains contentType)
           [''text/html'', ''application/xhtml+xml'', ''application/vnd.wap.xhtml+xml''])"

text \<open>\<open>JoinURL\<close>, with \<open>url.Parse\<close> and \<open>URL.ResolveReference\<close> as parameters.\<close>

definition JoinURL ::
  "(string \<Rightarrow> url option) \<Rightarrow> (url \<Rightarrow> url \<Rightarrow> url) \<Rightarrow> ('act, 'doc) response \<Rightarrow> string \<Rightarrow> string" where
  "JoinURL url_Parse ResolveReference r relativeURL =
     (case url_Parse relativeURL of
        None \<Rightarrow> []
      | Some parsedRelativeURL \<Rightarrow>
          URLString (ResolveReference (URL (HTTP (Req r))) parsedRelativeURL))"

section \<open>Options\<close>

record ('act, 'proxy) client_options =
  MaxBodySize :: int
  CharsetDetectDisabled :: bool
  RetryTimes :: int
  RetryHTTPCodes :: "int list"
  RemoteAllocatorURL :: string
  ProxyFunc :: "'proxy option"
  PreActions :: "'act list"

definition DefaultUserAgent :: string where
  "DefaultUserAgent = ''Geziyor 1.0''"

definition DefaultMaxBody :: int where
  "DefaultMaxBody = 1024 * 1024 * 1024"

definition DefaultRetryTimes :: int where
  "DefaultRetryTimes = 2"

definition DefaultRetryHTTPCodes :: "int list" where
  "DefaultRetryHTTPCodes = [500, 502, 503, 504, 522, 524, 408]"

text \<open>The \<open>http.Client\<close> that \<open>NewClient\<close> sets up; durations in seconds.\<close>

datatype 'proxy proxy_function = ProxyFromEnvironment | CustomProxy 'proxy

record 'proxy http_client =
  Proxy :: "'proxy proxy_function"
  DialTimeout :: nat
  KeepAlive :: nat
  ForceAttemptHTTP2 :: bool
  MaxIdleConns :: nat
  MaxIdleConnsPerHost :: nat
  IdleConnTimeout :: nat
  TLSHandshakeTimeout :: nat
  ExpectContinueTimeout :: nat
  Timeout :: nat

definition NewClient ::
  "('act, 'proxy) client_options \<Rightarrow> 'proxy http_client \<times> ('act, 'proxy) client_options" where
  "NewClient opt =
     (\<lparr>Proxy = (case ProxyFunc opt of None \<Rightarrow> ProxyFromEnvironment | Some p \<Rightarrow> CustomProxy p),
       DialTimeout = 30, KeepAlive = 30, ForceAttemptHTTP2 = True, MaxIdleConns = 0,
       MaxIdleConnsPerHost = 1000, IdleConnTimeout = 90, TLSHandshakeTimeout = 10,
       ExpectContinueTimeout = 1, Timeout = 180\<rparr>, opt)"

section \<open>External code\<close>

type_synonym reader = "string \<times> bool"

text \<open>The actions of a Chrome run: those of \<open>doRequestChrome\<close>, and the ones a user gives.\<close>

datatype 'act chrome_action =
    NetworkEnable
  | SetExtraHTTPHeaders "(string \<times> string) list"
  | ListenForDocument
  | Navigate string
  | WaitReady string
  | GetOuterHTML
  | UserAction 'act

datatype allocator = RemoteAllocator string | ExecAllocator

text \<open>What Chrome reports of the first document it received.\<close>

record network_response =
  RequestHeaders :: "(string \<times> iface) list"
  NURL :: string
  NStatus :: int
  NProtocol :: string
  NHeaders :: "(string \<times> iface) list"

text \<open>
  \<open>http_do\<close> gives an error or a response with the request that was answered (another one than
  the caller's after a redirect), the caller's request as it is afterwards (its body has been
  read, cookies were added), and the next state. \<open>url_Parse\<close> is only applied to the URL of
  a document Chrome has loaded.
\<close>

record ('e, 'w, 'act) external =
  http_do :: "http_request \<Rightarrow> 'w \<Rightarrow> ('e + http_response \<times> http_request) \<times> http_request \<times> 'w"
  charset_Lookup :: "string \<Rightarrow> (reader \<Rightarrow> reader) option"
  charset_NewReader :: "reader \<Rightarrow> string \<Rightarrow> 'e + reader"
  chrome_Run :: "allocator \<Rightarrow> 'act chrome_action list \<Rightarrow> 'w \<Rightarrow> ('e + network_response option \<times> string) \<times> 'w"
  url_Parse :: "string \<Rightarrow> url"

text \<open>The errors of \<open>DoRequest\<close>, named after the text they are wrapped in.\<close>

datatype 'e client_error =
    ResponseError 'e
  | CharsetError string 'e
  | ReadingBody
  | RenderError 'e

datatype ('e, 'v) outcome = Returned 'v | Failed "'e client_error" | Panicked

section \<open>Sending one request\<close>

text \<open>\<open>io.LimitReader\<close> and \<open>io.ReadAll\<close>.\<close>

definition LimitReader :: "reader \<Rightarrow> int \<Rightarrow> reader" where
  "LimitReader r n = (take (nat n) (fst r), snd r \<and> int (length (fst r)) < n)"

definition ReadAll :: "reader \<Rightarrow> string option" where
  "ReadAll r = (if snd r then None else Some (fst r))"

definition decode_body ::
  "('e, 'w, 'act) external \<Rightarrow> ('act, 'proxy) client_options \<Rightarrow> 'act request \<Rightarrow> http_response \<Rightarrow> string \<Rightarrow>
   reader \<Rightarrow> 'e client_error + reader" where
  "decode_body ext opt req resp method bodyReader =
     (if method \<noteq> ''HEAD'' \<and> ContentLength resp > 0 then
        (if Encoding req \<noteq> [] then
           (case charset_Lookup ext (Encoding req) of
              Some decoder \<Rightarrow> Inr (decoder bodyReader) | None \<Rightarrow> Inr bodyReader)
         else if \<not> CharsetDetectDisabled opt then
           (let contentType = header_get (ReqHeader (HTTP req)) ''Content-Type''
            in case charset_NewReader ext bodyReader contentType of
                 Inl err \<Rightarrow> Inl (CharsetError contentType err) | Inr r \<Rightarrow> Inr r)
         else Inr bodyReader)
      else Inr bodyReader)"

definition doRequestClient ::
  "('e, 'w, 'act) external \<Rightarrow> ('act, 'proxy) client_options \<Rightarrow> 'act request \<Rightarrow> 'w \<Rightarrow>
   ('e, ('act, 'doc) response) outcome \<times> 'act request \<times> 'w" where
  "doRequestClient ext opt req w =
     (let (result, hreq, w') = http_do ext (HTTP req) w;
          req' = req\<lparr>HTTP := hreq\<rparr>
      in case result of
           Inl err \<Rightarrow> (Failed (ResponseError err), req', w')
         | Inr (resp, answered) \<Rightarrow>
             (let bodyReader = LimitReader (Body resp, BodyErr resp) (MaxBodySize opt)
              in case decode_body ext opt req' resp (Method answered) bodyReader of
                   Inl err \<Rightarrow> (Failed err, req', w')
                 | Inr bodyReader \<Rightarrow>
                     (case ReadAll bodyReader of
                        None \<Rightarrow> (Failed ReadingBody, req', w')
                      | Some body \<Rightarrow>
                          (Returned \<lparr>Resp = resp, RBody = body, HTMLDoc = None, Req = req'\<rparr>, req', w'))))"

definition defaultPreActions :: "'act request \<Rightarrow> 'act chrome_action list" where
  "defaultPreActions req =
     [NetworkEnable, SetExtraHTTPHeaders (ConvertHeaderToMap (ReqHeader (HTTP req))),
      ListenForDocument, Navigate (URLString (URL (HTTP req))), WaitReady '':root'', GetOuterHTML]"

text \<open>The actions of a run: those of the options override the default ones, and those of the request follow.\<close>

definition rendered_actions :: "('act, 'proxy) client_options \<Rightarrow> 'act request \<Rightarrow> 'act chrome_action list" where
  "rendered_actions opt req =
     (if PreActions opt \<noteq> [] then map UserAction (PreActions opt) else defaultPreActions req)
     @ map UserAction (Actions req)"

text \<open>The \<open>http.Response\<close> of a rendered request starts with all fields zero.\<close>

definition zero_response :: http_response where
  "zero_response = \<lparr>Status = [], StatusCode = 0, Proto = [], ProtoMajor = 0, ProtoMinor = 0, Header = [],
     Body = [], BodyErr = False, ContentLength = 0, Chunked = False, Close = False,
     Uncompressed = False\<rparr>"

definition doRequestChrome ::
  "('e, 'w, 'act) external \<Rightarrow> ('act, 'proxy) client_options \<Rightarrow> 'act request \<Rightarrow> 'w \<Rightarrow>
   ('e, ('act, 'doc) response) outcome \<times> 'act request \<times> 'w" where
  "doRequestChrome ext opt req w =
     (let alloc = (if RemoteAllocatorURL opt \<noteq> [] then RemoteAllocator (RemoteAllocatorURL opt)
                   else ExecAllocator);
          (result, w') = chrome_Run ext alloc (rendered_actions opt req) w
      in case result of
           Inl err \<Rightarrow> (Failed (RenderError err), req, w')
         | Inr (None, body) \<Rightarrow>
             (Returned \<lparr>Resp = zero_response, RBody = body, HTMLDoc = None, Req = req\<rparr>, req, w')
         | Inr (Some res, body) \<Rightarrow>
             (case ConvertMapToHeader (RequestHeaders res) of
                None \<Rightarrow> (Panicked, req, w')
              | Some reqHeader \<Rightarrow>
                  (let req' = req\<lparr>HTTP := (HTTP req)\<lparr>ReqHeader := reqHeader, URL := url_Parse ext (NURL res)\<rparr>\<rparr>
                   in case ConvertMapToHeader (NHeaders res) of
                        None \<Rightarrow> (Panicked, req', w')
                      | Some header \<Rightarrow>
                          (Returned \<lparr>Resp = zero_response\<lparr>StatusCode := NStatus res, Proto := NProtocol res, Header := header\<rparr>,
                              RBody = body, HTMLDoc = None, Req = req'\<rparr>, req', w'))))"

definition send ::
  "('e, 'w, 'act) external \<Rightarrow> ('act, 'proxy) client_options \<Rightarrow> 'act request \<Rightarrow> 'w \<Rightarrow>
   ('e, ('act, 'doc) response) outcome \<times> 'act request \<times> 'w" where
  "send ext opt req w =
     (if Rendered req then doRequestChrome ext opt req w else doRequestClient ext opt req w)"

lemma send_retryCounter: "send ext opt req w = (out, req', w') \<Longrightarrow> retryCounter req' = retryCounter req"
  by (auto simp: send_def doRequestChrome_def doRequestClient_def Let_def
      split: if_splits prod.splits sum.splits option.splits)

section \<open>The retry loop\<close>

text \<open>\<open>retryCounter\<close> is an \<open>int\<close>; it stays below \<open>RetryTimes\<close> when it is incremented.\<close>

function DoRequest ::
  "('e, 'w, 'act) external \<Rightarrow> ('act, 'proxy) client_options \<Rightarrow> 'act request \<Rightarrow> 'w \<Rightarrow>
   ('e, ('act, 'doc) response) outcome \<times> 'act request \<times> 'w" where
  "DoRequest ext opt req w =
     (case send ext opt req w of (result, req', w') \<Rightarrow>
        (case result of
           Panicked \<Rightarrow> (Panicked, req', w')
         | Failed err \<Rightarrow>
             if retryCounter req' < RetryTimes opt
             then DoRequest ext opt (req'\<lparr>retryCounter := retryCounter req' + 1\<rparr>) w'
             else (Failed err, req', w')
         | Returned resp \<Rightarrow>
             if ContainsInt (RetryHTTPCodes opt) (StatusCode (Resp resp))
                \<and> retryCounter req' < RetryTimes opt
             then DoRequest ext opt (req'\<lparr>retryCounter := retryCounter req' + 1\<rparr>) w'
             else (Returned resp, req', w')))"
  by pat_completeness auto
termination
  by (relation "measure (\<lambda>(ext, opt, req, w). nat (RetryTimes opt - retryCounter req))")
    (auto dest!: sym [of _ "send _ _ _ _"] send_retryCounter)

declare DoRequest.simps [simp del]

section \<open>Redirects, cookies\<close>

definition NewRedirectionHandler :: "int \<Rightarrow> http_request list \<Rightarrow> string option" where
  "NewRedirectionHandler maxRedirect via =
     (if int (length via) \<ge> maxRedirect
      then Some (''stopped after '' @ itoa maxRedirect @ '' redirects'') else None)"

text \<open>A cookie jar is a value with two operations; \<open>None\<close> stands for a nil jar.\<close>

datatype 'e cookie_error = ErrNoCookieJar | ErrURL 'e

definition SetCookies ::
  "(string \<Rightarrow> 'e + url) \<Rightarrow> ('jar \<Rightarrow> url \<Rightarrow> 'c list \<Rightarrow> 'jar) \<Rightarrow> 'jar option \<Rightarrow> string \<Rightarrow> 'c list \<Rightarrow>
   'e cookie_error option \<times> 'jar option" where
  "SetCookies parse jar_SetCookies Jar u cookies =
     (case Jar of None \<Rightarrow> (Some ErrNoCookieJar, Jar)
      | Some jar \<Rightarrow>
          (case parse u of Inl err \<Rightarrow> (Some (ErrURL err), Jar)
           | Inr u' \<Rightarrow> (None, Some (jar_SetCookies jar u' cookies))))"

definition Cookies ::
  "(string \<Rightarrow> 'e + url) \<Rightarrow> ('jar \<Rightarrow> url \<Rightarrow> 'c list) \<Rightarrow> 'jar option \<Rightarrow> string \<Rightarrow> 'c list" where
  "Cookies parse jar_Cookies Jar u =
     (case Jar of None \<Rightarrow> []
      | Some jar \<Rightarrow> (case parse u of Inl err \<Rightarrow> [] | Inr parsedURL \<Rightarrow> jar_Cookies jar parsedURL))"

section \<open>Proxies\<close>

text \<open>The index is a \<open>uint32\<close>; every call takes the old value and adds one.\<close>

record roundRobinProxy =
  proxyURLs :: "url list"
  index :: "32 word"

text \<open>The proxy, the text that is stored for it in the context of the request, and the new state.\<close>

definition GetProxy :: "roundRobinProxy \<Rightarrow> (url \<times> string) \<times> roundRobinProxy" where
  "GetProxy r =
     (let i = index r;
          u = proxyURLs r ! unat (i mod of_nat (length (proxyURLs r)))
      in ((u, URLString u), r\<lparr>index := i + 1\<rparr>))"

datatype proxy_choice = FromEnvironment | NilProxy | RoundRobin roundRobinProxy

fun parse_all :: "(string \<Rightarrow> 'e + url) \<Rightarrow> string list \<Rightarrow> url list option" where
  "parse_all parse [] = Some []"
| "parse_all parse (u # us) =
     (case parse u of Inl err \<Rightarrow> None
      | Inr parsedURL \<Rightarrow> map_option ((#) parsedURL) (parse_all parse us))"

definition RoundRobinProxy :: "(string \<Rightarrow> 'e + url) \<Rightarrow> string list \<Rightarrow> proxy_choice" where
  "RoundRobinProxy parse urls =
     (if length urls < 1 then FromEnvironment
      else (case parse_all parse urls of
              None \<Rightarrow> NilProxy
            | Some parsed \<Rightarrow> RoundRobin \<lparr>proxyURLs = parsed, index = 0\<rparr>))"

fun GetProxies :: "nat \<Rightarrow> roundRobinProxy \<Rightarrow> url list \<times> roundRobinProxy" where
  "GetProxies 0 r = ([], r)"
| "GetProxies (Suc n) r =
     (let ((u, ctx), r') = GetProxy r; (us, r'') = GetProxies n r' in (u # us, r''))"

end
