(* ===== verification/Metrics.thy ===== *)
theory Metrics
  imports Go_Strings
begin

text \<open>
  \<open>metrics/metrics.go\<close>: the counters of a scraper for each metrics type, and the metrics
  server. A counter is described by the call that makes it; the libraries behind the calls are
  third-party code, so adding to a counter is recorded as an event.
\<close>

text \<open>\<open>Type\<close> is an \<open>int\<close>.\<close>

definition Discard :: int where "Discard = 0"
definition Prometheus :: int where "Prometheus = 1"
definition ExpVar :: int where "ExpVar = 2"

text \<open>\<open>discard.NewCounter\<close>, \<open>expvar.NewCounter\<close>, \<open>prometheus.NewCounterFrom\<close> with its label names.\<close>

datatype counter =
    DiscardCounter
  | ExpVarCounter string
  | PrometheusCounter (Namespace: string) (Name: string) (Help: string) (labels: "string list")

record metrics =
  RequestCounter :: counter
  ResponseCounter :: counter
  PanicCounter :: counter
  RobotsTxtRequestCounter :: counter
  RobotsTxtResponseCounter :: counter
  RobotsTxtForbiddenCounter :: counter

definition NewMetrics :: "int \<Rightarrow> metrics option" where
  "NewMetrics metricsType =
     (if metricsType = Discard then
        Some \<lparr>RequestCounter = DiscardCounter, ResponseCounter = DiscardCounter,
              PanicCounter = DiscardCounter, RobotsTxtRequestCounter = DiscardCounter,
              RobotsTxtResponseCounter = DiscardCounter, RobotsTxtForbiddenCounter = DiscardCounter\<rparr>
      else if metricsType = ExpVar then
        Some \<lparr>RequestCounter = ExpVarCounter ''request_count'',
              ResponseCounter = ExpVarCounter ''response_count'',
              PanicCounter = ExpVarCounter ''panic_count'',
              RobotsTxtRequestCounter = ExpVarCounter ''robotstxt_request_count'',
              RobotsTxtResponseCounter = ExpVarCounter ''robotstxt_response_count'',
              RobotsTxtForbiddenCounter = ExpVarCounter ''robotstxt_forbidden_count''\<rparr>
      else if metricsType = Prometheus then
        Some \<lparr>RequestCounter =
                PrometheusCounter ''geziyor'' ''request_count'' ''Request count'' [''method''],
              ResponseCounter =
                PrometheusCounter ''geziyor'' ''response_count'' ''Response count'' [''status''],
              PanicCounter =
                PrometheusCounter ''geziyor'' ''panic_count'' ''Panic count'' [],
              RobotsTxtRequestCounter =
                PrometheusCounter ''geziyor'' ''robotstxt_request_count'' ''Robotstxt request count'' [],
              RobotsTxtResponseCounter =
                PrometheusCounter ''geziyor'' ''robotstxt_response_count''
                  ''Robotstxt response count'' [''status''],
              RobotsTxtForbiddenCounter =
                PrometheusCounter ''geziyor'' ''robotstxt_forbidden_count''
                  ''Robotstxt forbidden count'' [''method'']\<rparr>
      else None)"

text \<open>The server: its address, and the paths registered with the default handler before it starts.\<close>

record metrics_server =
  Addr :: string
  handled :: "string list"

definition StartMetricsServer :: "int \<Rightarrow> metrics_server" where
  "StartMetricsServer metricsType =
     \<lparr>Addr = '':2112'', handled = (if metricsType = Prometheus then [''/metrics''] else [])\<rparr>"

section \<open>Effects of a scraper that are observed from outside\<close>

text \<open>
  A log line, an addition to a counter with its label values, a pause in nanoseconds, a wait for the rate
  limiter, a send on and a receive from a channel used as a semaphore: the scraper's (\<open>None\<close>), or that of a
  host.
\<close>

datatype event =
    Log string
  | CounterAdd counter "(string \<times> string) list" int
  | Sleep int
  | RateWait
  | SemSend "string option"
  | SemReceive "string option"

fun is_Log :: "event \<Rightarrow> bool" where
  "is_Log (Log msg) \<longleftrightarrow> True" | "is_Log e \<longleftrightarrow> False"

text \<open>
  The label values a counter is used with must be the ones it was declared with: a Prometheus
  counter panics otherwise.
\<close>

fun well_labelled :: "event \<Rightarrow> bool" where
  "well_labelled (CounterAdd (PrometheusCounter ns n hp ls) vs i) \<longleftrightarrow> map fst vs = ls"
| "well_labelled e \<longleftrightarrow> True"

end
