(* ===== verification/Middleware.thy ===== *)
theory Middleware
  imports Client Metrics Go_Time
begin

text \<open>
  The request and response middlewares of \<open>middleware/\<close>.

  A middleware is a function of the request (or response) and of the state of the scraper's
  middlewares. It returns both, changed, and whether it panicked. The state holds the maps the
  middlewares keep, the trace of observable events, and the world the client acts on. Each call
  is one step: \<open>sync.Map.LoadOrStore\<close> and the locked accesses to the robots map are atomic.
\<close>

section \<open>State\<close>

text \<open>
  A \<open>sync.Map\<close> used as a set is the list of its keys. \<open>semHosts\<close> are the hosts the scraper has made a
  semaphore for.
\<close>

record ('rd, 'w) mw_state =
  domainsLogged :: "string list"
  visitedURLs :: "string list"
  visitedLogged :: "string list"
  robotsMap :: "(string \<times> 'rd) list"
  semHosts :: "string list"
  trace :: "event list"
  world :: 'w

definition mw_init :: "'w \<Rightarrow> ('rd, 'w) mw_state" where
  "mw_init w = \<lparr>domainsLogged = [], visitedURLs = [], visitedLogged = [], robotsMap = [],
                semHosts = [], trace = [], world = w\<rparr>"

type_synonym ('act, 'rd, 'w) req_middleware =
  "'act request \<Rightarrow> ('rd, 'w) mw_state \<Rightarrow> bool \<times> 'act request \<times> ('rd, 'w) mw_state"

type_synonym ('act, 'doc, 'rd, 'w) res_middleware =
  "('act, 'doc) response \<Rightarrow> ('rd, 'w) mw_state \<Rightarrow> bool \<times> ('act, 'doc) response \<times> ('rd, 'w) mw_state"

text \<open>\<open>LoadOrStore\<close>: whether the key was there, and the map with it.\<close>

definition LoadOrStore :: "string \<Rightarrow> string list \<Rightarrow> bool \<times> string list" where
  "LoadOrStore key m = (if key \<in> set m then (True, m) else (False, key # m))"

definition emit :: "event \<Rightarrow> ('rd, 'w) mw_state \<Rightarrow> ('rd, 'w) mw_state" where
  "emit e s = s\<lparr>trace := trace s @ [e]\<rparr>"

section \<open>Request middlewares\<close>

definition AllowedDomains_ProcessRequest :: "string list \<Rightarrow> ('act, 'rd, 'w) req_middleware" where
  "AllowedDomains_ProcessRequest allowed r s =
     (if length allowed \<noteq> 0 \<and> \<not> ContainsString allowed (RHost (HTTP r)) then
        (let (logged, m) = LoadOrStore (RHost (HTTP r)) (domainsLogged s);
             s1 = s\<lparr>domainsLogged := m\<rparr>;
             s2 = (if logged then s1 else emit (Log (''Domain not allowed: '' @ RHost (HTTP r))) s1)
         in (False, Cancel r, s2))
      else (False, r, s))"

definition DuplicateRequests_ProcessRequest :: "bool \<Rightarrow> ('act, 'rd, 'w) req_middleware" where
  "DuplicateRequests_ProcessRequest revisitEnabled r s =
     (if \<not> revisitEnabled \<and> Method (HTTP r) = ''GET'' then
        (let requestURL = URLString (URL (HTTP r));
             (visited, m) = LoadOrStore requestURL (visitedURLs s);
             s1 = s\<lparr>visitedURLs := m\<rparr>
         in if visited then
              (let (logged, m') = LoadOrStore requestURL (visitedLogged s1);
                   s2 = s1\<lparr>visitedLogged := m'\<rparr>;
                   s3 = (if logged then s2 else emit (Log (''URL already visited '' @ requestURL)) s2)
               in (False, Cancel r, s3))
            else (False, r, s1))
      else (False, r, s))"

definition set_default :: "string \<Rightarrow> string \<Rightarrow> 'act request \<Rightarrow> 'act request" where
  "set_default key value r =
     r\<lparr>HTTP := (HTTP r)\<lparr>ReqHeader := SetDefaultHeader (ReqHeader (HTTP r)) key value\<rparr>\<rparr>"

definition Headers_ProcessRequest :: "string \<Rightarrow> ('act, 'rd, 'w) req_middleware" where
  "Headers_ProcessRequest userAgent r s =
     (let r1 = set_default ''Accept''
            ''text/html,application/xhtml+xml,application/xml;q=0.9,*/*;q=0.8'' r;
          r2 = set_default ''Accept-Charset'' ''utf-8'' r1;
          r3 = set_default ''Accept-Language'' ''en'' r2
      in (False, set_default ''User-Agent'' userAgent r3, s))"

text \<open>
  The delay. The bounds are computed in \<open>float64\<close>; \<open>intn\<close> stands for \<open>rand.Intn\<close>, which
  panics when its argument is not positive and else gives a number below it.
\<close>

definition fl64_sub :: "int \<times> int \<Rightarrow> int \<times> int \<Rightarrow> int \<times> int" where
  "fl64_sub x y = fl64 (fst x * snd y - fst y * snd x) (snd x * snd y)"

record delay =
  requestDelayRandomize :: bool
  requestDelay :: int

definition NewDelay :: "bool \<Rightarrow> int \<Rightarrow> delay" where
  "NewDelay randomize d = \<lparr>requestDelayRandomize = randomize, requestDelay = d\<rparr>"

definition delay_bounds :: "int \<Rightarrow> int \<times> int" where
  "delay_bounds d =
     (let lo = fl64_mult (fl64 d 1) (1, 2);
          hi = fl64_mult (fl64 d 1) (3, 2)
      in (fl64_trunc (fl64_sub hi lo), fl64_trunc lo))"

definition Delay_ProcessRequest :: "delay \<Rightarrow> (int \<Rightarrow> int) \<Rightarrow> ('act, 'rd, 'w) req_middleware" where
  "Delay_ProcessRequest a intn r s =
     (if requestDelayRandomize a then
        (let (width, lo) = delay_bounds (requestDelay a)
         in if width \<le> 0 then (True, r, s) else (False, r, emit (Sleep (intn width + lo)) s))
      else (False, r, emit (Sleep (requestDelay a)) s))"

definition Metrics_ProcessRequest :: "metrics \<Rightarrow> ('act, 'rd, 'w) req_middleware" where
  "Metrics_ProcessRequest m r s =
     (False, r, emit (CounterAdd (RequestCounter m) [(''method'', Method (HTTP r))] 1) s)"

text \<open>
  The robots middleware. Parameters are what \<open>http.NewRequest\<close> makes of a URL, the client, and
  the \<open>robotstxt\<close> library: \<open>from_status\<close> is \<open>FromStatusAndBytes\<close>, \<open>test_agent\<close> is
  \<open>TestAgent\<close>.
\<close>

record ('e, 'w, 'act, 'proxy, 'rd) robots_config =
  robotsDisabled :: bool
  robots_client :: "('e, 'w, 'act) external \<times> ('act, 'proxy) client_options"
  http_NewRequest :: "string \<Rightarrow> string \<Rightarrow> string \<Rightarrow> 'e + http_request"
  from_status :: "int \<Rightarrow> string \<Rightarrow> 'rd option"
  test_agent :: "'rd \<Rightarrow> string \<Rightarrow> string \<Rightarrow> bool"

text \<open>The result of looking up or fetching the rules of a host.\<close>

datatype 'rd robots_lookup = Rules 'rd | NoRules | RobotsPanic

definition fetch_robots ::
  "('e, 'w, 'act, 'proxy, 'rd) robots_config \<Rightarrow> metrics \<Rightarrow> 'act request \<Rightarrow> ('rd, 'w) mw_state \<Rightarrow>
   'rd robots_lookup \<times> ('rd, 'w) mw_state" where
  "fetch_robots c m r s =
     (case NewRequest (http_NewRequest c) ''GET''
             (Scheme (URL (HTTP r)) @ ''://'' @ RHost (HTTP r) @ ''/robots.txt'') [] of
        Inl err \<Rightarrow> (NoRules, s)
      | Inr robotsReq \<Rightarrow>
          (let s1 = emit (CounterAdd (RobotsTxtRequestCounter m) [] 1) s;
               (result, req', w') =
                 DoRequest (fst (robots_client c)) (snd (robots_client c)) robotsReq (world s1);
               s2 = s1\<lparr>world := w'\<rparr>
           in case (result :: ('e, ('act, unit) response) outcome) of
                Panicked \<Rightarrow> (RobotsPanic, s2)
              | Failed err \<Rightarrow> (NoRules, s2)
              | Returned robotsResp \<Rightarrow>
                  (let s3 = emit (CounterAdd (RobotsTxtResponseCounter m)
                              [(''status'', itoa (StatusCode (Resp robotsResp)))] 1) s2
                   in case from_status c (StatusCode (Resp robotsResp)) (RBody robotsResp) of
                        None \<Rightarrow> (NoRules, s3)
                      | Some robotsData \<Rightarrow>
                          (Rules robotsData,
                           s3\<lparr>robotsMap := AList.update (RHost (HTTP r)) robotsData (robotsMap s3)\<rparr>))))"

definition UserAgent_of :: "'act request \<Rightarrow> string" where
  "UserAgent_of r = header_get (ReqHeader (HTTP r)) ''User-Agent''"

definition RobotsTxt_ProcessRequest ::
  "('e, 'w, 'act, 'proxy, 'rd) robots_config \<Rightarrow> metrics \<Rightarrow> ('act, 'rd, 'w) req_middleware" where
  "RobotsTxt_ProcessRequest c m r s =
     (if robotsDisabled c then (False, r, s)
      else (let (found, s1) = (case map_of (robotsMap s) (RHost (HTTP r)) of
                    Some robotsData \<Rightarrow> (Rules robotsData, s)
                  | None \<Rightarrow> fetch_robots c m r s)
            in case found of
                 NoRules \<Rightarrow> (False, r, s1)
               | RobotsPanic \<Rightarrow> (True, r, s1)
               | Rules robotsData \<Rightarrow>
                   if \<not> test_agent c robotsData (Path (URL (HTTP r))) (UserAgent_of r) then
                     (False, Cancel r,
                      emit (Log (''Forbidden by robots.txt: '' @ URLString (URL (HTTP r))))
                        (emit (CounterAdd (RobotsTxtForbiddenCounter m)
                                 [(''method'', Method (HTTP r))] 1) s1))
                   else (False, r, s1)))"

section \<open>Response middlewares\<close>

text \<open>\<open>goquery.NewDocumentFromReader\<close> is a parameter: an error text or a document.\<close>

definition ParseHTML_ProcessResponse ::
  "bool \<Rightarrow> (string \<Rightarrow> string + 'doc) \<Rightarrow> ('act, 'doc, 'rd, 'w) res_middleware" where
  "ParseHTML_ProcessResponse parseHTMLDisabled newDocument r s =
     (if \<not> parseHTMLDisabled \<and> IsHTML r then
        (case newDocument (RBody r) of
           Inl err \<Rightarrow> (False, r, emit (Log err) s)
         | Inr doc \<Rightarrow> (False, r\<lparr>HTMLDoc := Some doc\<rparr>, s))
      else (False, r, s))"

definition LogStats_ProcessResponse :: "bool \<Rightarrow> ('act, 'doc, 'rd, 'w) res_middleware" where
  "LogStats_ProcessResponse logDisabled r s =
     (if \<not> logDisabled then
        (False, r, emit (Log (''Crawled: ('' @ itoa (StatusCode (Resp r)) @ '') <''
            @ Method (HTTP (Req r)) @ '' '' @ URLString (URL (HTTP (Req r))) @ ''>'')) s)
      else (False, r, s))"

definition Metrics_ProcessResponse :: "metrics \<Rightarrow> ('act, 'doc, 'rd, 'w) res_middleware" where
  "Metrics_ProcessResponse m r s =
     (False, r, emit (CounterAdd (ResponseCounter m) [(''status'', itoa (StatusCode (Resp r)))] 1) s)"

end
