(* ===== verification/Client_Laws.thy ===== *)
theory Client_Laws
  imports Client
begin

text \<open>Properties of the client: the retry budget, what a retry sends, the body limit, the
  conversions between headers and maps, the redirect limit and the rotation of proxies.\<close>

section \<open>Retries\<close>

text \<open>Every send of a request moves the state of the world on by one.\<close>

definition counts_sends ::
  "('e, 'w, 'act) external \<Rightarrow> ('w \<Rightarrow> nat) \<Rightarrow> bool" where
  "counts_sends ext cnt \<longleftrightarrow>
     (\<forall>q w. cnt (snd (snd (http_do ext q w))) = Suc (cnt w)) \<and>
     (\<forall>a acts w. cnt (snd (chrome_Run ext a acts w)) = Suc (cnt w))"

lemma send_counts:
  assumes "counts_sends ext cnt" and "send ext opt req w = (out, req', w')"
  shows "cnt w' = Suc (cnt w)"
proof (cases "Rendered req")
  case True
  let ?alloc = "if RemoteAllocatorURL opt \<noteq> [] then RemoteAllocator (RemoteAllocatorURL opt) else ExecAllocator"
  let ?acts = "rendered_actions opt req"
  obtain res w1 where run: "chrome_Run ext ?alloc ?acts w = (res, w1)" by force
  have "w' = w1"
    using assms(2) True unfolding send_def doRequestChrome_def Let_def run
    by (auto split: sum.splits option.splits prod.splits)
  then show ?thesis using assms(1) run unfolding counts_sends_def by (metis snd_conv)
next
  case False
  obtain res hreq w1 where run: "http_do ext (HTTP req) w = (res, hreq, w1)" by (metis surj_pair)
  have "w' = w1"
    using assms(2) False unfolding send_def doRequestClient_def Let_def run
    by (auto split: sum.splits option.splits prod.splits)
  then show ?thesis using assms(1) run unfolding counts_sends_def by (metis snd_conv)
qed

text \<open>One step of the loop, and the induction over a finished run of it.\<close>

definition retries ::
  "('act, 'proxy) client_options \<Rightarrow> ('e, ('act, 'doc) response) outcome \<Rightarrow> 'act request \<Rightarrow> bool" where
  "retries opt out req \<longleftrightarrow> retryCounter req < RetryTimes opt \<and>
     (case out of Panicked \<Rightarrow> False | Failed err \<Rightarrow> True
      | Returned resp \<Rightarrow> StatusCode (Resp resp) \<in> set (RetryHTTPCodes opt))"

lemma DoRequest_step:
  "send ext opt req w = (o1, r1, w1) \<Longrightarrow>
   DoRequest ext opt req w =
     (if retries opt o1 r1 then DoRequest ext opt (r1\<lparr>retryCounter := retryCounter r1 + 1\<rparr>) w1
      else (o1, r1, w1))"
  by (subst DoRequest.simps) (simp add: retries_def split: outcome.split)

lemma DoRequest_run_induct [consumes 1, case_names last retry]:
  fixes out :: "('e, ('act, 'doc) response) outcome"
  assumes "DoRequest ext opt req w = (out, req', w')"
    and "\<And>req w (o1 :: ('e, ('act, 'doc) response) outcome) r1 w1. send ext opt req w = (o1, r1, w1) \<Longrightarrow> \<not> retries opt o1 r1 \<Longrightarrow>
      P req w o1 r1 w1"
    and "\<And>req w (o1 :: ('e, ('act, 'doc) response) outcome) r1 w1 out req' w'. send ext opt req w = (o1, r1, w1) \<Longrightarrow> retries opt o1 r1 \<Longrightarrow>
      P (r1\<lparr>retryCounter := retryCounter r1 + 1\<rparr>) w1 out req' w' \<Longrightarrow> P req w out req' w'"
  shows "P req w out req' w'"
  using assms(1)
proof (induction "nat (RetryTimes opt - retryCounter req)" arbitrary: req w rule: less_induct)
  case less
  obtain o1 :: "('e, ('act, 'doc) response) outcome" and r1 w1 where s: "send ext opt req w = (o1, r1, w1)" by (metis surj_pair)
  note rc = send_retryCounter [OF s]
  show ?case
  proof (cases "retries opt o1 r1")
    case True
    let ?r = "r1\<lparr>retryCounter := retryCounter r1 + 1\<rparr>"
    have "DoRequest ext opt ?r w1 = (out, req', w')"
      using less.prems DoRequest_step [OF s] True by simp
    moreover have "nat (RetryTimes opt - retryCounter ?r) < nat (RetryTimes opt - retryCounter req)"
      using True rc by (simp add: retries_def)
    ultimately show ?thesis using assms(3) [OF s True] less.hyps by blast
  next
    case False
    then show ?thesis using assms(2) [OF s False] less.prems DoRequest_step [OF s] by simp
  qed
qed

text \<open>DoRequest sends a request once more for every step of its retry counter, and the counter
  never passes RetryTimes: at most RetryTimes - retryCounter retries, for errors and status
  codes together, and none when the counter starts at RetryTimes or above.\<close>
theorem retry_budget:
  assumes "DoRequest ext opt req w = (out, req', w')" and "counts_sends ext cnt"
  shows "int (cnt w') = int (cnt w) + 1 + (retryCounter req' - retryCounter req)
    \<and> retryCounter req \<le> retryCounter req'
    \<and> retryCounter req' \<le> max (retryCounter req) (RetryTimes opt)"
  using assms(1)
proof (induction rule: DoRequest_run_induct)
  case (last req w o1 r1 w1)
  then show ?case using send_counts [OF assms(2)] send_retryCounter by fastforce
next
  case (retry req w o1 r1 w1 out req' w')
  then show ?case
    using send_counts [OF assms(2) retry(1)] send_retryCounter [OF retry(1)]
    by (auto simp: retries_def)
qed

text \<open>
  The attempts at a request: what a send gives, each made with what the one before has left. \<open>to_retry\<close>: an
  error, or a response with a status to retry.
\<close>

fun attempt ::
  "('e, 'w, 'act) external \<Rightarrow> ('act, 'proxy) client_options \<Rightarrow> 'act request \<Rightarrow> 'w \<Rightarrow> nat \<Rightarrow>
   ('e, ('act, 'doc) response) outcome \<times> 'act request \<times> 'w" where
  "attempt ext opt req w 0 = send ext opt req w"
| "attempt ext opt req w (Suc k) =
     (case attempt ext opt req w k of
        (out, r, w') \<Rightarrow> send ext opt (r\<lparr>retryCounter := retryCounter r + 1\<rparr>) w')"

lemma attempt_Suc:
  assumes "send ext opt req w = (o1 :: ('e, ('act, 'doc) response) outcome, r1, w1)"
  shows "(attempt ext opt req w (Suc k) :: ('e, ('act, 'doc) response) outcome \<times> _) =
    attempt ext opt (r1\<lparr>retryCounter := retryCounter r1 + 1\<rparr>) w1 k"
  by (induction k) (simp_all add: assms)

definition to_retry ::
  "('act, 'proxy) client_options \<Rightarrow> ('e, ('act, 'doc) response) outcome \<Rightarrow> bool" where
  "to_retry opt out = (case out of Panicked \<Rightarrow> False | Failed err \<Rightarrow> True
     | Returned resp \<Rightarrow> StatusCode (Resp resp) \<in> set (RetryHTTPCodes opt))"

text \<open>C16: \<open>DoRequest\<close> returns after at most \<open>RetryTimes\<close> retries, whatever the network does: it makes attempts
  until one is not to be retried or the retries that the request has left are used up. What it returns is then
  the result of the last attempt; this is not claimed for a last response with a status to retry.\<close>

theorem retries_until_done:
  fixes req :: "'act request"
  assumes "DoRequest ext opt req w = (out :: ('e, ('act, 'doc) response) outcome, req', w')"
  shows "\<exists>k. k \<le> nat (RetryTimes opt - retryCounter req)
    \<and> (\<forall>i<k. to_retry opt (fst (attempt ext opt req w i) :: ('e, ('act, 'doc) response) outcome))
    \<and> (to_retry opt (fst (attempt ext opt req w k) :: ('e, ('act, 'doc) response) outcome)
         \<longrightarrow> k = nat (RetryTimes opt - retryCounter req))
    \<and> (req', w') = snd (attempt ext opt req w k :: ('e, ('act, 'doc) response) outcome \<times> _)
    \<and> retryCounter req' = retryCounter req + int k
    \<and> (out = fst (attempt ext opt req w k)
       \<or> (\<exists>resp :: ('act, 'doc) response. fst (attempt ext opt req w k) = Returned resp
            \<and> StatusCode (Resp resp) \<in> set (RetryHTTPCodes opt)))"
  using assms
proof (induction rule: DoRequest_run_induct)
  case (last req w o1 r1 w1)
  have "retryCounter r1 = retryCounter req" by (rule send_retryCounter [OF last(1)])
  then have "to_retry opt o1 \<longrightarrow> nat (RetryTimes opt - retryCounter req) = 0"
    using last(2) by (auto simp: retries_def to_retry_def split: outcome.splits)
  then show ?case using last(1) \<open>retryCounter r1 = _\<close> by (intro exI [of _ 0]) simp
next
  case (retry req w o1 r1 w1 out req' w')
  let ?r = "r1\<lparr>retryCounter := retryCounter r1 + 1\<rparr>"
  have rc: "retryCounter r1 = retryCounter req" "retryCounter req < RetryTimes opt" "to_retry opt o1"
    using send_retryCounter [OF retry(1)] retry(2) by (auto simp: retries_def to_retry_def split: outcome.splits)
  have suc: "(attempt ext opt req w (Suc i) :: ('e, ('act, 'doc) response) outcome \<times> _) = attempt ext opt ?r w1 i" for i
    by (rule attempt_Suc [OF retry(1)])
  have zero: "(attempt ext opt req w 0 :: ('e, ('act, 'doc) response) outcome \<times> _) = (o1, r1, w1)"
    using retry(1) by simp
  have left: "nat (RetryTimes opt - retryCounter req) = Suc (nat (RetryTimes opt - retryCounter ?r))"
    using rc by simp
  from retry(3) obtain k where k: "k \<le> nat (RetryTimes opt - retryCounter ?r)"
    "\<forall>i<k. to_retry opt (fst (attempt ext opt ?r w1 i) :: ('e, ('act, 'doc) response) outcome)"
    "to_retry opt (fst (attempt ext opt ?r w1 k) :: ('e, ('act, 'doc) response) outcome)
       \<longrightarrow> k = nat (RetryTimes opt - retryCounter ?r)"
    "(req', w') = snd (attempt ext opt ?r w1 k :: ('e, ('act, 'doc) response) outcome \<times> _)"
    "retryCounter req' = retryCounter ?r + int k"
    "out = fst (attempt ext opt ?r w1 k)
       \<or> (\<exists>resp :: ('act, 'doc) response. fst (attempt ext opt ?r w1 k) = Returned resp
            \<and> StatusCode (Resp resp) \<in> set (RetryHTTPCodes opt))"
    by blast
  have "\<forall>i<Suc k. to_retry opt (fst (attempt ext opt req w i) :: ('e, ('act, 'doc) response) outcome)"
    unfolding All_less_Suc2 using zero k(2) rc(3) by (simp only: suc fst_conv)
  then show ?case using k(1,3-6) rc(1) unfolding left
    by (intro exI [of _ "Suc k"] conjI) (simp_all only: suc Suc_le_mono, simp_all)
qed

text \<open>When DoRequest ends with an error, or with a response whose status is one to retry, the
  retry budget is used up; such a last response is returned without an error.\<close>
theorem retry_outcome:
  assumes "DoRequest ext opt req w = (out, req', w')"
  shows "(\<forall>err. out = Failed err \<longrightarrow> RetryTimes opt \<le> retryCounter req') \<and>
    (\<forall>resp. out = Returned resp \<longrightarrow> StatusCode (Resp resp) \<in> set (RetryHTTPCodes opt) \<longrightarrow>
       RetryTimes opt \<le> retryCounter req')"
  using assms by (induction rule: DoRequest_run_induct) (auto simp: retries_def)

text \<open>A server that always answers with the same response, seen by a counter of requests.\<close>

definition constant_server ::
  "http_response \<Rightarrow> (string, nat, 'act) external" where
  "constant_server resp =
     \<lparr>http_do = (\<lambda>q n. (Inr (resp, q), q\<lparr>ReqBody := []\<rparr>, Suc n)),
      charset_Lookup = (\<lambda>e. None), charset_NewReader = (\<lambda>r ct. Inr r),
      chrome_Run = (\<lambda>a acts n. (Inl ''no chrome'', Suc n)),
      url_Parse = (\<lambda>s. \<lparr>Scheme = ''http'', URLHost = [], Path = s, URLString = s\<rparr>)\<rparr>"

lemma constant_server_counts: "counts_sends (constant_server resp) (\<lambda>n. n)"
  by (simp add: counts_sends_def constant_server_def)

definition example_options :: "int \<Rightarrow> (unit, unit) client_options" where
  "example_options tries = \<lparr>MaxBodySize = 10, CharsetDetectDisabled = True, RetryTimes = tries,
     RetryHTTPCodes = DefaultRetryHTTPCodes, RemoteAllocatorURL = [], ProxyFunc = None, PreActions = []\<rparr>"

definition plain_request :: "http_request \<Rightarrow> unit request" where
  "plain_request q = \<lparr>HTTP = q, Meta = [], Synchronized = False, Rendered = False, Encoding = [],
     Cancelled = False, Actions = [], retryCounter = 0\<rparr>"

text \<open>A server that keeps answering with a status to retry gets RetryTimes + 1 requests in all,
  one if RetryTimes is negative, and its last answer is what the caller gets, with no error.\<close>
theorem persistent_status_returned:
  fixes req :: "'a request"
  assumes "StatusCode resp \<in> set (RetryHTTPCodes opt)" and "\<not> Rendered req"
    and "retryCounter req = 0" and "\<not> BodyErr resp" and "ContentLength resp \<le> 0"
  shows "\<exists>(r :: ('a, 'doc) response) req'. DoRequest (constant_server resp) opt req n =
      (Returned r, req', n + 1 + nat (RetryTimes opt))
    \<and> StatusCode (Resp r) = StatusCode resp"
proof -
  let ?ext = "constant_server resp"
  have one: "\<exists>r req'. send ?ext opt q m = (Returned r, req', Suc m)
      \<and> StatusCode (Resp (r :: ('a, 'doc) response)) = StatusCode resp \<and> \<not> Rendered req'" if "\<not> Rendered q" for q m
    using that assms(4,5)
    by (simp add: send_def doRequestClient_def constant_server_def decode_body_def LimitReader_def
        ReadAll_def Let_def)
  have "\<exists>(r :: ('a, 'doc) response) req'. DoRequest ?ext opt q m = (Returned r, req', m + 1 + nat (RetryTimes opt - retryCounter q))
      \<and> StatusCode (Resp r) = StatusCode resp" if "\<not> Rendered q" for q m
    using that
  proof (induction "nat (RetryTimes opt - retryCounter q)" arbitrary: q m)
    case 0
    obtain r :: "('a, 'doc) response" and req' where s: "send ?ext opt q m = (Returned r, req', Suc m)"
      "StatusCode (Resp r) = StatusCode resp" using one 0(2) by blast
    then show ?case
      using 0(1) DoRequest_step [OF s(1)] send_retryCounter [OF s(1)] by (auto simp: retries_def)
  next
    case (Suc k)
    obtain r :: "('a, 'doc) response" and req' where s: "send ?ext opt q m = (Returned r, req', Suc m)"
      "StatusCode (Resp r) = StatusCode resp" "\<not> Rendered req'" using one Suc(3) by blast
    let ?q = "req'\<lparr>retryCounter := retryCounter req' + 1\<rparr>"
    have "retries opt (Returned r :: (string, (_, _) response) outcome) req'"
      using Suc(2) s(2) assms(1) send_retryCounter [OF s(1)] by (simp add: retries_def)
    then have "(DoRequest ?ext opt q m :: (string, ('a, 'doc) response) outcome \<times> _) =
        DoRequest ?ext opt ?q (Suc m)"
      using DoRequest_step [OF s(1)] by simp
    moreover have k: "k = nat (RetryTimes opt - retryCounter ?q)"
      using Suc(2) send_retryCounter [OF s(1)] by simp
    moreover have "m + 1 + nat (RetryTimes opt - retryCounter q) =
        Suc m + 1 + nat (RetryTimes opt - retryCounter ?q)"
      using Suc(2) k by linarith
    moreover have "\<not> Rendered ?q" using s(3) by simp
    ultimately show ?case using Suc(1) [of ?q "Suc m"] by metis
  qed
  from this [of req n] assms(2,3) show ?thesis by simp
qed

text \<open>Instances: a server that always answers 503, and RetryTimes 2 or -1.\<close>

definition example_503 :: http_response where
  "example_503 = (mk_response ''503 Service Unavailable'' 503 [] [])\<lparr>ContentLength := - 1\<rparr>"

definition example_q :: "unit request" where
  "example_q = plain_request (mk_request ''POST'' ''a'' ''/'' [])"

lemma example_503_facts:
  "StatusCode example_503 \<in> set (RetryHTTPCodes (example_options k))" "\<not> Rendered example_q"
  "retryCounter example_q = 0" "\<not> BodyErr example_503" "ContentLength example_503 \<le> 0"
  "RetryTimes (example_options k) = k"
  by (simp_all add: example_503_def example_options_def DefaultRetryHTTPCodes_def mk_response_def
      example_q_def plain_request_def)

theorem persistent_status_returned_witness:
  "\<exists>(r :: (unit, unit) response) req'.
     DoRequest (constant_server example_503) (example_options 2) example_q 0 = (Returned r, req', 3)
     \<and> StatusCode (Resp r) = 503"
  using persistent_status_returned [OF example_503_facts(1) [of 2] example_503_facts(2-5), of 0,
    where 'doc = unit]
  by (simp add: example_503_facts(6)) (simp add: example_503_def mk_response_def numeral_3_eq_3)

lemma example_run:
  obtains r :: "(unit, unit) response" and req' n where
    "DoRequest (constant_server example_503) (example_options (- 1)) example_q 0 = (Returned r, req', n)"
    "StatusCode (Resp r) = 503"
proof -
  have "\<exists>(r :: (unit, unit) response) req' n.
      DoRequest (constant_server example_503) (example_options (- 1)) example_q 0 = (Returned r, req', n)
      \<and> StatusCode (Resp r) = 503"
    by (subst DoRequest.simps)
      (simp add: send_def doRequestClient_def constant_server_def decode_body_def LimitReader_def
        ReadAll_def Let_def example_503_def example_q_def plain_request_def mk_response_def
        example_options_def)
  then show ?thesis using that by blast
qed

theorem retry_budget_witness:
  "\<exists>(out :: (string, (unit, unit) response) outcome) req' n.
     DoRequest (constant_server example_503) (example_options (- 1)) example_q 0 = (out, req', n) \<and> n = 1"
proof -
  obtain r :: "(unit, unit) response" and req' n where
    run: "DoRequest (constant_server example_503) (example_options (- 1)) example_q 0 = (Returned r, req', n)"
    using example_run by metis
  from retry_budget [OF run constant_server_counts] have "int n = 1"
    by (simp add: example_503_facts)
  then show ?thesis using run by auto
qed

theorem retry_outcome_witness:
  "\<exists>(out :: (string, (unit, unit) response) outcome) req' n.
     DoRequest (constant_server example_503) (example_options (- 1)) example_q 0 = (out, req', n)
     \<and> - 1 \<le> retryCounter req'"
proof -
  obtain r :: "(unit, unit) response" and req' n where
    run: "DoRequest (constant_server example_503) (example_options (- 1)) example_q 0 = (Returned r, req', n)"
    "StatusCode (Resp r) = 503"
    using example_run by metis
  from retry_outcome [OF run(1)] run(2) have "- 1 \<le> retryCounter req'"
    by (simp add: example_options_def DefaultRetryHTTPCodes_def)
  then show ?thesis using run(1) by blast
qed

theorem retries_until_done_witness:
  "\<exists>(out :: (string, (unit, unit) response) outcome) req' n k.
     DoRequest (constant_server example_503) (example_options 2) example_q 0 = (out, req', n)
     \<and> retryCounter req' = int k \<and> k \<le> 2"
proof -
  obtain out :: "(string, (unit, unit) response) outcome" and req' n where
    run: "DoRequest (constant_server example_503) (example_options 2) example_q 0 = (out, req', n)"
    by (metis surj_pair)
  from retries_until_done [OF run] run show ?thesis by (auto simp: example_503_facts)
qed

section \<open>What a retry sends\<close>

text \<open>A retry sends the same request value again, whose body the first attempt has read: if
  sending a request drains its body, every attempt after the first has an empty body.\<close>
theorem retries_send_empty_body:
  assumes "DoRequest ext opt req w = (out, req', w')" and "\<not> Rendered req"
    and "\<And>q w. ReqBody (fst (snd (http_do ext q w))) = []"
    and "\<And>q w. bodies (snd (snd (http_do ext q w))) = bodies w @ [ReqBody q]"
  shows "\<exists>n. bodies w' = bodies w @ ReqBody (HTTP req) # replicate n []"
  using assms(1,2)
proof (induction rule: DoRequest_run_induct)
  case (last req w o1 r1 w1)
  obtain res hreq w2 where run: "http_do ext (HTTP req) w = (res, hreq, w2)" by (metis surj_pair)
  have "w1 = w2" using last run
    by (auto simp: send_def doRequestClient_def Let_def split: sum.splits option.splits)
  then have "bodies w1 = bodies w @ [ReqBody (HTTP req)]" using assms(4) [of "HTTP req" w] run by simp
  then show ?case by (intro exI [of _ 0]) simp
next
  case (retry req w o1 r1 w1 out req' w')
  obtain res hreq w2 where run: "http_do ext (HTTP req) w = (res, hreq, w2)" by (metis surj_pair)
  have "w1 = w2" "HTTP r1 = hreq" "\<not> Rendered r1" using retry(1,4) run
    by (auto simp: send_def doRequestClient_def Let_def split: sum.splits option.splits)
  moreover from this retry(3) obtain n where
    "bodies w' = bodies w1 @ ReqBody hreq # replicate n []" by auto
  ultimately have "bodies w' = bodies w @ ReqBody (HTTP req) # replicate (Suc n) []"
    using assms(3) [of "HTTP req" w] assms(4) [of "HTTP req" w] run by simp
  then show ?case by blast
qed

text \<open>A network that records the bodies it is sent and answers 503.\<close>

definition recording_server :: "(string, string list, unit) external" where
  "recording_server =
     \<lparr>http_do = (\<lambda>q bs. (Inr (example_503, q), q\<lparr>ReqBody := []\<rparr>, bs @ [ReqBody q])),
      charset_Lookup = (\<lambda>e. None), charset_NewReader = (\<lambda>r ct. Inr r),
      chrome_Run = (\<lambda>a acts n. (Inl ''no chrome'', n)),
      url_Parse = (\<lambda>s. \<lparr>Scheme = ''http'', URLHost = [], Path = s, URLString = s\<rparr>)\<rparr>"

theorem retries_send_empty_body_witness:
  "\<exists>(out :: (string, (unit, unit) response) outcome) req' bs n.
     DoRequest recording_server (example_options 2)
       (plain_request ((mk_request ''POST'' ''a'' ''/'' [])\<lparr>ReqBody := ''form''\<rparr>)) [] = (out, req', bs)
     \<and> bs = ''form'' # replicate n []"
proof -
  let ?q = "plain_request ((mk_request ''POST'' ''a'' ''/'' [])\<lparr>ReqBody := ''form''\<rparr>)"
  obtain out :: "(string, (unit, unit) response) outcome" and req' bs where
    run: "DoRequest recording_server (example_options 2) ?q [] = (out, req', bs)" by (metis surj_pair)
  from retries_send_empty_body [OF run, of "\<lambda>bs. bs"] obtain n where "bs = ''form'' # replicate n []"
    by (auto simp: recording_server_def plain_request_def)
  then show ?thesis using run by blast
qed

section \<open>Reading the response\<close>

text \<open>A plain response whose body is not decoded (a HEAD answer, one of unknown length as with
  chunked or compressed bodies, or detection off and no encoding given) is returned with the
  first MaxBodySize bytes of its body, and fails only if reading those bytes fails.\<close>
theorem body_read_up_to_limit:
  assumes "http_do ext (HTTP req) w = (Inr (resp, answered), hreq, w')"
    and "Method answered = ''HEAD'' \<or> ContentLength resp \<le> 0
      \<or> Encoding req = [] \<and> CharsetDetectDisabled opt"
  shows "doRequestClient ext opt req w =
    ((if BodyErr resp \<and> int (length (Body resp)) < MaxBodySize opt then Failed ReadingBody
      else Returned \<lparr>Resp = resp, RBody = take (nat (MaxBodySize opt)) (Body resp), HTMLDoc = None,
             Req = req\<lparr>HTTP := hreq\<rparr>\<rparr>),
     req\<lparr>HTTP := hreq\<rparr>, w')"
  using assms by (auto simp: doRequestClient_def decode_body_def LimitReader_def ReadAll_def Let_def)

theorem body_read_up_to_limit_witness:
  "fst (doRequestClient (constant_server (mk_response ''200 OK'' 200 [] ''0123456789abc''))
     (example_options 0) example_q 0) =
   Returned \<lparr>Resp = mk_response ''200 OK'' 200 [] ''0123456789abc'', RBody = ''0123456789'',
     HTMLDoc = None :: unit option, Req = example_q\<rparr>"
proof -
  let ?r = "mk_response ''200 OK'' 200 [] ''0123456789abc''"
  have run: "http_do (constant_server ?r :: (string, nat, unit) external) (HTTP example_q) 0 =
      (Inr (?r, HTTP example_q), (HTTP example_q)\<lparr>ReqBody := []\<rparr>, 1)"
    by (simp add: constant_server_def)
  show ?thesis
    by (subst body_read_up_to_limit [OF run])
      (simp_all add: example_options_def example_q_def plain_request_def mk_request_def)
qed

section \<open>Headers and maps\<close>

text \<open>ConvertHeaderToMap, which gives Chrome its extra headers, keeps one value per header, the
  last one; other values of a header are lost, and a header without values has no entry.\<close>
theorem header_to_map_keeps_last:
  assumes "wf_map h"
  shows "map_of (ConvertHeaderToMap h) k =
    (if header_values h k \<noteq> [] then Some (last (header_values h k)) else None)"
  using ConvertHeaderToMap_gen [OF assms, of "[]" k] by (simp add: ConvertHeaderToMap_def)

theorem header_to_map_keeps_last_witness:
  "map_of (ConvertHeaderToMap [(''Accept'', [''a'', ''b''])]) ''Accept'' = Some ''b''"
  using header_to_map_keeps_last [of "[(''Accept'', [''a'', ''b''])]" "''Accept''"]
  by (simp add: wf_map_def header_values_def)

lemma wf_ConvertHeaderToMap: "wf_map (ConvertHeaderToMap h)"
proof -
  have inner: "wf_map m \<Longrightarrow> wf_map (foldl (\<lambda>m v. AList.update k v m) m vs)" for k m and vs :: "string list"
    by (induction vs arbitrary: m) (simp_all add: wf_map_update)
  have "wf_map m \<Longrightarrow> wf_map (foldl (\<lambda>m (k, vs). foldl (\<lambda>m v. AList.update k v m) m vs) m h)" for m
  proof (induction h arbitrary: m)
    case (Cons e h)
    obtain k vs where e: "e = (k, vs)" by force
    show ?case using Cons.IH [OF inner [OF Cons.prems]] by (simp add: e)
  qed simp
  then show ?thesis by (simp add: ConvertHeaderToMap_def)
qed

lemma ConvertMapToHeader_strings:
  "wf_map m \<Longrightarrow> \<forall>kv\<in>set m. CanonicalHeaderKey (fst kv) = fst kv \<Longrightarrow>
   \<exists>h. ConvertMapToHeader_from g (map (\<lambda>(k, v). (k, IString v)) m) = Some h \<and>
     (\<forall>k. map_of h k = (case map_of m k of Some v \<Rightarrow> Some [v] | None \<Rightarrow> map_of g k))"
proof (induction m arbitrary: g)
  case Nil
  then show ?case by simp
next
  case (Cons e m)
  obtain k0 v0 where e: "e = (k0, v0)" by force
  have wf: "wf_map m" and fresh: "map_of m k0 = None" and k0: "CanonicalHeaderKey k0 = k0"
    using Cons.prems by (auto simp: wf_map_def e map_of_eq_None_iff)
  obtain h where h: "ConvertMapToHeader_from (header_set g k0 v0) (map (\<lambda>(k, v). (k, IString v)) m) = Some h"
    "\<forall>k. map_of h k = (case map_of m k of Some v \<Rightarrow> Some [v] | None \<Rightarrow> map_of (header_set g k0 v0) k)"
    using Cons.IH [OF wf, of "header_set g k0 v0"] Cons.prems(2) by (auto simp: e)
  then show ?case using fresh k0 by (auto simp: e split: option.splits)
qed

text \<open>The two conversions are inverse on a header whose entries have one value each:
  ConvertMapToHeader gives back the header ConvertHeaderToMap was given.\<close>
theorem header_map_roundtrip:
  assumes "wf_header h" and "\<forall>k vs. map_of h k = Some vs \<longrightarrow> length vs = 1"
  shows "\<exists>h'. ConvertMapToHeader (map (\<lambda>(k, v). (k, IString v)) (ConvertHeaderToMap h)) = Some h'
    \<and> map_of h' = map_of h"
proof -
  have wf: "wf_map h" using assms(1) by (simp add: wf_header_def)
  let ?m = "ConvertHeaderToMap h"
  have look: "map_of ?m k = (if header_values h k \<noteq> [] then Some (last (header_values h k)) else None)" for k
    using ConvertHeaderToMap_gen [OF wf, of "[]" k] by (simp add: ConvertHeaderToMap_def)
  have "CanonicalHeaderKey k = k" if "(k, v) \<in> set ?m" for k v
  proof -
    have "map_of ?m k = Some v" using that wf_ConvertHeaderToMap by (simp add: wf_map_Some_iff)
    then have "k \<in> dom (map_of h)" using look [of k]
      by (auto simp: header_values_def split: if_splits option.splits)
    then show ?thesis using assms(1) by (auto simp: wf_header_iff)
  qed
  then have "\<forall>kv\<in>set ?m. CanonicalHeaderKey (fst kv) = fst kv" by auto
  from ConvertMapToHeader_strings [of ?m "[]", OF wf_ConvertHeaderToMap this] obtain h' where
    h': "ConvertMapToHeader (map (\<lambda>(k, v). (k, IString v)) ?m) = Some h'"
    "\<forall>k. map_of h' k = (case map_of ?m k of Some v \<Rightarrow> Some [v] | None \<Rightarrow> map_of [] k)"
    by (auto simp: ConvertMapToHeader_def)
  have "[last vs] = vs" if "map_of h k = Some vs" for k vs
  proof -
    have "length vs = 1" using assms(2) that by blast
    then show ?thesis by (cases vs) auto
  qed
  then have "map_of h' k = map_of h k" for k
    using assms(2) h'(2) look [of k] by (cases "map_of h k") (auto simp: header_values_def)
  with h'(1) show ?thesis by blast
qed

theorem header_map_roundtrip_witness:
  "\<exists>h'. ConvertMapToHeader (map (\<lambda>(k, v). (k, IString v)) (ConvertHeaderToMap [(''Accept'', [''a''])])) = Some h'
    \<and> map_of h' = map_of [(''Accept'', [''a''])]"
proof (rule header_map_roundtrip)
  have "CanonicalHeaderKey ''Accept'' = ''Accept''" by code_simp
  then show "wf_header [(''Accept'', [''a''])]" by (simp add: wf_header_def wf_map_def)
qed simp

section \<open>The redirect limit\<close>

text \<open>
  How \<open>http.Client\<close> applies \<open>CheckRedirect\<close> to a chain of redirects: the first request is
  made, and each later one if the handler allows it after the requests made so far.
\<close>

fun follow :: "(http_request list \<Rightarrow> string option) \<Rightarrow> http_request list \<Rightarrow> http_request list \<Rightarrow>
  http_request list \<times> string option" where
  "follow check via [] = (via, None)"
| "follow check via (q # qs) =
     (if via = [] then follow check [q] qs
      else (case check via of Some err \<Rightarrow> (via, Some err) | None \<Rightarrow> follow check (via @ [q]) qs))"

lemma follow_limit:
  assumes "via \<noteq> []" and "int (length via) \<le> max 1 n"
  shows "fst (follow (NewRedirectionHandler n) via qs) =
      via @ take (nat (max 1 n) - length via) qs
    \<and> (snd (follow (NewRedirectionHandler n) via qs) = None \<longleftrightarrow>
        length via + length qs \<le> nat (max 1 n))"
  using assms
proof (induction qs arbitrary: via)
  case Nil
  then show ?case by simp
next
  case (Cons q qs)
  show ?case
  proof (cases "n \<le> int (length via)")
    case True
    then have "nat (max 1 n) = length via" using Cons.prems by (cases via) auto
    then show ?thesis using True Cons.prems by (simp add: NewRedirectionHandler_def)
  next
    case False
    then have "int (length (via @ [q])) \<le> max 1 n" by simp
    with Cons.IH [of "via @ [q]"] have IH:
      "fst (follow (NewRedirectionHandler n) (via @ [q]) qs) =
         (via @ [q]) @ take (nat (max 1 n) - length (via @ [q])) qs"
      "snd (follow (NewRedirectionHandler n) (via @ [q]) qs) = None \<longleftrightarrow>
        length (via @ [q]) + length qs \<le> nat (max 1 n)" by auto
    have "nat (max 1 n) - length via = Suc (nat (max 1 n) - length (via @ [q]))"
      using False by simp
    then show ?thesis using IH False Cons.prems by (simp add: NewRedirectionHandler_def [of n via])
  qed
qed

text \<open>With a limit n, a chain of requests linked by redirects is cut after n requests, that is
  after n - 1 redirects; a limit of 1, 0 or below follows no redirect. The handler reports
  an error exactly when the chain is longer.\<close>
theorem redirect_limit:
  "fst (follow (NewRedirectionHandler n) [] qs) = take (nat (max 1 n)) qs
   \<and> (snd (follow (NewRedirectionHandler n) [] qs) = None \<longleftrightarrow> length qs \<le> nat (max 1 n))"
proof (cases qs)
  case (Cons q rest)
  obtain m where m: "nat (max 1 n) = Suc m" by (metis Suc_pred' nat_0_less_mult_iff max.strict_coboundedI1
        zero_less_nat_eq zero_less_one)
  have "int (length [q]) \<le> max 1 n" by simp
  with follow_limit [of "[q]" n rest] show ?thesis unfolding Cons m by simp
qed simp

section \<open>The rotating proxy\<close>

lemma word_index: "unat ((w :: 32 word) + of_nat i) = (unat w + i) mod 2 ^ 32"
  by (simp add: unat_word_ariths unat_of_nat mod_add_right_eq)

lemma GetProxies_gen:
  assumes "us \<noteq> []" and "length us < 2 ^ 32"
  shows "fst (GetProxies n \<lparr>proxyURLs = us, index = w\<rparr>) =
      map (\<lambda>i. us ! ((unat w + i) mod 2 ^ 32 mod length us)) [0..<n]"
proof (induction n arbitrary: w)
  case 0
  then show ?case by simp
next
  case (Suc n)
  have "unat (of_nat (length us) :: 32 word) = length us"
    using assms(2) by (simp add: unat_of_nat)
  then have "unat (w mod of_nat (length us)) = unat w mod length us"
    by (simp add: unat_mod)
  moreover have "unat w mod 2 ^ 32 = unat w"
    using unsigned_less [of w, where 'a = nat] by simp
  moreover have "(unat (w + 1) + i) mod 2 ^ 32 = (unat w + Suc i) mod 2 ^ 32" for i
    using word_index [of w 1] by (simp add: mod_add_left_eq)
  ultimately show ?case
    using Suc [of "w + 1"]
    by (simp add: GetProxy_def Let_def upt_conv_Cons map_Suc_upt [symmetric] comp_def
        case_prod_beta del: upt_Suc)
qed

text \<open>C20: the i-th request gets proxy number i mod 2^32 mod n of the n proxies: the rotation is fair
  round by round, and starts again at the first proxy when the 32-bit index overflows.\<close>
theorem proxies_rotate:
  assumes "RoundRobinProxy parse urls = RoundRobin r" and "length urls < 2 ^ 32"
  shows "fst (GetProxies n r) =
    map (\<lambda>i. proxyURLs r ! (i mod 2 ^ 32 mod length urls)) [0..<n]"
proof -
  have len: "parse_all parse us = Some ps \<Longrightarrow> length ps = length us" for us ps
    by (induction us arbitrary: ps) (auto split: sum.splits)
  from assms(1) obtain ps where ps: "parse_all parse urls = Some ps" "urls \<noteq> []"
    "r = \<lparr>proxyURLs = ps, index = 0\<rparr>"
    by (auto simp: RoundRobinProxy_def split: if_splits option.splits)
  then have "length ps = length urls" "ps \<noteq> []" using len [OF ps(1)] by auto
  then show ?thesis using GetProxies_gen [of ps n 0] assms(2) ps(3) by simp
qed

theorem proxies_rotate_witness:
  "map URLString (fst (GetProxies 3 \<lparr>proxyURLs =
      [\<lparr>Scheme = ''http'', URLHost = ''a'', Path = [], URLString = ''a''\<rparr>,
       \<lparr>Scheme = ''http'', URLHost = ''b'', Path = [], URLString = ''b''\<rparr>], index = 0\<rparr>)) =
   [''a'', ''b'', ''a'']"
proof -
  let ?p = "\<lambda>s. Inr \<lparr>Scheme = ''http'', URLHost = s, Path = [], URLString = s\<rparr> :: string + url"
  have "RoundRobinProxy ?p [''a'', ''b''] = RoundRobin \<lparr>proxyURLs =
      [\<lparr>Scheme = ''http'', URLHost = ''a'', Path = [], URLString = ''a''\<rparr>,
       \<lparr>Scheme = ''http'', URLHost = ''b'', Path = [], URLString = ''b''\<rparr>], index = 0\<rparr>"
    by (simp add: RoundRobinProxy_def)
  from proxies_rotate [OF this, of 3] show ?thesis by (simp add: upt_conv_Cons)
qed

end
