(* ===== verification/Middleware_Laws.thy ===== *)
theory Middleware_Laws
  imports Middleware Client_Laws
begin

text \<open>Properties of the middlewares: which requests pass, what they are given, what is counted.\<close>

section \<open>A middleware over a sequence of requests\<close>

text \<open>Requests in the order in which the middleware handles them; \<open>True\<close> for one it cancelled.\<close>

fun run_all :: "('act, 'rd, 'w) req_middleware \<Rightarrow> 'act request list \<Rightarrow> ('rd, 'w) mw_state \<Rightarrow>
  bool list \<times> ('rd, 'w) mw_state" where
  "run_all mw [] s = ([], s)"
| "run_all mw (r # rs) s =
     (let (p, r', s') = mw r s; (cs, s'') = run_all mw rs s' in (Cancelled r' # cs, s''))"

lemma length_run_all [simp]: "length (fst (run_all mw rs s)) = length rs"
  by (induction rs arbitrary: s) (simp_all add: Let_def split: prod.split, metis fst_conv)

lemma emit_sel [simp]:
  "domainsLogged (emit e s) = domainsLogged s" "visitedURLs (emit e s) = visitedURLs s"
  "visitedLogged (emit e s) = visitedLogged s" "robotsMap (emit e s) = robotsMap s"
  "world (emit e s) = world s" "trace (emit e s) = trace s @ [e]"
  by (simp_all add: emit_def)

lemma Cancel_sel [simp]: "Cancelled (Cancel r)" "HTTP (Cancel r) = HTTP r"
  by (simp_all add: Cancel_def)

section \<open>Allowed domains, duplicates\<close>

abbreviation is_GET :: "'act request \<Rightarrow> bool" where
  "is_GET r \<equiv> Method (HTTP r) = ''GET''"

abbreviation url_of :: "'act request \<Rightarrow> string" where
  "url_of r \<equiv> URLString (URL (HTTP r))"

lemma duplicate_step:
  "DuplicateRequests_ProcessRequest False r s =
     (let dup = is_GET r \<and> url_of r \<in> set (visitedURLs s)
      in (False, if dup then Cancel r else r, snd (snd (DuplicateRequests_ProcessRequest False r s))))"
  "set (visitedURLs (snd (snd (DuplicateRequests_ProcessRequest False r s)))) =
     (if is_GET r then insert (url_of r) (set (visitedURLs s)) else set (visitedURLs s))"
  by (auto simp: DuplicateRequests_ProcessRequest_def LoadOrStore_def Let_def)

lemma duplicate_gen:
  "i < length rs \<Longrightarrow>
   fst (run_all (DuplicateRequests_ProcessRequest False) rs s) ! i =
     (Cancelled (rs ! i) \<or> is_GET (rs ! i) \<and>
        (url_of (rs ! i) \<in> set (visitedURLs s) \<or>
         (\<exists>j<i. is_GET (rs ! j) \<and> url_of (rs ! j) = url_of (rs ! i))))"
proof (induction rs arbitrary: s i)
  case Nil
  then show ?case by simp
next
  case (Cons r rs)
  obtain p r' s' where st: "DuplicateRequests_ProcessRequest False r s = (p, r', s')" by (metis surj_pair)
  have r': "Cancelled r' = (Cancelled r \<or> is_GET r \<and> url_of r \<in> set (visitedURLs s))"
    using duplicate_step(1) [of r s] st by (auto simp: Let_def split: if_splits)
  have s': "set (visitedURLs s') =
      (if is_GET r then insert (url_of r) (set (visitedURLs s)) else set (visitedURLs s))"
    using duplicate_step(2) [of r s] st by simp
  show ?case
  proof (cases i)
    case 0
    then show ?thesis using st r' by (simp add: Let_def case_prod_beta)
  next
    case (Suc k)
    have "(\<exists>j<Suc k. is_GET ((r # rs) ! j) \<and> url_of ((r # rs) ! j) = url_of (rs ! k)) \<longleftrightarrow>
        is_GET r \<and> url_of r = url_of (rs ! k) \<or>
        (\<exists>j<k. is_GET (rs ! j) \<and> url_of (rs ! j) = url_of (rs ! k))"
      using less_Suc_eq_0_disj by auto
    then show ?thesis
      using st Cons.IH [of k s'] Cons.prems Suc s' by (auto simp: Let_def case_prod_beta)
  qed
qed

text \<open>C21: without revisits, of all GET requests for one URL exactly the first to be handled passes,
  and every later one is cancelled; requests with other methods are never cancelled.\<close>
theorem each_URL_once:
  assumes "i < length rs" and "\<not> Cancelled (rs ! i)"
  shows "fst (run_all (DuplicateRequests_ProcessRequest False) rs (mw_init w)) ! i \<longleftrightarrow>
    is_GET (rs ! i) \<and> (\<exists>j<i. is_GET (rs ! j) \<and> url_of (rs ! j) = url_of (rs ! i))"
  using duplicate_gen [OF assms(1), of "mw_init w"] assms(2) by (simp add: mw_init_def)

definition example_visit :: "string \<Rightarrow> string \<Rightarrow> unit request" where
  "example_visit m p = \<lparr>HTTP = mk_request m ''a'' p [], Meta = [], Synchronized = False,
     Rendered = False, Encoding = [], Cancelled = False, Actions = [], retryCounter = 0\<rparr>"

theorem each_URL_once_witness:
  "fst (run_all (DuplicateRequests_ProcessRequest False)
      [example_visit ''GET'' ''/'', example_visit ''POST'' ''/'', example_visit ''GET'' ''/''] (mw_init ())) ! 2"
  by (subst each_URL_once) (auto simp: example_visit_def intro!: exI [of _ 0])

lemma allowed_step:
  "fst (snd (AllowedDomains_ProcessRequest allowed r s)) =
     (if allowed \<noteq> [] \<and> RHost (HTTP r) \<notin> set allowed then Cancel r else r)"
  by (simp add: AllowedDomains_ProcessRequest_def Let_def split: prod.split)

definition domain_line :: "string \<Rightarrow> event" where
  "domain_line h = Log (''Domain not allowed: '' @ h)"

lemma allowed_inv:
  assumes "trace s = map domain_line (rev (domainsLogged s))" and "distinct (domainsLogged s)"
    and "AllowedDomains_ProcessRequest allowed r s = (p, r', s')"
  shows "trace s' = map domain_line (rev (domainsLogged s'))" "distinct (domainsLogged s')"
  using assms
  by (auto simp: AllowedDomains_ProcessRequest_def LoadOrStore_def Let_def domain_line_def
      split: if_splits)

lemma allowed_gen:
  assumes "trace s = map domain_line (rev (domainsLogged s))" and "distinct (domainsLogged s)"
  shows "fst (run_all (AllowedDomains_ProcessRequest allowed) rs s) =
      map (\<lambda>r. Cancelled r \<or> allowed \<noteq> [] \<and> RHost (HTTP r) \<notin> set allowed) rs
    \<and> distinct (trace (snd (run_all (AllowedDomains_ProcessRequest allowed) rs s)))"
  using assms
proof (induction rs arbitrary: s)
  case Nil
  then show ?case by (simp add: distinct_map inj_on_def domain_line_def)
next
  case (Cons r rs)
  obtain p r' s' where st: "AllowedDomains_ProcessRequest allowed r s = (p, r', s')" by (metis surj_pair)
  have "r' = (if allowed \<noteq> [] \<and> RHost (HTTP r) \<notin> set allowed then Cancel r else r)"
    using allowed_step [of allowed r s] st by simp
  then show ?case
    using st Cons.IH [OF allowed_inv [OF Cons.prems st]]
    by (auto simp: Let_def case_prod_beta)
qed

text \<open>A request passes AllowedDomains exactly if the list is empty or has its host, literally;
  and over any run a refused host is logged once.\<close>
theorem allowed_domains_filter:
  "case run_all (AllowedDomains_ProcessRequest allowed) rs (mw_init w) of (cancelled, s) \<Rightarrow>
     cancelled = map (\<lambda>r. Cancelled r \<or> allowed \<noteq> [] \<and> RHost (HTTP r) \<notin> set allowed) rs
     \<and> distinct (trace s)"
  using allowed_gen [of "mw_init w" allowed rs] by (simp add: mw_init_def case_prod_beta)

section \<open>Default headers\<close>

lemma set_default_get:
  "header_get (ReqHeader (HTTP (set_default k v r))) k' =
     (if CanonicalHeaderKey k' = CanonicalHeaderKey k \<and> header_get (ReqHeader (HTTP r)) k = [] then v
      else header_get (ReqHeader (HTTP r)) k')"
  by (simp add: set_default_def SetDefaultHeader_get)

lemma default_header_names:
  "CanonicalHeaderKey ''Accept'' = ''Accept''" "CanonicalHeaderKey ''Accept-Charset'' = ''Accept-Charset''"
  "CanonicalHeaderKey ''Accept-Language'' = ''Accept-Language''"
  "CanonicalHeaderKey ''User-Agent'' = ''User-Agent''"
  by code_simp+

text \<open>The header names and defaults of the Headers middleware.\<close>

definition default_headers :: "string \<Rightarrow> (string \<times> string) list" where
  "default_headers userAgent =
     [(''Accept'', ''text/html,application/xhtml+xml,application/xml;q=0.9,*/*;q=0.8''),
      (''Accept-Charset'', ''utf-8''), (''Accept-Language'', ''en''), (''User-Agent'', userAgent)]"

text \<open>After Headers every header of the request reads as before, except that the four default
  headers the request has no value for read as their defaults.\<close>
theorem default_headers_added:
  "header_get (ReqHeader (HTTP (fst (snd (Headers_ProcessRequest userAgent r s))))) k =
    (case map_of (default_headers userAgent) (CanonicalHeaderKey k) of
       Some v \<Rightarrow> (if header_get (ReqHeader (HTTP r)) k = [] then v else header_get (ReqHeader (HTTP r)) k)
     | None \<Rightarrow> header_get (ReqHeader (HTTP r)) k)"
proof -
  let ?h = "ReqHeader (HTTP r)"
  have "header_get ?h k = header_get ?h (CanonicalHeaderKey k)" by simp
  then show ?thesis
    by (auto simp: Headers_ProcessRequest_def Let_def set_default_get default_headers_def
        default_header_names simp del: header_get_canonical)
qed

section \<open>The delay\<close>

lemma bitlen_unfold: "0 < n \<Longrightarrow> bitlen n = Suc (bitlen (n div 2))"
  by (subst bitlen.simps) simp

lemma bitlen_double: "0 < n \<Longrightarrow> bitlen (n * 2 ^ k) = bitlen n + k"
proof (induction k)
  case (Suc k)
  then show ?case by (subst bitlen_unfold) (simp_all add: mult.assoc [symmetric])
qed simp

lemma bitlen_pow2: "bitlen (2 ^ k) = Suc k"
  using bitlen_double [of 1 k] by (simp add: bitlen_unfold bitlen.simps [of 0])

lemma bitlen_le: "n < 2 ^ k \<Longrightarrow> bitlen n \<le> k"
proof (induction k arbitrary: n)
  case 0
  then show ?case by (simp add: bitlen.simps)
next
  case (Suc k)
  then show ?case using Suc.IH [of "n div 2"] by (subst bitlen.simps) auto
qed

text \<open>A number with at most 53 significant bits is a \<open>float64\<close>: the operations on it are exact.\<close>

lemma fl64_pow2:
  "a \<noteq> 0 \<Longrightarrow> fl64 a (2 ^ k) =
     (let drop = bitlen (a * 2 ^ (54 + Suc k) div 2 ^ k) - 53
      in (round_half_even (a * 2 ^ (54 + Suc k)) (2 ^ k * 2 ^ drop) * 2 ^ drop, 2 ^ (54 + Suc k)))"
  unfolding fl64_def Let_def bitlen_pow2 by (simp only: if_False)

lemma fl64_exact:
  assumes "0 < d" and "bitlen d \<le> 53"
  shows "\<exists>i s. fl64 (d * 2 ^ j) (2 ^ k) = (d * 2 ^ i, 2 ^ s) \<and> i + k = j + s"
proof -
  have nz: "d * 2 ^ j \<noteq> 0" using assms(1) by simp
  let ?s = "54 + Suc k"
  let ?e = "j + 55"
  have q: "d * 2 ^ j * 2 ^ ?s div 2 ^ k = d * 2 ^ ?e"
    by (simp add: power_add mult.assoc [symmetric])
  let ?drop = "bitlen d + ?e - 53"
  have le: "?drop \<le> ?e" using assms(2) by simp
  have split: "(2 :: int) ^ ?e = 2 ^ (?e - ?drop) * 2 ^ ?drop"
    by (metis le le_add_diff_inverse2 power_add)
  have num: "d * 2 ^ j * 2 ^ ?s = d * 2 ^ (?e - ?drop) * (2 ^ k * 2 ^ ?drop)"
  proof -
    have "d * 2 ^ j * 2 ^ ?s = d * 2 ^ ?e * 2 ^ k" by (simp add: power_add mult.assoc [symmetric])
    then show ?thesis by (simp only: split) (simp add: ac_simps)
  qed
  have "round_half_even (d * 2 ^ j * 2 ^ ?s) (2 ^ k * 2 ^ ?drop) = d * 2 ^ (?e - ?drop)"
    unfolding num by (simp add: round_half_even_def Let_def)
  moreover have "d * 2 ^ (?e - ?drop) * 2 ^ ?drop = d * 2 ^ ?e" by (simp only: split mult.assoc)
  moreover have "bitlen (d * 2 ^ j * 2 ^ ?s div 2 ^ k) - 53 = ?drop"
    unfolding q using bitlen_double [OF assms(1), of ?e] by simp
  ultimately have "fl64 (d * 2 ^ j) (2 ^ k) = (d * 2 ^ ?e, 2 ^ ?s)"
    by (simp only: fl64_pow2 [OF nz] Let_def)
  then show ?thesis by (intro exI [of _ ?e] exI [of _ ?s]) simp
qed

lemma delay_bounds_exact:
  assumes "0 < d" and "d < 2 ^ 51"
  shows "delay_bounds d = (d, d div 2)"
proof -
  have bits: "bitlen d \<le> 53" "bitlen (3 * d) \<le> 53"
    using assms(2) by (auto intro!: bitlen_le)
  obtain i s where a: "fl64 d 1 = (d * 2 ^ i, 2 ^ s)" "i = s"
    using fl64_exact [OF assms(1) bits(1), of 0 0] by auto
  obtain i1 s1 where lo: "fl64 (d * 2 ^ i) (2 ^ Suc s) = (d * 2 ^ i1, 2 ^ s1)" "i1 + Suc s = i + s1"
    using fl64_exact [OF assms(1) bits(1), of i "Suc s"] by blast
  have "0 < 3 * d" using assms(1) by simp
  then obtain i2 s2 where
    hi: "fl64 (3 * d * 2 ^ i) (2 ^ Suc s) = (3 * d * 2 ^ i2, 2 ^ s2)" "i2 + Suc s = i + s2"
    using fl64_exact [OF _ bits(2), of i "Suc s"] by blast
  have s1: "s1 = Suc i1" and s2: "s2 = Suc i2" using lo(2) hi(2) a(2) by simp_all
  have "3 * d * 2 ^ i2 * 2 ^ s1 - d * 2 ^ i1 * 2 ^ s2 = d * 2 ^ (i1 + i2 + 2)"
    by (simp add: s1 s2 power_add algebra_simps)
  then have sub: "fl64_sub (3 * d * 2 ^ i2, 2 ^ s2) (d * 2 ^ i1, 2 ^ s1) =
      fl64 (d * 2 ^ (i1 + i2 + 2)) (2 ^ (i1 + i2 + 2))"
    by (simp add: fl64_sub_def s1 s2 power_add ac_simps)
  obtain i3 s3 where w: "fl64 (d * 2 ^ (i1 + i2 + 2)) (2 ^ (i1 + i2 + 2)) = (d * 2 ^ i3, 2 ^ s3)" "i3 = s3"
    using fl64_exact [OF assms(1) bits(1), of "i1 + i2 + 2" "i1 + i2 + 2"] by auto
  have "fl64_trunc (d * 2 ^ i1, 2 ^ s1) = d div 2"
    by (simp add: fl64_trunc_def s1 div_mult_mult2)
  moreover have "fl64_trunc (d * 2 ^ i3, 2 ^ s3) = d" by (simp add: fl64_trunc_def w(2))
  moreover have "fl64_mult (fl64 d 1) (1, 2) = (d * 2 ^ i1, 2 ^ s1)"
    using lo(1) by (simp add: fl64_mult_def a(1) mult.commute)
  moreover have "fl64_mult (fl64 d 1) (3, 2) = (3 * d * 2 ^ i2, 2 ^ s2)"
    using hi(1) by (simp add: fl64_mult_def a(1) ac_simps)
  ultimately show ?thesis unfolding delay_bounds_def Let_def by (simp only: sub w(1))
qed

text \<open>A randomized delay d of up to about 26 days pauses at least d / 2 (rounded down) and less
  than 3 d / 2 nanoseconds, and lets the request go on.\<close>
theorem random_delay_bounds:
  assumes "0 < d" and "d < 2 ^ 51" and "\<And>n. 0 < n \<Longrightarrow> 0 \<le> intn n \<and> intn n < n"
  shows "\<exists>p. Delay_ProcessRequest (NewDelay True d) intn r s = (False, r, emit (Sleep p) s)
    \<and> d div 2 \<le> p \<and> 2 * p < 3 * d"
  using assms(3) [OF assms(1)]
  by (auto simp: Delay_ProcessRequest_def NewDelay_def delay_bounds_exact [OF assms(1,2)])

theorem random_delay_bounds_witness:
  "\<exists>p. Delay_ProcessRequest (NewDelay True 1000000000) (\<lambda>n. n - 1) (example_visit ''GET'' ''/'')
      (mw_init () :: (unit, unit) mw_state) =
        (False, example_visit ''GET'' ''/'', emit (Sleep p) (mw_init ()))
    \<and> 500000000 \<le> p \<and> 2 * p < 3000000000"
  using random_delay_bounds [of 1000000000 "\<lambda>n. n - 1" "example_visit ''GET'' ''/''"
      "mw_init () :: (unit, unit) mw_state"] by simp

text \<open>RequestDelayRandomize without a RequestDelay makes every request panic: the width of the
  interval is 0, which rand.Intn rejects.\<close>
theorem random_delay_zero_panics:
  "Delay_ProcessRequest (NewDelay True 0) intn r s = (True, r, s)"
proof -
  have "delay_bounds 0 = (0, 0)" by code_simp
  then show ?thesis by (simp add: Delay_ProcessRequest_def NewDelay_def)
qed

section \<open>Robots\<close>

lemma fetch_robots_cases:
  "fetch_robots c m r s = (found, s') \<Longrightarrow>
   (\<exists>d. found = Rules d \<and> map_of (robotsMap s') (RHost (HTTP r)) = Some d) \<or>
   (\<forall>d. found \<noteq> Rules d) \<and> robotsMap s' = robotsMap s"
  by (auto simp: fetch_robots_def Let_def split: sum.splits prod.splits outcome.splits option.splits)

text \<open>The rules of a host that was fetched once are used without asking the network again: the
  request is cancelled exactly if they forbid its path to its user agent, and the world is
  left alone.\<close>
theorem known_rules_decide:
  assumes "map_of (robotsMap s) (RHost (HTTP r)) = Some rules" and "\<not> robotsDisabled c"
    and "\<not> Cancelled r"
  shows "\<exists>r' s'. RobotsTxt_ProcessRequest c m r s = (False, r', s')
    \<and> (Cancelled r' \<longleftrightarrow> \<not> test_agent c rules (Path (URL (HTTP r))) (UserAgent_of r))
    \<and> world s' = world s \<and> robotsMap s' = robotsMap s"
  using assms by (auto simp: RobotsTxt_ProcessRequest_def Let_def)

text \<open>Robots rules fail open: when no rules can be had for the host, because the robots.txt URL
  is not valid, the request fails or its answer does not parse, the request is not cancelled,
  and nothing is remembered, so the next request for the host fetches again.\<close>
theorem robots_fail_open:
  assumes "map_of (robotsMap s) (RHost (HTTP r)) = None"
    and "fetch_robots c m r s = (NoRules, s')"
  shows "RobotsTxt_ProcessRequest c m r s = (False, r, if robotsDisabled c then s else s')
    \<and> robotsMap s' = robotsMap s"
  using assms fetch_robots_cases [OF assms(2)] by (auto simp: RobotsTxt_ProcessRequest_def)

text \<open>Rules that were fetched are kept: after a request for which rules were found, the rules of
  its host are in the map, and the rules of every other host are what they were.\<close>
theorem fetched_rules_kept:
  assumes "fetch_robots c m r s = (Rules rules, s')"
  shows "map_of (robotsMap s') h = (if h = RHost (HTTP r) then Some rules else map_of (robotsMap s) h)"
  using assms
  by (auto simp: fetch_robots_def Let_def split: sum.splits prod.splits outcome.splits option.splits)

text \<open>An instance: rules that are just an answer, a client whose server is always the same.\<close>

definition example_robots :: "http_response \<Rightarrow> (string, nat, unit, unit, bool) robots_config" where
  "example_robots resp = \<lparr>robotsDisabled = False,
     robots_client = (constant_server resp, example_options 0),
     http_NewRequest = (\<lambda>m u b. Inr (mk_request m ''a'' u [])),
     from_status = (\<lambda>code body. if code = 200 then Some (body \<noteq> ''Disallow: '') else None),
     test_agent = (\<lambda>rules path agent. rules)\<rparr>"

definition no_metrics :: metrics where
  "no_metrics = \<lparr>RequestCounter = DiscardCounter, ResponseCounter = DiscardCounter,
     PanicCounter = DiscardCounter, RobotsTxtRequestCounter = DiscardCounter,
     RobotsTxtResponseCounter = DiscardCounter, RobotsTxtForbiddenCounter = DiscardCounter\<rparr>"

theorem known_rules_decide_witness:
  "\<exists>r' s'. RobotsTxt_ProcessRequest (example_robots example_503) no_metrics (example_visit ''GET'' ''/'')
      ((mw_init 0)\<lparr>robotsMap := [(''a'', False)]\<rparr>) = (False, r', s') \<and> Cancelled r' \<and> world s' = 0"
  using known_rules_decide [of "(mw_init 0)\<lparr>robotsMap := [(''a'', False)]\<rparr>" "example_visit ''GET'' ''/''"
      False "example_robots example_503" no_metrics]
  by (auto simp: example_visit_def example_robots_def mw_init_def)

lemma DoRequest_no_retry:
  assumes "RetryTimes opt \<le> retryCounter req"
  shows "(DoRequest ext opt req w :: ('e, ('act, 'doc) response) outcome \<times> _) = send ext opt req w"
proof -
  obtain o1 :: "('e, ('act, 'doc) response) outcome" and r1 w1 where s: "send ext opt req w = (o1, r1, w1)" by (metis surj_pair)
  show ?thesis using DoRequest_step [OF s] send_retryCounter [OF s] assms s by (simp add: retries_def)
qed

lemma example_fetch:
  "\<not> BodyErr resp \<Longrightarrow>
   \<exists>s'. fetch_robots (example_robots resp) no_metrics (example_visit ''GET'' ''/'') (mw_init 0) =
     (if StatusCode resp = 200 then Rules (take 10 (Body resp) \<noteq> ''Disallow: '') else NoRules, s')"
  by (simp add: fetch_robots_def example_robots_def NewRequest_def emit_def mw_init_def
      example_options_def DoRequest_no_retry send_def doRequestClient_def constant_server_def
      decode_body_def LimitReader_def ReadAll_def Let_def)

lemma example_robots_host:
  "map_of (robotsMap (mw_init 0)) (RHost (HTTP (example_visit ''GET'' ''/''))) = None"
  by (simp add: mw_init_def)

theorem robots_fail_open_witness:
  "\<exists>s'. RobotsTxt_ProcessRequest (example_robots example_503) no_metrics (example_visit ''GET'' ''/'')
     (mw_init 0) = (False, example_visit ''GET'' ''/'', s') \<and> robotsMap s' = []"
proof -
  obtain s' where "fetch_robots (example_robots example_503) no_metrics (example_visit ''GET'' ''/'')
      (mw_init 0) = (NoRules, s')"
    using example_fetch [of example_503] example_503_facts(4) by (auto simp: example_503_def)
  from robots_fail_open [OF example_robots_host this] show ?thesis
    by (simp add: example_robots_def mw_init_def)
qed

theorem fetched_rules_kept_witness:
  "\<exists>s'. fetch_robots (example_robots (mk_response ''200 OK'' 200 [] ''Disallow: /'')) no_metrics
     (example_visit ''GET'' ''/'') (mw_init 0) = (Rules False, s') \<and> map_of (robotsMap s') ''a'' = Some False"
proof -
  obtain s' where run: "fetch_robots (example_robots (mk_response ''200 OK'' 200 [] ''Disallow: /''))
      no_metrics (example_visit ''GET'' ''/'') (mw_init 0) = (Rules False, s')"
    using example_fetch [of "mk_response ''200 OK'' 200 [] ''Disallow: /''"] by auto
  from fetched_rules_kept [OF this, of "''a''"] run show ?thesis by (simp add: example_visit_def)
qed

section \<open>Counter labels\<close>

lemma metrics_labels:
  assumes "NewMetrics t = Some m"
  shows "well_labelled (CounterAdd (RequestCounter m) [(''method'', v)] i)"
    "well_labelled (CounterAdd (ResponseCounter m) [(''status'', v)] i)"
    "well_labelled (CounterAdd (PanicCounter m) [] i)"
    "well_labelled (CounterAdd (RobotsTxtRequestCounter m) [] i)"
    "well_labelled (CounterAdd (RobotsTxtResponseCounter m) [(''status'', v)] i)"
    "well_labelled (CounterAdd (RobotsTxtForbiddenCounter m) [(''method'', v)] i)"
  using assms by (auto simp: NewMetrics_def split: if_splits)

abbreviation labels_ok :: "('rd, 'w) mw_state \<Rightarrow> bool" where
  "labels_ok s \<equiv> list_all well_labelled (trace s)"

lemma labels_ok_emit [simp]: "labels_ok (emit e s) \<longleftrightarrow> labels_ok s \<and> well_labelled e"
  by simp

text \<open>What every request middleware of the scraper promises.\<close>

locale request_middleware =
  fixes process :: "'act request \<Rightarrow> ('rd, 'w) mw_state \<Rightarrow> bool \<times> 'act request \<times> ('rd, 'w) mw_state"
    and inv :: "('rd, 'w) mw_state \<Rightarrow> bool"
  assumes keeps_inv: "process r s = (p, r', s') \<Longrightarrow> inv s \<Longrightarrow> inv s'"
    and never_revives: "process r s = (p, r', s') \<Longrightarrow> Cancelled r \<Longrightarrow> Cancelled r'"
    and same_target: "process r s = (p, r', s') \<Longrightarrow>
      Method (HTTP r') = Method (HTTP r) \<and> URL (HTTP r') = URL (HTTP r) \<and> RHost (HTTP r') = RHost (HTTP r)"
begin

lemma run_all_inv: "inv s \<Longrightarrow> inv (snd (run_all process rs s))"
proof (induction rs arbitrary: s)
  case (Cons r rs)
  obtain p r' s' where "process r s = (p, r', s')" by (metis surj_pair)
  then show ?case using Cons keeps_inv by (simp add: Let_def case_prod_beta)
qed simp

lemma run_all_cancelled:
  "i < length rs \<Longrightarrow> Cancelled (rs ! i) \<Longrightarrow> fst (run_all process rs s) ! i"
proof (induction rs arbitrary: s i)
  case (Cons r rs)
  obtain p r' s' where st: "process r s = (p, r', s')" by (metis surj_pair)
  then show ?case using Cons never_revives [OF st] by (cases i) (auto simp: Let_def case_prod_beta)
qed simp

end

interpretation allowed: request_middleware "AllowedDomains_ProcessRequest ds" labels_ok
  by unfold_locales
    (auto simp: AllowedDomains_ProcessRequest_def LoadOrStore_def Let_def Cancel_def split: if_splits)

interpretation duplicates: request_middleware "DuplicateRequests_ProcessRequest rv" labels_ok
  by unfold_locales
    (auto simp: DuplicateRequests_ProcessRequest_def LoadOrStore_def Let_def Cancel_def split: if_splits)

interpretation headers: request_middleware "Headers_ProcessRequest ua" labels_ok
  by unfold_locales (auto simp: Headers_ProcessRequest_def set_default_def Let_def)

interpretation delay: request_middleware "Delay_ProcessRequest d intn" labels_ok
  by unfold_locales (auto simp: Delay_ProcessRequest_def Let_def split: if_splits prod.splits)

lemma metrics_middleware:
  assumes "NewMetrics t = Some m"
  shows "request_middleware (Metrics_ProcessRequest m) labels_ok"
  by unfold_locales (auto simp: Metrics_ProcessRequest_def metrics_labels [OF assms])

lemma fetch_robots_labels:
  assumes "NewMetrics t = Some m" and "fetch_robots c m r s = (found, s')" and "labels_ok s"
  shows "labels_ok s'"
  using assms(2,3) metrics_labels [OF assms(1)]
  by (auto simp: fetch_robots_def Let_def split: sum.splits prod.splits outcome.splits option.splits)

lemma robots_middleware:
  assumes "NewMetrics t = Some m"
  shows "request_middleware (RobotsTxt_ProcessRequest c m) labels_ok"
proof unfold_locales
  fix r s p r' s'
  assume run: "RobotsTxt_ProcessRequest c m r s = (p, r', s')"
  show "labels_ok s \<Longrightarrow> labels_ok s'"
    using run fetch_robots_labels [OF assms, of c r s] metrics_labels(6) [OF assms]
    by (auto simp: RobotsTxt_ProcessRequest_def Let_def
        split: if_splits option.splits prod.splits robots_lookup.splits)
  show "Cancelled r \<Longrightarrow> Cancelled r'"
    and "Method (HTTP r') = Method (HTTP r) \<and> URL (HTTP r') = URL (HTTP r) \<and> RHost (HTTP r') = RHost (HTTP r)"
    using run by (auto simp: RobotsTxt_ProcessRequest_def Let_def
        split: if_splits option.splits prod.splits robots_lookup.splits)
qed

end
