(* ===== verification/Engine.thy ===== *)
theory Engine
  imports Middleware Cache_Transport
begin

text \<open>
  The scraper of \<open>geziyor.go\<close> and its options (\<open>options.go\<close>): what \<open>NewGeziyor\<close> sets up,
  how one request is handled (\<open>do\<close>), and the methods that issue requests. What the goroutines of several
  requests do to each other (semaphores that are full, wait groups, exporters) is in the theories
  Concurrency and Fanout.
\<close>

section \<open>Options\<close>

text \<open>
  \<open>'cache\<close>, \<open>'proxy\<close>, \<open>'act\<close>, \<open>'m\<close> and \<open>'e\<close> stand for the caches, proxy functions, Chrome
  actions, custom middlewares and exporters a user may give. Fields that another record of the
  development has too end in a prime. \<open>RequestsPerSecond\<close>, a \<open>float64\<close>, is a fraction with
  a positive denominator; durations are nanoseconds. The callbacks are not data: they are
  parameters of the operations that call them.
\<close>

record ('cache, 'proxy, 'act, 'm, 'e) options =
  AllowedDomains :: "string list"
  BrowserEndpoint :: string
  Cache :: "'cache option"
  CachePolicy :: policy
  CharsetDetectDisabled' :: bool
  ConcurrentRequests :: int
  ConcurrentRequestsPerDomain :: int
  CookiesDisabled :: bool
  Exporters :: "'e list"
  LogDisabled :: bool
  MaxBodySize' :: int
  MaxRedirect :: int
  MetricsType :: int
  ParseHTMLDisabled :: bool
  ProxyFunc' :: "'proxy option"
  PreActions' :: "'act list"
  RequestDelay :: int
  RequestDelayRandomize :: bool
  RequestMiddlewares :: "'m list"
  ResponseMiddlewares :: "'m list"
  RequestsPerSecond :: "int \<times> int"
  RetryHTTPCodes' :: "int list"
  RetryTimes' :: int
  RobotsTxtDisabled :: bool
  StartURLs :: "string list"
  Timeout' :: int
  URLRevisitEnabled :: bool
  UserAgent :: string

section \<open>The scraper\<close>

datatype 'm req_mw =
    AllowedDomainsMW "string list"
  | DuplicateRequestsMW bool
  | HeadersMW string
  | DelayMW delay
  | MetricsReqMW "metrics option"
  | RobotsTxtMW "metrics option" bool
  | CustomReqMW 'm

datatype 'm res_mw =
    ParseHTMLMW bool
  | LogStatsMW bool
  | MetricsResMW "metrics option"
  | CustomResMW 'm

datatype 'cache transport_choice = PlainTransport | CacheTransport transport 'cache

text \<open>
  The fields of the client that \<open>NewGeziyor\<close> sets besides those of \<open>NewClient\<close>: transport,
  timeout, whether there is a cookie jar, and the limit of the redirect handler.
\<close>

record ('cache, 'proxy, 'act) scraper_client =
  base :: "'proxy http_client \<times> ('act, 'proxy) client_options"
  Transport' :: "'cache transport_choice"
  ClientTimeout :: int
  Jar :: bool
  CheckRedirect :: "int option"

record ('cache, 'proxy, 'act, 'm, 'e) geziyor =
  Opt :: "('cache, 'proxy, 'act, 'm, 'e) options"
  Client' :: "('cache, 'proxy, 'act) scraper_client"
  metrics' :: "metrics option"
  reqMiddlewares :: "'m req_mw list"
  resMiddlewares :: "'m res_mw list"
  rateLimiter :: "((int \<times> int) \<times> int) option"
  semGlobal :: "int option"
  hostSems :: bool
  shutdown :: bool
  logOutput :: bool

text \<open>Conversion of a \<open>float64\<close> to \<open>int\<close>: towards zero.\<close>

definition to_int :: "int \<times> int \<Rightarrow> int" where
  "to_int x = (if fst x < 0 then - ((- fst x) div snd x) else fst x div snd x)"

definition default_options ::
  "('cache, 'proxy, 'act, 'm, 'e) options \<Rightarrow> ('cache, 'proxy, 'act, 'm, 'e) options" where
  "default_options opt =
     (let opt = (if UserAgent opt = [] then opt\<lparr>UserAgent := DefaultUserAgent\<rparr> else opt);
          opt = (if MaxBodySize' opt = 0 then opt\<lparr>MaxBodySize' := DefaultMaxBody\<rparr> else opt);
          opt = (if RetryTimes' opt = 0 then opt\<lparr>RetryTimes' := DefaultRetryTimes\<rparr> else opt)
      in if length (RetryHTTPCodes' opt) = 0 then opt\<lparr>RetryHTTPCodes' := DefaultRetryHTTPCodes\<rparr>
         else opt)"

definition new_client ::
  "('cache, 'proxy, 'act, 'm, 'e) options \<Rightarrow> ('cache, 'proxy, 'act) scraper_client" where
  "new_client opt =
     \<lparr>base = NewClient \<lparr>MaxBodySize = MaxBodySize' opt,
         CharsetDetectDisabled = CharsetDetectDisabled' opt, RetryTimes = RetryTimes' opt,
         RetryHTTPCodes = RetryHTTPCodes' opt, RemoteAllocatorURL = BrowserEndpoint opt,
         ProxyFunc = ProxyFunc' opt, PreActions = PreActions' opt\<rparr>,
      Transport' = (case Cache opt of None \<Rightarrow> PlainTransport
        | Some c \<Rightarrow> CacheTransport \<lparr>Policy = CachePolicy opt, MarkCachedResponses = True\<rparr> c),
      ClientTimeout = (if Timeout' opt \<noteq> 0 then Timeout' opt else 180 * 10 ^ 9),
      Jar = (\<not> CookiesDisabled opt),
      CheckRedirect = (if MaxRedirect opt \<noteq> 0 then Some (MaxRedirect opt) else None)\<rparr>"

text \<open>\<open>None\<close>: making a channel with a negative capacity panics.\<close>

definition NewGeziyor ::
  "('cache, 'proxy, 'act, 'm, 'e) options \<Rightarrow> ('cache, 'proxy, 'act, 'm, 'e) geziyor option" where
  "NewGeziyor opt0 =
     (let opt = default_options opt0;
          m = NewMetrics (MetricsType opt)
      in if ConcurrentRequests opt < 0 then None
         else Some
           \<lparr>Opt = opt,
            Client' = new_client opt,
            metrics' = m,
            reqMiddlewares =
              [AllowedDomainsMW (AllowedDomains opt), DuplicateRequestsMW (URLRevisitEnabled opt),
               HeadersMW (UserAgent opt), DelayMW (NewDelay (RequestDelayRandomize opt) (RequestDelay opt))]
              @ [MetricsReqMW m] @ [RobotsTxtMW m (RobotsTxtDisabled opt)]
              @ map CustomReqMW (RequestMiddlewares opt),
            resMiddlewares =
              [ParseHTMLMW (ParseHTMLDisabled opt), LogStatsMW (LogDisabled opt)]
              @ [MetricsResMW m] @ map CustomResMW (ResponseMiddlewares opt),
            rateLimiter =
              (if fst (RequestsPerSecond opt) \<noteq> 0
               then Some (RequestsPerSecond opt, to_int (RequestsPerSecond opt)) else None),
            semGlobal =
              (if ConcurrentRequests opt \<noteq> 0 then Some (ConcurrentRequests opt) else None),
            hostSems = (ConcurrentRequestsPerDomain opt \<noteq> 0),
            shutdown = False,
            logOutput = (\<not> LogDisabled opt)\<rparr>)"

section \<open>Handling one request\<close>

text \<open>
  What the middlewares and callbacks of a scraper need of the outside: the client's external
  code, the robots library, the random source, the HTML parser, the custom middlewares, and
  the two callbacks \<open>ErrorFunc\<close> and \<open>ParseFunc\<close>, which may panic (\<open>True\<close>) and change the state.
\<close>

record ('e, 'w, 'act, 'proxy, 'rd, 'doc, 'm) env =
  ext :: "('e, 'w, 'act) external"
  newRequest :: "string \<Rightarrow> string \<Rightarrow> string \<Rightarrow> 'e + http_request"
  fromStatus :: "int \<Rightarrow> string \<Rightarrow> 'rd option"
  testAgent :: "'rd \<Rightarrow> string \<Rightarrow> string \<Rightarrow> bool"
  randIntn :: "int \<Rightarrow> int"
  newDocument :: "string \<Rightarrow> string + 'doc"
  customReq :: "'m \<Rightarrow> ('act, 'rd, 'w) req_middleware"
  customRes :: "'m \<Rightarrow> ('act, 'doc, 'rd, 'w) res_middleware"
  ErrorFunc :: "('act request \<Rightarrow> 'e client_error \<Rightarrow> ('rd, 'w) mw_state \<Rightarrow> bool \<times> ('rd, 'w) mw_state) option"
  ParseFunc :: "(('act, 'doc) response \<Rightarrow> ('rd, 'w) mw_state \<Rightarrow> bool \<times> ('rd, 'w) mw_state) option"
  show_error :: "'e client_error \<Rightarrow> string"

text \<open>
  A nil \<open>*Metrics\<close> panics when it is used: by the robots middleware for the request of the rules of a host, if
  it can be made, and for a request that known rules forbid.
\<close>

definition robots_without_metrics ::
  "('e, 'w, 'act, 'proxy, 'rd, 'doc, 'm) env \<Rightarrow> bool \<Rightarrow> ('act, 'rd, 'w) req_middleware" where
  "robots_without_metrics env disabled r s =
     (if disabled then (False, r, s)
      else (case map_of (robotsMap s) (RHost (HTTP r)) of
              Some robotsData \<Rightarrow> (\<not> testAgent env robotsData (Path (URL (HTTP r))) (UserAgent_of r), r, s)
            | None \<Rightarrow>
                (case newRequest env ''GET'' (Scheme (URL (HTTP r)) @ ''://'' @ RHost (HTTP r) @ ''/robots.txt'') [] of
                   Inl err \<Rightarrow> (False, r, s) | Inr robotsReq \<Rightarrow> (True, r, s))))"

definition apply_req ::
  "('e, 'w, 'act, 'proxy, 'rd, 'doc, 'm) env \<Rightarrow> ('act, 'proxy) client_options \<Rightarrow> 'm req_mw \<Rightarrow>
   ('act, 'rd, 'w) req_middleware" where
  "apply_req env copt mw r s =
     (case mw of
        AllowedDomainsMW ds \<Rightarrow> AllowedDomains_ProcessRequest ds r s
      | DuplicateRequestsMW rv \<Rightarrow> DuplicateRequests_ProcessRequest rv r s
      | HeadersMW ua \<Rightarrow> Headers_ProcessRequest ua r s
      | DelayMW d \<Rightarrow> Delay_ProcessRequest d (randIntn env) r s
      | MetricsReqMW None \<Rightarrow> (True, r, s)
      | MetricsReqMW (Some m) \<Rightarrow> Metrics_ProcessRequest m r s
      | RobotsTxtMW None disabled \<Rightarrow> robots_without_metrics env disabled r s
      | RobotsTxtMW (Some m) disabled \<Rightarrow>
          RobotsTxt_ProcessRequest
            \<lparr>robotsDisabled = disabled, robots_client = (ext env, copt),
             http_NewRequest = newRequest env, from_status = fromStatus env,
             test_agent = testAgent env\<rparr> m r s
      | CustomReqMW f \<Rightarrow> customReq env f r s)"

definition apply_res ::
  "('e, 'w, 'act, 'proxy, 'rd, 'doc, 'm) env \<Rightarrow> 'm res_mw \<Rightarrow> ('act, 'doc, 'rd, 'w) res_middleware" where
  "apply_res env mw r s =
     (case mw of
        ParseHTMLMW d \<Rightarrow> ParseHTML_ProcessResponse d (newDocument env) r s
      | LogStatsMW d \<Rightarrow> LogStats_ProcessResponse d r s
      | MetricsResMW None \<Rightarrow> (True, r, s)
      | MetricsResMW (Some m) \<Rightarrow> Metrics_ProcessResponse m r s
      | CustomResMW f \<Rightarrow> customRes env f r s)"

text \<open>The chain of request middlewares stops at the first that cancels the request or panics.\<close>

datatype chain_end = Passed | WasCancelled | ChainPanic

fun run_req ::
  "('e, 'w, 'act, 'proxy, 'rd, 'doc, 'm) env \<Rightarrow> ('act, 'proxy) client_options \<Rightarrow> 'm req_mw list \<Rightarrow>
   'act request \<Rightarrow> ('rd, 'w) mw_state \<Rightarrow> chain_end \<times> 'act request \<times> ('rd, 'w) mw_state" where
  "run_req env copt [] r s = (Passed, r, s)"
| "run_req env copt (mw # mws) r s =
     (let (panicked, r', s') = apply_req env copt mw r s
      in if panicked then (ChainPanic, r', s')
         else if Cancelled r' then (WasCancelled, r', s')
         else run_req env copt mws r' s')"

fun run_res ::
  "('e, 'w, 'act, 'proxy, 'rd, 'doc, 'm) env \<Rightarrow> 'm res_mw list \<Rightarrow>
   ('act, 'doc) response \<Rightarrow> ('rd, 'w) mw_state \<Rightarrow> bool \<times> ('act, 'doc) response \<times> ('rd, 'w) mw_state" where
  "run_res env [] r s = (False, r, s)"
| "run_res env (mw # mws) r s =
     (let (panicked, r', s') = apply_res env mw r s
      in if panicked then (True, r', s') else run_res env mws r' s')"

text \<open>
  The body of \<open>do\<close> between acquiring and releasing the semaphores: how it ended, before
  \<open>recoverMe\<close>. The request stays on its host (the middlewares and the client of the repository do not
  change \<open>Host\<close>), so that the semaphore that is released is that of the host it was acquired for.
\<close>

datatype 'e do_end = Stopped | Errored "'e client_error" | Handled | DoPanic

text \<open>The request to the client, the response middlewares and the callback.\<close>

definition do_client ::
  "('e, 'w, 'act, 'proxy, 'rd, 'doc, 'm) env \<Rightarrow> ('cache, 'proxy, 'act, 'm, 'x) geziyor \<Rightarrow>
   (('act, 'doc) response \<Rightarrow> ('rd, 'w) mw_state \<Rightarrow> bool \<times> ('rd, 'w) mw_state) option \<Rightarrow>
   'act request \<Rightarrow> ('rd, 'w) mw_state \<Rightarrow> 'e do_end \<times> ('rd, 'w) mw_state" where
  "do_client env g callback r s1 =
     (case DoRequest (ext env) (snd (base (Client' g))) r (world s1) of
        (Panicked, r', w') \<Rightarrow> (DoPanic, s1\<lparr>world := w'\<rparr>)
      | (Failed err, r', w') \<Rightarrow>
          (let s2 = s1\<lparr>world := w'\<rparr>
           in case ErrorFunc env of
                Some f \<Rightarrow>
                  (let (panicked, s3) = f r' err s2
                   in (if panicked then DoPanic else Errored err, s3))
              | None \<Rightarrow> (Errored err, emit (Log (show_error env err)) s2))
      | (Returned resp, r', w') \<Rightarrow>
          (case run_res env (resMiddlewares g) resp (s1\<lparr>world := w'\<rparr>) of
             (True, resp', s2) \<Rightarrow> (DoPanic, s2)
           | (False, resp', s2) \<Rightarrow>
               (case (case callback of Some f \<Rightarrow> Some f | None \<Rightarrow> ParseFunc env) of
                  None \<Rightarrow> (Handled, s2)
                | Some f \<Rightarrow>
                    (let (panicked, s3) = f resp' s2
                     in (if panicked then DoPanic else Handled, s3)))))"

definition do_body ::
  "('e, 'w, 'act, 'proxy, 'rd, 'doc, 'm) env \<Rightarrow> ('cache, 'proxy, 'act, 'm, 'x) geziyor \<Rightarrow>
   (('act, 'doc) response \<Rightarrow> ('rd, 'w) mw_state \<Rightarrow> bool \<times> ('rd, 'w) mw_state) option \<Rightarrow>
   'act request \<Rightarrow> ('rd, 'w) mw_state \<Rightarrow> 'e do_end \<times> ('rd, 'w) mw_state" where
  "do_body env g callback req s =
     (case run_req env (snd (base (Client' g))) (reqMiddlewares g) req s of
        (ChainPanic, r, s1) \<Rightarrow> (DoPanic, s1)
      | (WasCancelled, r, s1) \<Rightarrow> (Stopped, s1)
      | (Passed, r, s1) \<Rightarrow> do_client env g callback r s1)"

text \<open>
  \<open>recoverMe\<close>, deferred: it logs a panic and counts it. With nil metrics the counting itself
  panics, and the program ends (\<open>True\<close>).
\<close>

definition recoverMe ::
  "('cache, 'proxy, 'act, 'm, 'x) geziyor \<Rightarrow> 'e do_end \<times> ('rd, 'w) mw_state \<Rightarrow> bool \<times> ('rd, 'w) mw_state" where
  "recoverMe g x =
     (case x of
        (DoPanic, s) \<Rightarrow>
          (let s1 = emit (Log ''panic'') s
           in case metrics' g of
                None \<Rightarrow> (True, s1)
              | Some m \<Rightarrow> (False, emit (CounterAdd (PanicCounter m) [] 1) s1))
      | (_, s) \<Rightarrow> (False, s))"

text \<open>
  \<open>acquireSem\<close>, when the goroutine gets its turn: a send on a channel waits while the channel is full, which
  Concurrency models. Making the channel of a host panics when the limit is negative; \<open>recoverMe\<close> is deferred
  only later, so that this panic ends the program (\<open>True\<close>). The error of the rate limiter is ignored.
\<close>

definition acquireSem ::
  "('cache, 'proxy, 'act, 'm, 'x) geziyor \<Rightarrow> 'act request \<Rightarrow> ('rd, 'w) mw_state \<Rightarrow> bool \<times> ('rd, 'w) mw_state" where
  "acquireSem g req s =
     (let s1 = (if rateLimiter g \<noteq> None then emit RateWait s else s);
          s2 = (if ConcurrentRequests (Opt g) \<noteq> 0 then emit (SemSend None) s1 else s1);
          host = RHost (HTTP req)
      in if ConcurrentRequestsPerDomain (Opt g) \<noteq> 0 then
           (if host \<in> set (semHosts s2) then (False, emit (SemSend (Some host)) s2)
            else if ConcurrentRequestsPerDomain (Opt g) < 0 then (True, s2)
            else (False, emit (SemSend (Some host)) (s2\<lparr>semHosts := host # semHosts s2\<rparr>)))
         else (False, s2))"

definition releaseSem ::
  "('cache, 'proxy, 'act, 'm, 'x) geziyor \<Rightarrow> 'act request \<Rightarrow> ('rd, 'w) mw_state \<Rightarrow> ('rd, 'w) mw_state" where
  "releaseSem g req s =
     (let s1 = (if ConcurrentRequests (Opt g) \<noteq> 0 then emit (SemReceive None) s else s)
      in if ConcurrentRequestsPerDomain (Opt g) \<noteq> 0 then emit (SemReceive (Some (RHost (HTTP req)))) s1 else s1)"

text \<open>
  \<open>do\<close>: the deferred calls run also when \<open>recoverMe\<close> panics. \<open>wgRequests\<close> is part of the states of Concurrency.
\<close>

definition do_request ::
  "('e, 'w, 'act, 'proxy, 'rd, 'doc, 'm) env \<Rightarrow> ('cache, 'proxy, 'act, 'm, 'x) geziyor \<Rightarrow>
   (('act, 'doc) response \<Rightarrow> ('rd, 'w) mw_state \<Rightarrow> bool \<times> ('rd, 'w) mw_state) option \<Rightarrow>
   'act request \<Rightarrow> ('rd, 'w) mw_state \<Rightarrow> bool \<times> ('rd, 'w) mw_state" where
  "do_request env g callback req s =
     (let (panicked, s1) = acquireSem g req s
      in if panicked then (True, s1)
         else (let (crashed, s2) = recoverMe g (do_body env g callback req s1)
               in (crashed, releaseSem g req s2)))"

section \<open>Issuing requests\<close>

text \<open>
  What \<open>Get\<close>, \<open>GetRendered\<close>, \<open>Head\<close> and \<open>Post\<close> do: log the error of an invalid request, or
  hand the request to \<open>Do\<close>. \<open>Do\<close> ignores it after an interrupt, runs it at once if it is
  synchronized, and else starts a goroutine for it.
\<close>

datatype 'act dispatch = Ignored | RunNow "'act request" | Spawn "'act request"

definition Do :: "('cache, 'proxy, 'act, 'm, 'x) geziyor \<Rightarrow> 'act request \<Rightarrow> 'act dispatch" where
  "Do g req =
     (if shutdown g then Ignored else if Synchronized req then RunNow req else Spawn req)"

definition issue ::
  "(string \<Rightarrow> string \<Rightarrow> string \<Rightarrow> 'e + http_request) \<Rightarrow> string \<Rightarrow> bool \<Rightarrow>
   ('cache, 'proxy, 'act, 'm, 'x) geziyor \<Rightarrow> string \<Rightarrow> string \<Rightarrow> ('e + 'act dispatch)" where
  "issue http_New method rendered g u body =
     (case NewRequest http_New method u body of
        Inl err \<Rightarrow> Inl err
      | Inr req \<Rightarrow> Inr (Do g (if rendered then req\<lparr>Rendered := True\<rparr> else req)))"

definition geziyor_Get ::
  "(string \<Rightarrow> string \<Rightarrow> string \<Rightarrow> 'e + http_request) \<Rightarrow> ('cache, 'proxy, 'act, 'm, 'x) geziyor \<Rightarrow>
   string \<Rightarrow> ('e + 'act dispatch)" where
  "geziyor_Get http_New g u = issue http_New ''GET'' False g u []"

definition GetRendered ::
  "(string \<Rightarrow> string \<Rightarrow> string \<Rightarrow> 'e + http_request) \<Rightarrow> ('cache, 'proxy, 'act, 'm, 'x) geziyor \<Rightarrow>
   string \<Rightarrow> ('e + 'act dispatch)" where
  "GetRendered http_New g u = issue http_New ''GET'' True g u []"

definition Head ::
  "(string \<Rightarrow> string \<Rightarrow> string \<Rightarrow> 'e + http_request) \<Rightarrow> ('cache, 'proxy, 'act, 'm, 'x) geziyor \<Rightarrow>
   string \<Rightarrow> ('e + 'act dispatch)" where
  "Head http_New g u = issue http_New ''HEAD'' False g u []"

definition Post ::
  "(string \<Rightarrow> string \<Rightarrow> string \<Rightarrow> 'e + http_request) \<Rightarrow> ('cache, 'proxy, 'act, 'm, 'x) geziyor \<Rightarrow>
   string \<Rightarrow> string \<Rightarrow> ('e + 'act dispatch)" where
  "Post http_New g u body = issue http_New ''POST'' False g u body"

text \<open>\<open>interruptSignalWaiter\<close>: the first signal sets the flag; the end signal of \<open>Start\<close> ends it.\<close>

datatype signal_event = Interrupt | ShutdownDone

fun interruptSignalWaiter ::
  "signal_event list \<Rightarrow> ('cache, 'proxy, 'act, 'm, 'x) geziyor \<Rightarrow> ('cache, 'proxy, 'act, 'm, 'x) geziyor" where
  "interruptSignalWaiter [] g = g"
| "interruptSignalWaiter (Interrupt # es) g = interruptSignalWaiter es (g\<lparr>shutdown := True\<rparr>)"
| "interruptSignalWaiter (ShutdownDone # es) g = g"

text \<open>The metrics server that \<open>Start\<close> runs until it returns, if any.\<close>

definition start_metrics :: "('cache, 'proxy, 'act, 'm, 'x) geziyor \<Rightarrow> metrics_server option" where
  "start_metrics g =
     (if MetricsType (Opt g) = Prometheus \<or> MetricsType (Opt g) = ExpVar
      then Some (StartMetricsServer (MetricsType (Opt g))) else None)"

text \<open>What \<open>Start\<close> does for the start URLs when there is no \<open>StartRequestsFunc\<close>.\<close>

definition start_requests ::
  "(string \<Rightarrow> string \<Rightarrow> string \<Rightarrow> 'e + http_request) \<Rightarrow> ('cache, 'proxy, 'act, 'm, 'x) geziyor \<Rightarrow>
   ('e + 'act dispatch) list" where
  "start_requests http_New g = map (geziyor_Get http_New g) (StartURLs (Opt g))"

end
