(* ===== verification/Engine_Laws.thy ===== *)
theory Engine_Laws
  imports Engine Middleware_Laws
begin

text \<open>
  Properties of the scraper: what the options set up, which requests never leave it, when a panic
  ends the program, that every counter is used with its labels, and the effect of an interrupt.
\<close>

section \<open>Options\<close>

lemma default_options_sel [simp]:
  "AllowedDomains (default_options opt) = AllowedDomains opt"
  "URLRevisitEnabled (default_options opt) = URLRevisitEnabled opt"
  "RequestDelayRandomize (default_options opt) = RequestDelayRandomize opt"
  "RequestDelay (default_options opt) = RequestDelay opt"
  "MetricsType (default_options opt) = MetricsType opt"
  "ConcurrentRequests (default_options opt) = ConcurrentRequests opt"
  "ConcurrentRequestsPerDomain (default_options opt) = ConcurrentRequestsPerDomain opt"
  "RequestMiddlewares (default_options opt) = RequestMiddlewares opt"
  "ResponseMiddlewares (default_options opt) = ResponseMiddlewares opt"
  "RobotsTxtDisabled (default_options opt) = RobotsTxtDisabled opt"
  "RequestsPerSecond (default_options opt) = RequestsPerSecond opt"
  "MaxRedirect (default_options opt) = MaxRedirect opt"
  "Cache (default_options opt) = Cache opt" "CachePolicy (default_options opt) = CachePolicy opt"
  "CookiesDisabled (default_options opt) = CookiesDisabled opt"
  "RetryTimes' (default_options opt) = (if RetryTimes' opt = 0 then 2 else RetryTimes' opt)"
  "MaxBodySize' (default_options opt) = (if MaxBodySize' opt = 0 then DefaultMaxBody else MaxBodySize' opt)"
  "RetryHTTPCodes' (default_options opt) =
     (if RetryHTTPCodes' opt = [] then DefaultRetryHTTPCodes else RetryHTTPCodes' opt)"
  "UserAgent (default_options opt) = (if UserAgent opt = [] then DefaultUserAgent else UserAgent opt)"
  by (simp_all add: default_options_def DefaultRetryTimes_def Let_def)

lemma NewGeziyor_sel:
  assumes "NewGeziyor opt = Some g"
  shows "metrics' g = NewMetrics (MetricsType opt)"
    "reqMiddlewares g = [AllowedDomainsMW (AllowedDomains opt), DuplicateRequestsMW (URLRevisitEnabled opt),
       HeadersMW (UserAgent (default_options opt)),
       DelayMW (NewDelay (RequestDelayRandomize opt) (RequestDelay opt)),
       MetricsReqMW (NewMetrics (MetricsType opt)),
       RobotsTxtMW (NewMetrics (MetricsType opt)) (RobotsTxtDisabled opt)]
       @ map CustomReqMW (RequestMiddlewares opt)"
    "resMiddlewares g = [ParseHTMLMW (ParseHTMLDisabled (default_options opt)),
       LogStatsMW (LogDisabled (default_options opt)), MetricsResMW (NewMetrics (MetricsType opt))]
       @ map CustomResMW (ResponseMiddlewares opt)"
    "Client' g = new_client (default_options opt)"
    "rateLimiter g = (if fst (RequestsPerSecond opt) \<noteq> 0
       then Some (RequestsPerSecond opt, to_int (RequestsPerSecond opt)) else None)"
    "0 \<le> ConcurrentRequests opt" "shutdown g = False" "Opt g = default_options opt"
  using assms by (auto simp: NewGeziyor_def Let_def split: if_splits)

text \<open>The scraper hands its options to the client, where zero values stand for the defaults; it cannot
  be made with a negative limit of concurrent requests; and a limit of less than one request per second
  gives a rate limiter whose burst is 0.\<close>

theorem scraper_options:
  "case NewGeziyor opt of
     None \<Rightarrow> ConcurrentRequests opt < 0
   | Some g \<Rightarrow> 0 \<le> ConcurrentRequests opt
       \<and> (let c = snd (base (Client' g)) in
            RetryTimes c = (if RetryTimes' opt = 0 then 2 else RetryTimes' opt)
            \<and> MaxBodySize c = (if MaxBodySize' opt = 0 then 1024 ^ 3 else MaxBodySize' opt)
            \<and> RetryHTTPCodes c = (if RetryHTTPCodes' opt = [] then [500, 502, 503, 504, 522, 524, 408]
                else RetryHTTPCodes' opt))
       \<and> (case rateLimiter g of None \<Rightarrow> fst (RequestsPerSecond opt) = 0
          | Some (rate, burst) \<Rightarrow> rate = RequestsPerSecond opt
              \<and> (0 < fst rate \<and> fst rate < snd rate \<longrightarrow> burst = 0))"
proof (cases "NewGeziyor opt")
  case None
  then show ?thesis by (simp add: NewGeziyor_def Let_def split: if_splits)
next
  case (Some g)
  note sel = NewGeziyor_sel [OF Some]
  have "snd (base (Client' g)) = snd (NewClient \<lparr>MaxBodySize = MaxBodySize' (default_options opt),
     CharsetDetectDisabled = CharsetDetectDisabled' (default_options opt),
     RetryTimes = RetryTimes' (default_options opt), RetryHTTPCodes = RetryHTTPCodes' (default_options opt),
     RemoteAllocatorURL = BrowserEndpoint (default_options opt), ProxyFunc = ProxyFunc' (default_options opt),
     PreActions = PreActions' (default_options opt)\<rparr>)"
    by (simp add: sel new_client_def)
  then show ?thesis using Some sel
    by (simp add: NewClient_def DefaultMaxBody_def DefaultRetryHTTPCodes_def to_int_def Let_def)
qed

definition example_opt :: "int \<Rightarrow> (unit, unit, unit, unit, unit) options" where
  "example_opt mt = \<lparr>AllowedDomains = [''a''], BrowserEndpoint = [], Cache = None, CachePolicy = Dummy,
     CharsetDetectDisabled' = True, ConcurrentRequests = 0, ConcurrentRequestsPerDomain = 0,
     CookiesDisabled = True, Exporters = [], LogDisabled = True, MaxBodySize' = 0, MaxRedirect = 0,
     MetricsType = mt, ParseHTMLDisabled = True, ProxyFunc' = None, PreActions' = [], RequestDelay = 0,
     RequestDelayRandomize = False, RequestMiddlewares = [], ResponseMiddlewares = [],
     RequestsPerSecond = (1, 2), RetryHTTPCodes' = [], RetryTimes' = 0, RobotsTxtDisabled = True,
     StartURLs = [], Timeout' = 0, URLRevisitEnabled = False, UserAgent = []\<rparr>"

lemma example_opt_sel [simp]:
  "AllowedDomains (example_opt mt) = [''a'']" "URLRevisitEnabled (example_opt mt) = False"
  "RequestDelayRandomize (example_opt mt) = False" "MetricsType (example_opt mt) = mt"
  "ConcurrentRequests (example_opt mt) = 0" "RequestsPerSecond (example_opt mt) = (1, 2)"
  "RequestMiddlewares (example_opt mt) = []" "ResponseMiddlewares (example_opt mt) = []"
  "RetryTimes' (example_opt mt) = 0"
  by (simp_all add: example_opt_def)

lemma example_scraper: "\<exists>g. NewGeziyor (example_opt mt) = Some g"
  by (simp add: NewGeziyor_def Let_def)

theorem scraper_options_witness:
  "\<exists>g. NewGeziyor (example_opt 0) = Some g \<and> RetryTimes (snd (base (Client' g))) = 2
     \<and> rateLimiter g = Some ((1, 2), 0)"
proof -
  obtain g where "NewGeziyor (example_opt 0) = Some g" using example_scraper by blast
  with scraper_options [of "example_opt 0"] show ?thesis
    by (auto simp: Let_def split: option.splits)
qed

section \<open>Requests that never leave the scraper\<close>

lemma allowed_refuses:
  assumes "ds \<noteq> [] \<and> RHost (HTTP r) \<notin> set ds"
  shows "\<exists>s' es. AllowedDomains_ProcessRequest ds r s = (False, Cancel r, s')
    \<and> world s' = world s \<and> robotsMap s' = robotsMap s \<and> trace s' = trace s @ es \<and> length es \<le> 1
    \<and> list_all is_Log es"
  using assms by (auto simp: AllowedDomains_ProcessRequest_def LoadOrStore_def Let_def)

lemma duplicate_refuses:
  assumes "is_GET r \<and> url_of r \<in> set (visitedURLs s)"
  shows "\<exists>s' es. DuplicateRequests_ProcessRequest False r s = (False, Cancel r, s')
    \<and> world s' = world s \<and> robotsMap s' = robotsMap s \<and> trace s' = trace s @ es \<and> length es \<le> 1
    \<and> list_all is_Log es"
  using assms by (auto simp: DuplicateRequests_ProcessRequest_def LoadOrStore_def Let_def)

lemma allowed_passes:
  assumes "\<not> (ds \<noteq> [] \<and> RHost (HTTP r) \<notin> set ds)"
  shows "AllowedDomains_ProcessRequest ds r s = (False, r, s)"
  using assms by (auto simp: AllowedDomains_ProcessRequest_def)

text \<open>The request is to a host that is not allowed, or repeats a GET that was made before.\<close>

definition refused ::
  "('cache, 'proxy, 'act, 'm, 'e) options \<Rightarrow> 'act request \<Rightarrow> ('rd, 'w) mw_state \<Rightarrow> bool" where
  "refused opt r s \<longleftrightarrow>
     (AllowedDomains opt \<noteq> [] \<and> RHost (HTTP r) \<notin> set (AllowedDomains opt))
     \<or> (\<not> URLRevisitEnabled opt \<and> is_GET r \<and> url_of r \<in> set (visitedURLs s))"

section \<open>Waiting for a turn\<close>

text \<open>What every request does before it is handled, and after: the rate limiter and the two semaphores.\<close>

definition turn_taken :: "('cache, 'proxy, 'act, 'm, 'e) options \<Rightarrow> string \<Rightarrow> event list" where
  "turn_taken opt h =
     (if fst (RequestsPerSecond opt) \<noteq> 0 then [RateWait] else [])
     @ (if ConcurrentRequests opt \<noteq> 0 then [SemSend None] else [])
     @ (if ConcurrentRequestsPerDomain opt \<noteq> 0 then [SemSend (Some h)] else [])"

definition turn_given_back :: "('cache, 'proxy, 'act, 'm, 'e) options \<Rightarrow> string \<Rightarrow> event list" where
  "turn_given_back opt h =
     (if ConcurrentRequests opt \<noteq> 0 then [SemReceive None] else [])
     @ (if ConcurrentRequestsPerDomain opt \<noteq> 0 then [SemReceive (Some h)] else [])"

text \<open>A negative limit per host, and no semaphore for the host yet.\<close>

definition bad_limit :: "('cache, 'proxy, 'act, 'm, 'e) options \<Rightarrow> 'act request \<Rightarrow> ('rd, 'w) mw_state \<Rightarrow> bool" where
  "bad_limit opt r s \<longleftrightarrow> ConcurrentRequestsPerDomain opt < 0 \<and> RHost (HTTP r) \<notin> set (semHosts s)"

lemma acquireSem_panics:
  "NewGeziyor opt = Some g \<Longrightarrow> fst (acquireSem g r s) = bad_limit opt r s"
  by (auto simp: acquireSem_def bad_limit_def NewGeziyor_sel Let_def emit_def)

lemma acquireSem_turn:
  assumes "NewGeziyor opt = Some g" and "\<not> bad_limit opt r s"
  shows "\<exists>hs. acquireSem g r s =
    (False, s\<lparr>semHosts := hs, trace := trace s @ turn_taken opt (RHost (HTTP r))\<rparr>)"
proof -
  have same: "s\<lparr>semHosts := semHosts s, trace := t\<rparr> = s\<lparr>trace := t\<rparr>" for t by (cases s) simp
  let ?hs = "if ConcurrentRequestsPerDomain opt \<noteq> 0 \<and> RHost (HTTP r) \<notin> set (semHosts s)
    then RHost (HTTP r) # semHosts s else semHosts s"
  have "acquireSem g r s = (False, s\<lparr>semHosts := ?hs, trace := trace s @ turn_taken opt (RHost (HTTP r))\<rparr>)"
    using assms(2)
    by (cases "RequestsPerSecond opt")
      (simp add: acquireSem_def bad_limit_def turn_taken_def NewGeziyor_sel [OF assms(1)] Let_def emit_def same)
  then show ?thesis ..
qed

lemma releaseSem_turn:
  "NewGeziyor opt = Some g \<Longrightarrow>
   releaseSem g r s = s\<lparr>trace := trace s @ turn_given_back opt (RHost (HTTP r))\<rparr>"
  by (simp add: releaseSem_def turn_given_back_def NewGeziyor_sel Let_def emit_def)

lemma refused_other [simp]:
  "refused opt r (s\<lparr>semHosts := hs, trace := t\<rparr>) = refused opt r s"
  by (simp add: refused_def)

text \<open>The part of \<open>do\<close> between the semaphores.\<close>

lemma refused_body:
  assumes "NewGeziyor opt = Some g" and "refused opt r s" and "\<not> Cancelled r"
  shows "\<exists>s' es. recoverMe g (do_body env g callback r s) = (False, s') \<and> world s' = world s
    \<and> robotsMap s' = robotsMap s \<and> trace s' = trace s @ es \<and> length es \<le> 1 \<and> list_all is_Log es"
proof (cases "AllowedDomains opt \<noteq> [] \<and> RHost (HTTP r) \<notin> set (AllowedDomains opt)")
  case True
  from allowed_refuses [OF True, of s] show ?thesis
    by (auto simp: do_body_def NewGeziyor_sel [OF assms(1)] apply_req_def recoverMe_def)
next
  case False
  then have "\<not> URLRevisitEnabled opt" "is_GET r \<and> url_of r \<in> set (visitedURLs s)"
    using assms(2) by (auto simp: refused_def)
  with duplicate_refuses [OF this(2)] allowed_passes [OF False, of s] assms(3) show ?thesis
    by (auto simp: do_body_def NewGeziyor_sel [OF assms(1)] apply_req_def recoverMe_def Let_def)
qed

text \<open>C38: A request to a host that is not allowed, and a GET of a URL that was visited before, wait for their
  turn as every request does, at the rate limiter and at the semaphores, and give it back. In between they do
  nothing but log at most one line: no network traffic, no pause of the delay middleware, no metric, no
  callback and no robots lookup. The limit per host must not be negative.\<close>

theorem refused_requests_stay_local:
  assumes "NewGeziyor opt = Some g" and "refused opt r s" and "\<not> Cancelled r"
    and "0 \<le> ConcurrentRequestsPerDomain opt"
  shows "\<exists>s' es. do_request env g callback r s = (False, s') \<and> world s' = world s
    \<and> robotsMap s' = robotsMap s
    \<and> trace s' = trace s @ turn_taken opt (RHost (HTTP r)) @ es @ turn_given_back opt (RHost (HTTP r))
    \<and> length es \<le> 1 \<and> list_all is_Log es"
proof -
  have "\<not> bad_limit opt r s" using assms(4) by (simp add: bad_limit_def)
  from acquireSem_turn [OF assms(1) this] obtain hs where
    acq: "acquireSem g r s = (False, s\<lparr>semHosts := hs, trace := trace s @ turn_taken opt (RHost (HTTP r))\<rparr>)" by blast
  from refused_body [OF assms(1) _ assms(3), of "s\<lparr>semHosts := hs, trace := trace s @ turn_taken opt (RHost (HTTP r))\<rparr>"
      env callback] assms(2)
  show ?thesis by (auto simp: do_request_def acq releaseSem_turn [OF assms(1)] split: prod.split)
qed

definition example_env :: "(string, nat, unit, unit, bool, unit, unit) env" where
  "example_env = \<lparr>ext = constant_server example_503,
     newRequest = (\<lambda>m u b. Inr (mk_request m ''a'' u [])), fromStatus = (\<lambda>code body. None),
     testAgent = (\<lambda>rules path agent. rules), randIntn = (\<lambda>n. 0), newDocument = Inl,
     customReq = (\<lambda>f r s. (False, r, s)), customRes = (\<lambda>f r s. (False, r, s)),
     ErrorFunc = None, ParseFunc = None, show_error = (\<lambda>e. [])\<rparr>"

theorem refused_requests_stay_local_witness:
  "\<exists>g s'. NewGeziyor ((example_opt 0)\<lparr>ConcurrentRequestsPerDomain := 1\<rparr>) = Some g
     \<and> do_request example_env g None (example_visit ''GET'' ''/'')
         ((mw_init 7)\<lparr>visitedURLs := [url_of (example_visit ''GET'' ''/'')]\<rparr>) = (False, s') \<and> world s' = 7"
proof -
  let ?o = "(example_opt 0)\<lparr>ConcurrentRequestsPerDomain := 1\<rparr>"
  let ?s = "(mw_init 7 :: (bool, nat) mw_state)\<lparr>visitedURLs := [url_of (example_visit ''GET'' ''/'')]\<rparr>"
  obtain g where g: "NewGeziyor ?o = Some g" by (simp add: NewGeziyor_def Let_def)
  have "refused ?o (example_visit ''GET'' ''/'') ?s" "\<not> Cancelled (example_visit ''GET'' ''/'')"
    by (simp_all add: refused_def example_visit_def)
  from refused_requests_stay_local [OF g this, of example_env None] g show ?thesis
    by (auto simp: mw_init_def)
qed

section \<open>Panics\<close>

lemma duplicate_passes:
  assumes "\<not> (\<not> rv \<and> is_GET r \<and> url_of r \<in> set (visitedURLs s))"
  shows "\<exists>s'. DuplicateRequests_ProcessRequest rv r s = (False, r, s')"
  using assms by (auto simp: DuplicateRequests_ProcessRequest_def LoadOrStore_def Let_def)

lemma headers_pass: "\<exists>r'. Headers_ProcessRequest ua r s = (False, r', s) \<and> Cancelled r' = Cancelled r"
  by (simp add: Headers_ProcessRequest_def set_default_def Let_def)

lemma delay_pass: "\<exists>p s'. Delay_ProcessRequest d intn r s = (p, r, s')"
  by (cases "delay_bounds (requestDelay d)") (auto simp: Delay_ProcessRequest_def)

lemma known_metrics_no_crash: "metrics' g = Some m \<Longrightarrow> \<not> fst (recoverMe g x)"
  by (simp add: recoverMe_def Let_def split: prod.split do_end.split)

text \<open>Whether the part of \<open>do\<close> that \<open>recoverMe\<close> guards ends the program.\<close>

lemma body_crashes:
  assumes "NewGeziyor opt = Some g"
  shows "fst (recoverMe g (do_body env g callback r s)) \<longleftrightarrow>
    NewMetrics (MetricsType opt) = None \<and> \<not> refused opt r s \<and> \<not> Cancelled r"
proof (cases "NewMetrics (MetricsType opt) = None \<and> \<not> refused opt r s \<and> \<not> Cancelled r")
  case True
  then have "AllowedDomains_ProcessRequest (AllowedDomains opt) r s = (False, r, s)"
    by (intro allowed_passes) (auto simp: refused_def)
  moreover obtain s1 where "DuplicateRequests_ProcessRequest (URLRevisitEnabled opt) r s = (False, r, s1)"
    using duplicate_passes [of "URLRevisitEnabled opt" r s] True by (auto simp: refused_def)
  moreover obtain r2 where "Headers_ProcessRequest (UserAgent (default_options opt)) r s1 = (False, r2, s1)"
    "\<not> Cancelled r2"
    using headers_pass [of "UserAgent (default_options opt)" r s1] True by auto
  moreover obtain p s3 where "Delay_ProcessRequest (NewDelay (RequestDelayRandomize opt) (RequestDelay opt))
      (randIntn env) r2 s1 = (p, r2, s3)"
    using delay_pass by blast
  ultimately have "fst (run_req env (snd (base (Client' g))) (reqMiddlewares g) r s) = ChainPanic"
    using True by (simp add: NewGeziyor_sel(2) [OF assms] apply_req_def)
  then obtain r' s' where "run_req env (snd (base (Client' g))) (reqMiddlewares g) r s = (ChainPanic, r', s')"
    by (metis prod.collapse)
  then show ?thesis using True by (simp add: do_body_def recoverMe_def NewGeziyor_sel(1) [OF assms])
next
  case False
  then consider m where "NewMetrics (MetricsType opt) = Some m" | "refused opt r s" "\<not> Cancelled r" | "Cancelled r"
    by (auto simp: not_None_eq)
  then show ?thesis
  proof cases
    case 1
    then show ?thesis using known_metrics_no_crash [of g m] by (simp add: NewGeziyor_sel [OF assms])
  next
    case 2
    from refused_body [OF assms this, of env callback] show ?thesis using 2 by auto
  next
    case 3
    obtain r' s' where "AllowedDomains_ProcessRequest (AllowedDomains opt) r s = (False, r', s')" "Cancelled r'"
    proof (cases "AllowedDomains opt \<noteq> [] \<and> RHost (HTTP r) \<notin> set (AllowedDomains opt)")
      case True
      from allowed_refuses [OF this, of s] show ?thesis by (auto intro: that simp: Cancel_def)
    next
      case False
      from allowed_passes [OF this, of s] 3 show ?thesis by (auto intro: that)
    qed
    then have "run_req env (snd (base (Client' g))) (reqMiddlewares g) r s = (WasCancelled, r', s')"
      by (simp add: NewGeziyor_sel(2) [OF assms] apply_req_def)
    then show ?thesis using 3 by (simp add: do_body_def recoverMe_def)
  qed
qed

text \<open>C39: A request ends the program exactly when the limit per host is negative and the host has no semaphore
  yet, so that making one panics before \<open>recoverMe\<close> is deferred; or when the type of metrics is not one of the
  known ones and the request is neither refused nor cancelled: then the metrics are nil, and \<open>recoverMe\<close>
  panics itself. No other panic of a middleware, of the client or of a callback gets past \<open>recoverMe\<close>.\<close>

theorem program_crashes_iff:
  assumes "NewGeziyor opt = Some g"
  shows "fst (do_request env g callback r s) \<longleftrightarrow>
    ConcurrentRequestsPerDomain opt < 0 \<and> RHost (HTTP r) \<notin> set (semHosts s)
    \<or> NewMetrics (MetricsType opt) = None \<and> \<not> refused opt r s \<and> \<not> Cancelled r"
proof (cases "bad_limit opt r s")
  case True
  then show ?thesis using acquireSem_panics [OF assms, of r s]
    by (auto simp: do_request_def bad_limit_def split: prod.split)
next
  case False
  from acquireSem_turn [OF assms this] obtain hs where
    acq: "acquireSem g r s = (False, s\<lparr>semHosts := hs, trace := trace s @ turn_taken opt (RHost (HTTP r))\<rparr>)" by blast
  have "fst (do_request env g callback r s) = fst (recoverMe g (do_body env g callback r
      (s\<lparr>semHosts := hs, trace := trace s @ turn_taken opt (RHost (HTTP r))\<rparr>)))"
    by (simp add: do_request_def acq case_prod_beta Let_def)
  then show ?thesis using False unfolding body_crashes [OF assms] bad_limit_def refused_other by blast
qed

theorem program_crashes_iff_witness:
  "\<exists>g g'. NewGeziyor (example_opt 9) = Some g
     \<and> NewGeziyor ((example_opt 0)\<lparr>ConcurrentRequestsPerDomain := - 1\<rparr>) = Some g'
     \<and> fst (do_request example_env g None (example_visit ''GET'' ''/'') (mw_init 0))
     \<and> fst (do_request example_env g' None (example_visit ''GET'' ''/'') (mw_init 0))"
proof -
  obtain g where g: "NewGeziyor (example_opt 9) = Some g" using example_scraper by blast
  obtain g' where g': "NewGeziyor ((example_opt 0)\<lparr>ConcurrentRequestsPerDomain := - 1\<rparr>) = Some g'"
    by (simp add: NewGeziyor_def Let_def)
  have "\<not> refused (example_opt 9) (example_visit ''GET'' ''/'') (mw_init 0 :: (bool, nat) mw_state)"
    "\<not> Cancelled (example_visit ''GET'' ''/'')" "NewMetrics 9 = None"
    by (simp_all add: refused_def example_visit_def mk_request_def mw_init_def NewMetrics_def
        Discard_def ExpVar_def Prometheus_def)
  with program_crashes_iff [OF g, of example_env None "example_visit ''GET'' ''/''" "mw_init 0"]
    program_crashes_iff [OF g', of example_env None "example_visit ''GET'' ''/''" "mw_init 0"] g g'
  show ?thesis by (auto simp: mw_init_def)
qed

section \<open>Counters and labels\<close>

text \<open>What a middleware of the scraper keeps, with metrics that were made by \<open>NewMetrics\<close>.\<close>

lemma apply_req_labels:
  assumes "NewMetrics t = Some m" and "apply_req env copt mw r s = (p, r', s')" and "labels_ok s"
    and "mw \<in> {AllowedDomainsMW ds, DuplicateRequestsMW rv, HeadersMW ua, DelayMW d,
      MetricsReqMW (Some m), RobotsTxtMW (Some m) dis}"
  shows "labels_ok s'"
  using assms(2,4)
    allowed.keeps_inv [of ds r s p r' s'] duplicates.keeps_inv [of rv r s p r' s']
    headers.keeps_inv [of ua r s p r' s'] delay.keeps_inv [of d "randIntn env" r s p r' s']
    request_middleware.keeps_inv [OF metrics_middleware [OF assms(1)], of r s p r' s']
    request_middleware.keeps_inv [OF robots_middleware [OF assms(1)], of _ r s p r' s'] assms(3)
  by (auto simp: apply_req_def)

definition middleware_keeps ::
  "('x \<Rightarrow> ('rd, 'w) mw_state \<Rightarrow> bool \<times> 'x \<times> ('rd, 'w) mw_state) \<Rightarrow> bool" where
  "middleware_keeps f \<longleftrightarrow> (\<forall>r s p r' s'. f r s = (p, r', s') \<longrightarrow> labels_ok s \<longrightarrow> labels_ok s')"

lemma run_req_labels:
  "run_req env copt mws r s = (e, r', s') \<Longrightarrow> \<forall>mw\<in>set mws. middleware_keeps (apply_req env copt mw) \<Longrightarrow>
   labels_ok s \<Longrightarrow> labels_ok s'"
proof (induction mws arbitrary: r s)
  case (Cons mw mws)
  obtain p r1 s1 where st: "apply_req env copt mw r s = (p, r1, s1)" by (metis surj_pair)
  then have "labels_ok s1" using Cons.prems(2,3) by (auto simp: middleware_keeps_def)
  then show ?case using Cons.prems(1,2) Cons.IH [of r1 s1] st by (auto split: if_splits)
qed simp

lemma run_res_labels:
  "run_res env mws r s = (e, r', s') \<Longrightarrow> \<forall>mw\<in>set mws. middleware_keeps (apply_res env mw) \<Longrightarrow>
   labels_ok s \<Longrightarrow> labels_ok s'"
proof (induction mws arbitrary: r s)
  case (Cons mw mws)
  obtain p r1 s1 where st: "apply_res env mw r s = (p, r1, s1)" by (metis surj_pair)
  then have "labels_ok s1" using Cons.prems(2,3) by (auto simp: middleware_keeps_def)
  then show ?case using Cons.prems(1,2) Cons.IH [of r1 s1] st by (auto split: if_splits)
qed simp

lemma scraper_req_keeps:
  assumes "NewGeziyor opt = Some g" and "NewMetrics (MetricsType opt) = Some m"
    and "\<forall>f\<in>set (RequestMiddlewares opt). middleware_keeps (customReq env f)"
  shows "\<forall>mw\<in>set (reqMiddlewares g). middleware_keeps (apply_req env copt mw)"
proof -
  have "middleware_keeps (apply_req env copt mw)"
    if "mw \<in> {AllowedDomainsMW ds, DuplicateRequestsMW rv, HeadersMW ua, DelayMW d,
      MetricsReqMW (Some m), RobotsTxtMW (Some m) dis}" for mw ds rv ua d dis
    using apply_req_labels [OF assms(2) _ _ that, of env copt] by (auto simp: middleware_keeps_def)
  moreover have "middleware_keeps (apply_req env copt (CustomReqMW f))" if "f \<in> set (RequestMiddlewares opt)" for f
    using assms(3) that by (auto simp: middleware_keeps_def apply_req_def)
  ultimately show ?thesis by (auto simp: NewGeziyor_sel [OF assms(1)] assms(2))
qed

lemma scraper_res_keeps:
  assumes "NewGeziyor opt = Some g" and "NewMetrics (MetricsType opt) = Some m"
    and "\<forall>f\<in>set (ResponseMiddlewares opt). middleware_keeps (customRes env f)"
  shows "\<forall>mw\<in>set (resMiddlewares g). middleware_keeps (apply_res env mw)"
proof -
  have "middleware_keeps (apply_res env mw)"
    if "mw \<in> {ParseHTMLMW d, LogStatsMW l, MetricsResMW (Some m)}" for mw d l
    using that metrics_labels [OF assms(2)]
    by (auto simp: middleware_keeps_def apply_res_def ParseHTML_ProcessResponse_def
        LogStats_ProcessResponse_def Metrics_ProcessResponse_def split: if_splits sum.splits)
  moreover have "middleware_keeps (apply_res env (CustomResMW f))" if "f \<in> set (ResponseMiddlewares opt)" for f
    using assms(3) that by (auto simp: middleware_keeps_def apply_res_def)
  ultimately show ?thesis by (auto simp: NewGeziyor_sel [OF assms(1)] assms(2))
qed

text \<open>What a callback of the user keeps.\<close>

definition keeps_labels ::
  "('b \<Rightarrow> ('rd, 'w) mw_state \<Rightarrow> bool \<times> ('rd, 'w) mw_state) option \<Rightarrow> bool" where
  "keeps_labels cb \<longleftrightarrow> (\<forall>f x s. cb = Some f \<longrightarrow> labels_ok s \<longrightarrow> labels_ok (snd (f x s)))"

lemma keeps_labelsD: "keeps_labels (Some f) \<Longrightarrow> f x s = (p, s') \<Longrightarrow> labels_ok s \<Longrightarrow> labels_ok s'"
  unfolding keeps_labels_def by (metis snd_conv)

text \<open>The same for \<open>ErrorFunc\<close>.\<close>

definition error_keeps ::
  "('a \<Rightarrow> 'b \<Rightarrow> ('rd, 'w) mw_state \<Rightarrow> bool \<times> ('rd, 'w) mw_state) option \<Rightarrow> bool" where
  "error_keeps cb \<longleftrightarrow> (\<forall>f x y s. cb = Some f \<longrightarrow> labels_ok s \<longrightarrow> labels_ok (snd (f x y s)))"

lemma error_keepsD: "error_keeps (Some f) \<Longrightarrow> f x y s = (p, s') \<Longrightarrow> labels_ok s \<Longrightarrow> labels_ok s'"
  unfolding error_keeps_def by (metis snd_conv)

lemma do_body_labels:
  fixes env :: "('e, 'w, 'act, 'proxy, 'rd, 'doc, 'm) env"
  assumes "\<forall>mw\<in>set (reqMiddlewares g). middleware_keeps (apply_req env (snd (base (Client' g))) mw)"
    and "\<forall>mw\<in>set (resMiddlewares g). middleware_keeps (apply_res env mw)"
    and "keeps_labels callback" and "keeps_labels (ParseFunc env)" and "error_keeps (ErrorFunc env)"
    and "do_body env g callback r s = (e, s')" and "labels_ok s"
  shows "labels_ok s'"
proof -
  obtain ce r1 s1 where st: "run_req env (snd (base (Client' g))) (reqMiddlewares g) r s = (ce, r1, s1)"
    by (metis surj_pair)
  then have s1: "labels_ok s1" using run_req_labels assms(1,7) by blast
  show ?thesis
  proof (cases ce)
    case Passed
    obtain out :: "('e, ('act, 'doc) response) outcome" and r2 w2 where dr: "DoRequest (ext env) (snd (base (Client' g))) r1 (world s1) = (out, r2, w2)"
      by (metis surj_pair)
    show ?thesis
    proof (cases out)
      case Panicked
      then show ?thesis using assms(6) st dr Passed s1 by (auto simp: do_body_def do_client_def)
    next
      case (Failed err)
      then show ?thesis using assms(5,6) st dr Passed s1
        by (auto simp: do_body_def do_client_def Let_def split: option.splits prod.splits dest: error_keepsD)
    next
      case (Returned resp)
      obtain p resp' s2 where rr: "run_res env (resMiddlewares g) resp (s1\<lparr>world := w2\<rparr>) = (p, resp', s2)"
        by (metis surj_pair)
      have "labels_ok s2" using run_res_labels [OF rr assms(2)] s1 by simp
      then show ?thesis using assms(3,4,6) st dr rr Passed Returned
        by (auto simp: do_body_def do_client_def Let_def split: option.splits prod.splits if_splits bool.splits
            dest: keeps_labelsD)
    qed
  qed (use assms(6) st s1 in \<open>simp_all add: do_body_def do_client_def\<close>)
qed

text \<open>C40: With a known type of metrics, and custom middlewares and callbacks that do the same, handling a
  request uses every counter with exactly the labels it was declared with, so that a Prometheus counter
  never panics.\<close>

theorem handling_keeps_labels:
  assumes "NewGeziyor opt = Some g" and "NewMetrics (MetricsType opt) = Some m"
    and "\<forall>f\<in>set (RequestMiddlewares opt). middleware_keeps (customReq env f)"
    and "\<forall>f\<in>set (ResponseMiddlewares opt). middleware_keeps (customRes env f)"
    and "keeps_labels callback" and "keeps_labels (ParseFunc env)" and "error_keeps (ErrorFunc env)"
    and "list_all well_labelled (trace s)"
  shows "list_all well_labelled (trace (snd (do_request env g callback r s)))"
proof -
  obtain p s0 where acq: "acquireSem g r s = (p, s0)" by force
  then have s0: "labels_ok s0"
    using assms(8) by (auto simp: acquireSem_def Let_def emit_def split: if_splits)
  obtain e s1 where body: "do_body env g callback r s0 = (e, s1)" by force
  have "labels_ok s1"
    using do_body_labels [OF scraper_req_keeps [OF assms(1-3)] scraper_res_keeps [OF assms(1,2,4)]
        assms(5-7) body s0] .
  then show ?thesis
    using metrics_labels(3) [OF assms(2)] body s0 acq
    by (simp add: do_request_def recoverMe_def releaseSem_turn [OF assms(1)] turn_given_back_def
        NewGeziyor_sel(1) [OF assms(1)] assms(2) Let_def split: do_end.split)
qed

theorem handling_keeps_labels_witness:
  "\<exists>g. NewGeziyor (example_opt 1) = Some g
     \<and> list_all well_labelled (trace (snd (do_request example_env g None (example_visit ''GET'' ''/'') (mw_init 0))))"
proof -
  obtain g where g: "NewGeziyor (example_opt 1) = Some g" using example_scraper by blast
  obtain m where m: "NewMetrics (MetricsType (example_opt 1)) = Some m"
    by (simp add: NewMetrics_def Discard_def ExpVar_def Prometheus_def)
  show ?thesis
    using handling_keeps_labels [OF g m, of example_env None "mw_init 0"] g
    by (simp add: keeps_labels_def error_keeps_def example_env_def mw_init_def)
qed

section \<open>Interrupts\<close>

lemma waiter_shutdown:
  "shutdown (interruptSignalWaiter es g) \<longleftrightarrow>
     shutdown g \<or> Interrupt \<in> set (takeWhile (\<lambda>e. e \<noteq> ShutdownDone) es)"
  by (induction es g rule: interruptSignalWaiter.induct) auto

text \<open>After an interrupt that arrives before \<open>Start\<close> ends, and only then, no call of \<open>Get\<close>,
  \<open>GetRendered\<close>, \<open>Head\<close> or \<open>Post\<close> starts a request any more.\<close>

theorem interrupt_stops_issuing:
  fixes g :: "('cache, 'proxy, 'act, 'm, 'x) geziyor" and req :: "'act request"
  assumes "shutdown g = False" and "NewRequest http_New meth u body = Inr req"
  shows "issue http_New meth rendered (interruptSignalWaiter es g) u body = Inr Ignored \<longleftrightarrow>
    Interrupt \<in> set (takeWhile (\<lambda>e. e \<noteq> ShutdownDone) es)"
  using waiter_shutdown [of es g] assms by (simp add: issue_def Do_def)

theorem interrupt_stops_issuing_witness:
  "\<exists>g. NewGeziyor (example_opt 0) = Some g
     \<and> issue (\<lambda>m u b. Inr (mk_request m ''a'' u []) :: string + http_request) ''GET'' True
         (interruptSignalWaiter [Interrupt, Interrupt] g) ''/'' [] = Inr (Ignored :: unit dispatch)"
proof -
  obtain g where g: "NewGeziyor (example_opt 0) = Some g" using example_scraper by blast
  obtain req :: "unit request" where
    "NewRequest (\<lambda>m u b. Inr (mk_request m ''a'' u []) :: string + http_request) ''GET'' ''/'' [] = Inr req"
    by (simp add: NewRequest_def)
  from interrupt_stops_issuing [OF NewGeziyor_sel(7) [OF g] this, of True "[Interrupt, Interrupt]"] g
  show ?thesis by simp
qed

end
