(* ===== verification/Concurrency.thy ===== *)
theory Concurrency
  imports Prelude
begin

text \<open>
  The goroutines that handle requests (\<open>Do\<close>, \<open>do\<close>, \<open>acquireSem\<close> and \<open>releaseSem\<close> of
  \<open>geziyor.go\<close>) as a state machine: any number of goroutines, whose steps interleave
  freely. A step is what the Go memory model makes atomic: an operation on a channel, a wait
  group, or the map of semaphores under its lock. What a request does while it is handled is the
  phase \<open>Running\<close>; the rate limiter only delays the first step.
\<close>

section \<open>Reachable states\<close>

inductive reachable :: "('s \<Rightarrow> 's \<Rightarrow> bool) \<Rightarrow> 's \<Rightarrow> 's \<Rightarrow> bool"
  for step :: "'s \<Rightarrow> 's \<Rightarrow> bool" and init :: 's where
  start [intro]: "reachable step init init"
| next_state [intro]: "reachable step init s \<Longrightarrow> step s s' \<Longrightarrow> reachable step init s'"

lemma reachable_trans:
  "reachable step s s' \<Longrightarrow> reachable step init s \<Longrightarrow> reachable step init s'"
  by (induction rule: reachable.induct) auto

text \<open>The invariant rule.\<close>

locale invariant =
  fixes step :: "'s \<Rightarrow> 's \<Rightarrow> bool" and init :: 's and I :: "'s \<Rightarrow> bool"
  assumes initial: "I init"
    and preserved: "step s s' \<Longrightarrow> I s \<Longrightarrow> I s'"
begin

lemma always: "reachable step init s \<Longrightarrow> I s"
  by (induction rule: reachable.induct) (auto intro: initial preserved)

end

section \<open>Goroutines\<close>

text \<open>
  The phases of a goroutine that runs \<open>do\<close>, in the order of the code. \<open>Spawned\<close>: counted in the
  wait group. \<open>Admitted\<close>: past the global semaphore. \<open>Looked\<close>: it read the host's channel from the
  map. \<open>Made\<close>: it made a channel that is not in the map yet. \<open>Acquiring\<close>: it is about to send on a
  channel. \<open>Running\<close>: it handles the request. \<open>Awaiting\<close>: its callback has made a synchronized
  request, which is handled like the others by a task of its own number; the callback goes on when that
  has ended. \<open>Counted\<close>: it called \<open>wgRequests.Done\<close>, which is
  deferred after \<open>releaseSem\<close> and so runs before it. \<open>Released\<close>: past releasing the global
  semaphore. \<open>Receiving\<close>: it is about to receive from the channel it found in the map.
\<close>

datatype phase =
    Spawned
  | Admitted
  | Looked "nat option"
  | Made nat
  | Acquiring nat
  | Running
  | Awaiting nat
  | Counted
  | Released
  | Receiving nat
  | Finished

record task =
  host :: string
  phase :: phase

text \<open>
  A channel used as a semaphore is the number of tokens in it; channels are numbered in the order
  they are made. \<open>ConcurrentRequests\<close> and \<open>ConcurrentRequestsPerDomain\<close> are the limits of a
  configuration, 0 for no limit.
\<close>

record limits =
  perScraper :: nat
  perHost :: nat

record sched =
  tasks :: "task list"
  wgRequests :: int
  semGlobal :: nat
  channels :: "nat list"
  hostSems :: "string \<Rightarrow> nat option"

definition sched_init :: sched where
  "sched_init = \<lparr>tasks = [], wgRequests = 0, semGlobal = 0, channels = [], hostSems = (\<lambda>h. None)\<rparr>"

definition goto :: "nat \<Rightarrow> phase \<Rightarrow> sched \<Rightarrow> sched" where
  "goto i p s = s\<lparr>tasks := (tasks s)[i := (tasks s ! i)\<lparr>phase := p\<rparr>]\<rparr>"

text \<open>The step of one goroutine in a given phase, \<open>None\<close> while it is blocked.\<close>

definition task_step :: "limits \<Rightarrow> nat \<Rightarrow> sched \<Rightarrow> sched option" where
  "task_step lim i s =
     (let h = host (tasks s ! i)
      in case phase (tasks s ! i) of
           Spawned \<Rightarrow>
             (if perScraper lim = 0 then Some (goto i Admitted s)
              else if semGlobal s < perScraper lim
                   then Some (goto i Admitted (s\<lparr>semGlobal := semGlobal s + 1\<rparr>)) else None)
         | Admitted \<Rightarrow>
             (if perHost lim = 0 then Some (goto i Running s)
              else Some (goto i (Looked (hostSems s h)) s))
         | Looked (Some c) \<Rightarrow> Some (goto i (Acquiring c) s)
         | Looked None \<Rightarrow>
             Some (goto i (Made (length (channels s))) (s\<lparr>channels := channels s @ [0]\<rparr>))
         | Made c \<Rightarrow> Some (goto i (Acquiring c) (s\<lparr>hostSems := (hostSems s)(h \<mapsto> c)\<rparr>))
         | Acquiring c \<Rightarrow>
             (if channels s ! c < perHost lim
              then Some (goto i Running (s\<lparr>channels := (channels s)[c := channels s ! c + 1]\<rparr>))
              else None)
         | Running \<Rightarrow> Some (goto i Counted (s\<lparr>wgRequests := wgRequests s - 1\<rparr>))
         | Awaiting c \<Rightarrow>
             (if phase (tasks s ! c) = Finished then Some (goto i Running s) else None)
         | Counted \<Rightarrow>
             (if perScraper lim = 0 then Some (goto i Released s)
              else if 0 < semGlobal s
                   then Some (goto i Released (s\<lparr>semGlobal := semGlobal s - 1\<rparr>)) else None)
         | Released \<Rightarrow>
             (if perHost lim = 0 then Some (goto i Finished s)
              else (case hostSems s h of None \<Rightarrow> None | Some c \<Rightarrow> Some (goto i (Receiving c) s)))
         | Receiving c \<Rightarrow>
             (if 0 < channels s ! c
              then Some (goto i Finished (s\<lparr>channels := (channels s)[c := channels s ! c - 1]\<rparr>))
              else None)
         | Finished \<Rightarrow> None)"

definition spawn :: "string \<Rightarrow> sched \<Rightarrow> sched" where
  "spawn h s = s\<lparr>tasks := tasks s @ [\<lparr>host = h, phase = Spawned\<rparr>], wgRequests := wgRequests s + 1\<rparr>"

text \<open>A request with \<open>Synchronized\<close> set, made by the callback of goroutine \<open>i\<close>.\<close>

definition spawn_sync :: "nat \<Rightarrow> string \<Rightarrow> sched \<Rightarrow> sched" where
  "spawn_sync i h s = goto i (Awaiting (length (tasks s))) (spawn h s)"

text \<open>\<open>Do\<close> starts a goroutine or, in a callback, runs the request at once; a goroutine makes a step.\<close>

inductive sched_step :: "limits \<Rightarrow> sched \<Rightarrow> sched \<Rightarrow> bool" for lim :: limits where
  do_spawn: "sched_step lim s (spawn h s)"
| do_sync: "i < length (tasks s) \<Longrightarrow> phase (tasks s ! i) = Running \<Longrightarrow> sched_step lim s (spawn_sync i h s)"
| do_step: "i < length (tasks s) \<Longrightarrow> task_step lim i s = Some s' \<Longrightarrow> sched_step lim s s'"

inductive_cases sched_stepE: "sched_step lim s s'"

abbreviation sched_reachable :: "limits \<Rightarrow> sched \<Rightarrow> bool" where
  "sched_reachable lim \<equiv> reachable (sched_step lim) sched_init"

text \<open>A schedule: which goroutines to start, and which to run, in order.\<close>

datatype choice = Go string | GoSync nat string | Step nat

fun run_schedule :: "limits \<Rightarrow> choice list \<Rightarrow> sched \<Rightarrow> sched option" where
  "run_schedule lim [] s = Some s"
| "run_schedule lim (Go h # cs) s = run_schedule lim cs (spawn h s)"
| "run_schedule lim (GoSync i h # cs) s =
     (if i < length (tasks s) \<and> phase (tasks s ! i) = Running
      then run_schedule lim cs (spawn_sync i h s) else None)"
| "run_schedule lim (Step i # cs) s =
     (if i < length (tasks s)
      then (case task_step lim i s of None \<Rightarrow> None | Some s' \<Rightarrow> run_schedule lim cs s') else None)"

lemma run_schedule_reachable:
  "run_schedule lim cs s = Some s' \<Longrightarrow> sched_reachable lim s \<Longrightarrow> sched_reachable lim s'"
  by (induction lim cs s rule: run_schedule.induct)
    (auto intro: do_spawn do_sync do_step split: if_splits option.splits)

end
