(* ===== verification/Concurrency_Laws.thy ===== *)
theory Concurrency_Laws
  imports Concurrency
begin

text \<open>
  Properties of the goroutines of a scraper: what the wait group and the semaphores count, that
  every request gets its turn, and where the limit per host fails.
\<close>

section \<open>Counting goroutines by phase\<close>

definition count_phase :: "(phase \<Rightarrow> bool) \<Rightarrow> sched \<Rightarrow> nat" where
  "count_phase P s = length (filter (\<lambda>t. P (phase t)) (tasks s))"

lemma length_filter_update:
  "i < length xs \<Longrightarrow> length (filter P (xs[i := x])) + (if P (xs ! i) then 1 else 0) =
     length (filter P xs) + (if P x then 1 else 0)"
proof (induction xs arbitrary: i)
  case (Cons y xs)
  then show ?case by (cases i) auto
qed simp

lemma sum_list_update_nat:
  "i < length xs \<Longrightarrow> sum_list (xs[i := x :: nat]) + xs ! i = sum_list xs + x"
proof (induction xs arbitrary: i)
  case (Cons y xs)
  then show ?case by (cases i) auto
qed simp

lemma sum_list_inc: "c < length xs \<Longrightarrow> sum_list (xs[c := Suc (xs ! c)]) = Suc (sum_list (xs :: nat list))"
  using sum_list_update_nat [of c xs "Suc (xs ! c)"] by simp

lemma sum_list_dec:
  "c < length xs \<Longrightarrow> 0 < xs ! c \<Longrightarrow> Suc (sum_list (xs[c := xs ! c - Suc 0])) = sum_list (xs :: nat list)"
  using sum_list_update_nat [of c xs "xs ! c - Suc 0"] by simp

lemma goto_sel [simp]:
  "length (tasks (goto i p s)) = length (tasks s)" "wgRequests (goto i p s) = wgRequests s"
  "semGlobal (goto i p s) = semGlobal s" "channels (goto i p s) = channels s"
  "hostSems (goto i p s) = hostSems s"
  by (simp_all add: goto_def)

lemma tasks_goto: "tasks (goto i p s) = (tasks s)[i := (tasks s ! i)\<lparr>phase := p\<rparr>]"
  by (simp add: goto_def)

lemma phase_goto:
  "i < length (tasks s) \<Longrightarrow> j < length (tasks s) \<Longrightarrow>
   phase (tasks (goto i p s) ! j) = (if j = i then p else phase (tasks s ! j))"
  by (simp add: tasks_goto nth_list_update)

lemma count_goto:
  "i < length (tasks s) \<Longrightarrow> count_phase P (goto i p s) + (if P (phase (tasks s ! i)) then 1 else 0) =
     count_phase P s + (if P p then 1 else 0)"
  using length_filter_update [of i "tasks s" "\<lambda>t. P (phase t)" "(tasks s ! i)\<lparr>phase := p\<rparr>"]
  by (simp add: count_phase_def tasks_goto)

lemma count_other [simp]:
  "count_phase P (s\<lparr>wgRequests := a\<rparr>) = count_phase P s"
  "count_phase P (s\<lparr>semGlobal := b\<rparr>) = count_phase P s"
  "count_phase P (s\<lparr>channels := c\<rparr>) = count_phase P s"
  "count_phase P (s\<lparr>hostSems := d\<rparr>) = count_phase P s"
  by (simp_all add: count_phase_def)

lemma count_spawn [simp]:
  "count_phase P (spawn h s) = count_phase P s + (if P Spawned then 1 else 0)"
  by (simp add: count_phase_def spawn_def)

lemma spawn_sel [simp]:
  "wgRequests (spawn h s) = wgRequests s + 1" "semGlobal (spawn h s) = semGlobal s"
  "channels (spawn h s) = channels s" "hostSems (spawn h s) = hostSems s"
  "length (tasks (spawn h s)) = Suc (length (tasks s))"
  by (simp_all add: spawn_def)

lemma spawn_nth: "i < length (tasks s) \<Longrightarrow> tasks (spawn h s) ! i = tasks s ! i"
  by (simp add: spawn_def nth_append)

lemma spawn_sync_sel [simp]:
  "wgRequests (spawn_sync i h s) = wgRequests s + 1" "semGlobal (spawn_sync i h s) = semGlobal s"
  "channels (spawn_sync i h s) = channels s" "hostSems (spawn_sync i h s) = hostSems s"
  "length (tasks (spawn_sync i h s)) = Suc (length (tasks s))"
  by (simp_all add: spawn_sync_def)

lemma spawn_sync_other:
  "k < length (tasks s) \<Longrightarrow> k \<noteq> i \<Longrightarrow> tasks (spawn_sync i h s) ! k = tasks s ! k"
  by (simp add: spawn_sync_def tasks_goto spawn_nth)

lemma count_spawn_sync:
  assumes "i < length (tasks s)" and "phase (tasks s ! i) = Running"
    and "P (Awaiting (length (tasks s))) = P Running"
  shows "count_phase P (spawn_sync i h s) = count_phase P (spawn h s)"
  using count_goto [of i "spawn h s" P "Awaiting (length (tasks s))"] assms
  by (simp add: spawn_sync_def spawn_nth split: if_splits)

lemma init_sel [simp]:
  "tasks sched_init = []" "wgRequests sched_init = 0" "semGlobal sched_init = 0"
  "channels sched_init = []" "count_phase P sched_init = 0"
  by (simp_all add: sched_init_def count_phase_def)

text \<open>The goroutines that hold a slot of the scraper, have not called \<open>Done\<close>, hold a token of a host.\<close>

fun holds_slot :: "phase \<Rightarrow> bool" where
  "holds_slot Spawned = False" | "holds_slot Released = False"
| "holds_slot (Receiving c) = False" | "holds_slot Finished = False" | "holds_slot p = True"

fun undone :: "phase \<Rightarrow> bool" where
  "undone Counted = False" | "undone Released = False"
| "undone (Receiving c) = False" | "undone Finished = False" | "undone p = True"

fun holds_token :: "phase \<Rightarrow> bool" where
  "holds_token Running = True" | "holds_token (Awaiting c) = True" | "holds_token Counted = True" | "holds_token Released = True"
| "holds_token (Receiving c) = True" | "holds_token p = False"

text \<open>A goroutine whose callback waits for a synchronized request.\<close>

fun awaits :: "phase \<Rightarrow> bool" where
  "awaits (Awaiting c) = True" | "awaits p = False"

section \<open>The effect of one step\<close>

lemma step_tasks:
  assumes "i < length (tasks s)" and "task_step lim i s = Some s'"
  shows "tasks s' = (tasks s)[i := (tasks s ! i)\<lparr>phase := phase (tasks s' ! i)\<rparr>]"
  using assms
  by (auto simp: task_step_def Let_def tasks_goto split: phase.splits option.splits if_splits)

lemma step_count:
  assumes "i < length (tasks s)" and "task_step lim i s = Some s'"
  shows "count_phase P s' + (if P (phase (tasks s ! i)) then 1 else 0) =
    count_phase P s + (if P (phase (tasks s' ! i)) then 1 else 0)"
  using count_goto [OF assms(1), of P "phase (tasks s' ! i)"] step_tasks [OF assms]
  by (simp add: count_phase_def tasks_goto)

text \<open>What a step adds to and takes from a counter, written as indicators of the two phases.\<close>

abbreviation ind :: "bool \<Rightarrow> nat" where
  "ind b \<equiv> (if b then 1 else 0)"

lemma step_undone:
  assumes "i < length (tasks s)" and "task_step lim i s = Some s'"
  shows "wgRequests s' + int (ind (undone (phase (tasks s ! i)))) =
    wgRequests s + int (ind (undone (phase (tasks s' ! i))))"
  using assms
  by (auto simp: task_step_def Let_def phase_goto split: phase.splits option.splits if_splits)

lemma step_slot:
  assumes "i < length (tasks s)" and "task_step lim i s = Some s'" and "perScraper lim \<noteq> 0"
  shows "semGlobal s' + ind (holds_slot (phase (tasks s ! i))) =
      semGlobal s + ind (holds_slot (phase (tasks s' ! i)))"
    "semGlobal s' \<le> max (semGlobal s) (perScraper lim)"
  using assms
  by (auto simp: task_step_def Let_def phase_goto split: phase.splits option.splits if_splits)

text \<open>The channel numbers a goroutine works with are those of channels that exist.\<close>

fun phase_channel :: "phase \<Rightarrow> nat set" where
  "phase_channel (Looked c) = set_option c" | "phase_channel (Made c) = {c}"
| "phase_channel (Acquiring c) = {c}" | "phase_channel (Receiving c) = {c}"
| "phase_channel p = {}"

definition channels_exist :: "sched \<Rightarrow> bool" where
  "channels_exist s \<longleftrightarrow> ran (hostSems s) \<subseteq> {..<length (channels s)}
     \<and> (\<forall>t\<in>set (tasks s). phase_channel (phase t) \<subseteq> {..<length (channels s)})"

lemma step_channels_exist:
  assumes "i < length (tasks s)" and "task_step lim i s = Some s'" and "channels_exist s"
  shows "channels_exist s'"
proof -
  have old: "phase_channel (phase t) \<subseteq> {..<length (channels s)}" if "t \<in> set (tasks s)" for t
    using assms(3) that by (simp add: channels_exist_def)
  have sems: "hostSems s h = Some c \<Longrightarrow> c < length (channels s)" for h c
    using assms(3) by (auto simp: channels_exist_def ran_def)
  have mono: "length (channels s) \<le> length (channels s')"
    using assms(1,2) by (auto simp: task_step_def Let_def split: phase.splits option.splits if_splits)
  have new: "phase_channel (phase (tasks s' ! i)) \<subseteq> {..<length (channels s')}"
    using assms(1,2) old [OF nth_mem [OF assms(1)]] sems
    by (auto simp: task_step_def Let_def phase_goto split: phase.splits option.splits if_splits)
  have "ran (hostSems s') \<subseteq> {..<length (channels s')}"
    using assms(1,2) old [OF nth_mem [OF assms(1)]] sems
    by (auto simp: task_step_def Let_def ran_def split: phase.splits option.splits if_splits)
      (fastforce)+
  moreover have "phase_channel (phase t) \<subseteq> {..<length (channels s')}"
    if "t \<in> set (tasks s')" for t
  proof -
    have "set (tasks s') \<subseteq> insert ((tasks s ! i)\<lparr>phase := phase (tasks s' ! i)\<rparr>) (set (tasks s))"
      using step_tasks [OF assms(1,2)] set_update_subset_insert by metis
    with that consider "phase t = phase (tasks s' ! i)" | "t \<in> set (tasks s)" by auto
    then show ?thesis using new old mono by cases (auto, fastforce)
  qed
  ultimately show ?thesis by (simp add: channels_exist_def)
qed

lemma step_token:
  assumes "i < length (tasks s)" and "task_step lim i s = Some s'" and "perHost lim \<noteq> 0"
    and "channels_exist s"
  shows "sum_list (channels s') + ind (holds_token (phase (tasks s ! i))) =
      sum_list (channels s) + ind (holds_token (phase (tasks s' ! i)))"
proof -
  have "phase_channel (phase (tasks s ! i)) \<subseteq> {..<length (channels s)}"
    using assms(1,4) by (simp add: channels_exist_def)
  then show ?thesis
    using assms(1-3)
    by (auto simp: task_step_def Let_def phase_goto sum_list_inc sum_list_dec
        split: phase.splits option.splits if_splits)
qed

section \<open>Invariants\<close>

interpretation wait_group: invariant "sched_step lim" sched_init
  "\<lambda>s. wgRequests s = int (count_phase undone s)"
proof unfold_locales
  fix s s'
  assume "sched_step lim s s'" and I: "wgRequests s = int (count_phase undone s)"
  then show "wgRequests s' = int (count_phase undone s')"
  proof cases
    case (do_sync i h)
    then show ?thesis using I count_spawn_sync [of i s undone h] by simp
  next
    case (do_step i)
    then show ?thesis using step_undone step_count [of i s lim s' undone] I by fastforce
  qed simp
qed simp

interpretation slots: invariant "sched_step lim" sched_init
  "\<lambda>s. perScraper lim \<noteq> 0 \<longrightarrow> semGlobal s = count_phase holds_slot s \<and> semGlobal s \<le> perScraper lim"
proof unfold_locales
  fix s s'
  let ?I = "\<lambda>s. perScraper lim \<noteq> 0 \<longrightarrow>
    semGlobal s = count_phase holds_slot s \<and> semGlobal s \<le> perScraper lim"
  assume "sched_step lim s s'" and I: "?I s"
  then show "?I s'"
  proof cases
    case (do_spawn h)
    then show ?thesis using I by auto
  next
    case (do_sync i h)
    then show ?thesis using I count_spawn_sync [of i s holds_slot h] by auto
  next
    case (do_step i)
    then show ?thesis
      using step_slot [OF do_step] step_count [OF do_step, of holds_slot] I by fastforce
  qed
qed simp

lemma channel_bound_step:
  assumes "i < length (tasks s)" and "task_step lim i s = Some s'"
    and "\<forall>n\<in>set (channels s). n \<le> perHost lim"
  shows "\<forall>n\<in>set (channels s'). n \<le> perHost lim"
proof -
  have up: "n \<le> perHost lim" if "n \<in> set ((channels s)[c := m])" "m \<le> perHost lim" for n c m
    using that assms(3) set_update_subset_insert [of "channels s" c m] by auto
  have down: "n \<le> perHost lim" if "n \<in> set ((channels s)[c := channels s ! c - Suc 0])" for n c
  proof (cases "c < length (channels s)")
    case True
    then have "channels s ! c \<le> perHost lim" using assms(3) by simp
    then show ?thesis using up [OF that] by simp
  next
    case False
    then show ?thesis using that assms(3) by (simp add: list_update_beyond)
  qed
  show ?thesis
    using assms
    by (auto simp: task_step_def Let_def dest: down intro: up [OF _ Suc_leI]
        split: phase.splits option.splits if_splits)
qed

interpretation tokens: invariant "sched_step lim" sched_init
  "\<lambda>s. channels_exist s \<and> (perHost lim \<noteq> 0 \<longrightarrow>
     sum_list (channels s) = count_phase holds_token s \<and> (\<forall>n\<in>set (channels s). n \<le> perHost lim))"
proof unfold_locales
  show "channels_exist sched_init \<and> (perHost lim \<noteq> 0 \<longrightarrow>
     sum_list (channels sched_init) = count_phase holds_token sched_init
     \<and> (\<forall>n\<in>set (channels sched_init). n \<le> perHost lim))"
    by (simp add: channels_exist_def) (simp add: sched_init_def)
next
  fix s s'
  let ?I = "\<lambda>s. channels_exist s \<and> (perHost lim \<noteq> 0 \<longrightarrow>
    sum_list (channels s) = count_phase holds_token s \<and> (\<forall>n\<in>set (channels s). n \<le> perHost lim))"
  assume "sched_step lim s s'" and I: "?I s"
  then show "?I s'"
  proof cases
    case (do_spawn h)
    then show ?thesis using I by (simp add: channels_exist_def spawn_def count_phase_def)
  next
    case (do_sync i h)
    have "set (tasks s') \<subseteq> insert ((tasks s ! i)\<lparr>phase := Awaiting (length (tasks s))\<rparr>) (set (tasks (spawn h s)))"
      using do_sync set_update_subset_insert by (simp add: spawn_sync_def tasks_goto spawn_nth)
    then have "phase_channel (phase t) \<subseteq> {..<length (channels s)}" if "t \<in> set (tasks s')" for t
      using subsetD [OF _ that] I by (fastforce simp: channels_exist_def spawn_def)
    then have "channels_exist s'" using I do_sync by (simp add: channels_exist_def)
    then show ?thesis using I do_sync count_spawn_sync [of i s holds_token h] by simp
  next
    case (do_step i)
    have "sum_list (channels s') = count_phase holds_token s'" if "perHost lim \<noteq> 0"
      using step_token [OF do_step that] step_count [OF do_step, of holds_token] I that by simp
    then show ?thesis
      using step_channels_exist [OF do_step] channel_bound_step [OF do_step] I by blast
  qed
qed

lemma length_filter_mono:
  "(\<And>x. x \<in> set xs \<Longrightarrow> P x \<Longrightarrow> Q x) \<Longrightarrow> length (filter P xs) \<le> length (filter Q xs)"
  by (induction xs) auto

lemma count_phase_mono: "(\<And>p. P p \<Longrightarrow> Q p) \<Longrightarrow> count_phase P s \<le> count_phase Q s"
  using length_filter_mono [of "tasks s" "\<lambda>t. P (phase t)" "\<lambda>t. Q (phase t)"]
  by (simp add: count_phase_def)

lemma count_phase_zero: "count_phase P s = 0 \<longleftrightarrow> (\<forall>t\<in>set (tasks s). \<not> P (phase t))"
  by (simp add: count_phase_def filter_empty_conv)

lemma count_phase_pos: "0 < count_phase P s \<Longrightarrow> \<exists>i<length (tasks s). P (phase (tasks s ! i))"
  using count_phase_zero [of P s] by (auto simp: in_set_conv_nth)

lemma sum_list_bound: "(\<And>n. n \<in> set xs \<Longrightarrow> n \<le> b) \<Longrightarrow> sum_list xs \<le> b * length (xs :: nat list)"
  by (induction xs) (auto simp: add_mono)

text \<open>Without a limit per host a goroutine never looks at the map of semaphores.\<close>

fun hostless :: "phase \<Rightarrow> bool" where
  "hostless (Looked c) = False" | "hostless (Made c) = False" | "hostless (Acquiring c) = False"
| "hostless (Receiving c) = False" | "hostless p = True"

interpretation no_hosts: invariant "sched_step lim" sched_init
  "\<lambda>s. perHost lim = 0 \<longrightarrow> (\<forall>t\<in>set (tasks s). hostless (phase t))"
proof unfold_locales
  fix s s'
  let ?I = "\<lambda>s. perHost lim = 0 \<longrightarrow> (\<forall>t\<in>set (tasks s). hostless (phase t))"
  assume "sched_step lim s s'" and I: "?I s"
  then show "?I s'"
  proof cases
    case (do_spawn h)
    then show ?thesis using I by (simp add: spawn_def)
  next
    case (do_sync i h)
    have "set (tasks s') \<subseteq> insert ((tasks s ! i)\<lparr>phase := Awaiting (length (tasks s))\<rparr>) (set (tasks (spawn h s)))"
      using do_sync set_update_subset_insert by (simp add: spawn_sync_def tasks_goto spawn_nth)
    then show ?thesis using I by (auto simp: spawn_def)
  next
    case (do_step i)
    have "hostless (phase (tasks s ! i))" if "perHost lim = 0"
      using do_step(1) that I by simp
    then have "hostless (phase (tasks s' ! i))" if "perHost lim = 0"
      using do_step that
      by (auto simp: task_step_def Let_def phase_goto split: phase.splits option.splits if_splits)
    moreover have "set (tasks s') \<subseteq> insert ((tasks s ! i)\<lparr>phase := phase (tasks s' ! i)\<rparr>) (set (tasks s))"
      using step_tasks [OF do_step] set_update_subset_insert by metis
    ultimately show ?thesis using I by auto
  qed
qed simp

section \<open>What the semaphores and the wait group promise\<close>

text \<open>C22: At most \<open>ConcurrentRequests\<close> requests are handled at the same time.\<close>

theorem concurrent_requests_limit:
  assumes "sched_reachable lim s" and "perScraper lim \<noteq> 0"
  shows "count_phase (\<lambda>p. p = Running) s \<le> perScraper lim"
proof -
  have "count_phase (\<lambda>p. p = Running) s \<le> count_phase holds_slot s"
    by (rule count_phase_mono) simp
  then show ?thesis using slots.always [OF assms(1)] assms(2) by simp
qed

definition two_limit :: limits where
  "two_limit = \<lparr>perScraper = 2, perHost = 0\<rparr>"

definition two_running :: "choice list" where
  "two_running = [Go ''a'', Go ''a'', Go ''b'', Step 0, Step 1, Step 0, Step 1]"

lemma run_schedule_init: "run_schedule lim cs sched_init = Some s \<Longrightarrow> sched_reachable lim s"
  by (rule run_schedule_reachable) auto

lemmas schedule_simps = sched_init_def spawn_def spawn_sync_def task_step_def goto_def count_phase_def Let_def

lemma two_running_run:
  "\<exists>s. run_schedule two_limit two_running sched_init = Some s
     \<and> count_phase (\<lambda>p. p = Running) s = 2 \<and> wgRequests s = 3
     \<and> (\<forall>t\<in>set (tasks s). \<not> awaits (phase t))"
  by (simp add: two_running_def two_limit_def schedule_simps)

theorem concurrent_requests_limit_witness:
  "\<exists>s. run_schedule two_limit two_running sched_init = Some s
     \<and> 2 = count_phase (\<lambda>p. p = Running) s
     \<and> count_phase (\<lambda>p. p = Running) s \<le> perScraper two_limit"
proof -
  obtain s where s: "run_schedule two_limit two_running sched_init = Some s"
    "count_phase (\<lambda>p. p = Running) s = 2" using two_running_run by blast
  with concurrent_requests_limit [OF run_schedule_init, of two_limit two_running s]
  show ?thesis by (auto simp: two_limit_def)
qed

text \<open>C23: The wait group counts the requests that are not handled yet: it never goes negative (which
  would panic), and it is zero, so that \<open>Start\<close> goes on, exactly when every request is handled.\<close>

theorem wait_group_counts:
  assumes "sched_reachable lim s"
  shows "wgRequests s = int (length (filter (\<lambda>t. undone (phase t)) (tasks s)))
    \<and> (wgRequests s = 0 \<longleftrightarrow> (\<forall>t\<in>set (tasks s). \<not> undone (phase t)))"
  using wait_group.always [OF assms] count_phase_zero [of undone s]
  by (simp_all add: count_phase_def)

theorem wait_group_counts_witness:
  "\<exists>s. run_schedule two_limit two_running sched_init = Some s \<and> wgRequests s = 3
     \<and> 3 = int (length (filter (\<lambda>t. undone (phase t)) (tasks s)))"
proof -
  obtain s where s: "run_schedule two_limit two_running sched_init = Some s" "wgRequests s = 3"
    using two_running_run by blast
  with wait_group_counts [OF run_schedule_init [OF s(1)]] show ?thesis by simp
qed

text \<open>With a limit per host, at most that many requests are handled at the same time for each
  channel that was made: the code bounds the requests per channel, not per host.\<close>

theorem host_limit_per_channel:
  assumes "sched_reachable lim s" and "perHost lim \<noteq> 0"
  shows "count_phase (\<lambda>p. p = Running) s \<le> perHost lim * length (channels s)"
proof -
  have "count_phase (\<lambda>p. p = Running) s \<le> count_phase holds_token s"
    by (rule count_phase_mono) simp
  also have "\<dots> = sum_list (channels s)" using tokens.always [OF assms(1)] assms(2) by simp
  also have "\<dots> \<le> perHost lim * length (channels s)"
    using tokens.always [OF assms(1)] assms(2)
    by (intro sum_list_bound) simp
  finally show ?thesis .
qed

definition one_per_host :: limits where
  "one_per_host = \<lparr>perScraper = 0, perHost = 1\<rparr>"

text \<open>Both goroutines look before either puts its channel into the map.\<close>

definition both_look :: "choice list" where
  "both_look = [Go ''h'', Go ''h'', Step 0, Step 1, Step 0, Step 1, Step 0, Step 1, Step 0, Step 1,
     Step 0, Step 1]"

lemma both_look_run:
  "\<exists>s. run_schedule one_per_host both_look sched_init = Some s
     \<and> map phase (tasks s) = [Running, Running] \<and> channels s = [1, 1]"
  by (simp add: both_look_def one_per_host_def schedule_simps)

theorem host_limit_per_channel_witness:
  "\<exists>s. run_schedule one_per_host both_look sched_init = Some s
     \<and> count_phase (\<lambda>p. p = Running) s \<le> 1 * 2"
proof -
  obtain s where s: "run_schedule one_per_host both_look sched_init = Some s" "channels s = [1, 1]"
    using both_look_run by blast
  with host_limit_per_channel [OF run_schedule_init [OF s(1)]]
  show ?thesis by (simp add: one_per_host_def)
qed

section \<open>Every request gets its turn\<close>

fun rank :: "phase \<Rightarrow> nat" where
  "rank Spawned = 9" | "rank Admitted = 8" | "rank (Looked None) = 7" | "rank (Made c) = 6"
| "rank (Looked (Some c)) = 6" | "rank (Awaiting c) = 5" | "rank (Acquiring c) = 5" | "rank Running = 4" | "rank Counted = 3"
| "rank Released = 2" | "rank (Receiving c) = 1" | "rank Finished = 0"

definition work :: "sched \<Rightarrow> nat" where
  "work s = (\<Sum>t\<leftarrow>tasks s. rank (phase t))"

lemma rank_zero: "rank p = 0 \<longleftrightarrow> p = Finished"
  by (cases p rule: rank.cases) auto

lemma rank_le: "rank p \<le> 9"
  by (cases p rule: rank.cases) auto

lemma rank_looked: "rank (Looked c) < 8"
  by (cases c) auto

lemma step_rank:
  assumes "i < length (tasks s)" and "task_step lim i s = Some s'"
  shows "rank (phase (tasks s' ! i)) < rank (phase (tasks s ! i))"
  using assms
  by (auto simp: task_step_def Let_def phase_goto rank_looked
      split: phase.splits option.splits if_splits)

lemma step_work:
  assumes "i < length (tasks s)" and "task_step lim i s = Some s'"
  shows "work s' < work s"
proof -
  let ?r = "\<lambda>t. rank (phase t)"
  have "map ?r (tasks s') = (map ?r (tasks s))[i := ?r (tasks s' ! i)]"
    by (subst step_tasks [OF assms]) (simp add: map_update)
  moreover have "sum_list ((map ?r (tasks s))[i := ?r (tasks s' ! i)]) + ?r (tasks s ! i) =
    sum_list (map ?r (tasks s)) + ?r (tasks s' ! i)"
    using sum_list_update_nat [of i "map ?r (tasks s)" "?r (tasks s' ! i)"] assms(1) by simp
  ultimately show ?thesis using step_rank [OF assms] by (simp add: work_def)
qed

lemma work_zero: "work s = 0 \<longleftrightarrow> (\<forall>t\<in>set (tasks s). phase t = Finished)"
  by (simp add: work_def rank_zero)

lemma work_le: "work s \<le> 9 * length (tasks s)"
proof -
  have "sum_list (map (\<lambda>t. rank (phase t)) ts) \<le> 9 * length ts" for ts
  proof (induction ts)
    case (Cons t ts)
    then show ?case using rank_le [of "phase t"] by simp
  qed simp
  then show ?thesis by (simp add: work_def)
qed

lemma step_length: "i < length (tasks s) \<Longrightarrow> task_step lim i s = Some s' \<Longrightarrow>
  length (tasks s') = length (tasks s)"
  by (metis length_list_update step_tasks)

abbreviation steps :: "nat list \<Rightarrow> choice list" where
  "steps is \<equiv> map Step is"

lemma steps_work: "run_schedule lim (steps is) s = Some s' \<Longrightarrow> length is + work s' \<le> work s"
proof (induction "is" arbitrary: s)
  case (Cons i "is")
  then obtain s1 where "i < length (tasks s)" "task_step lim i s = Some s1"
    and "run_schedule lim (steps is) s1 = Some s'"
    by (auto split: if_splits option.splits)
  then show ?case using Cons.IH [of s1] step_work [of i s lim s1] by simp
qed simp

text \<open>No step makes a goroutine wait for a synchronized request.\<close>

definition nobody_awaits :: "sched \<Rightarrow> bool" where
  "nobody_awaits s \<longleftrightarrow> (\<forall>t\<in>set (tasks s). \<not> awaits (phase t))"

lemma step_awaits:
  assumes "i < length (tasks s)" and "task_step lim i s = Some s'" and "nobody_awaits s"
  shows "nobody_awaits s'"
proof -
  have "\<not> awaits (phase (tasks s' ! i))"
    using assms(1,2) by (auto simp: task_step_def Let_def phase_goto
        split: phase.splits option.splits if_splits)
  moreover have "set (tasks s') \<subseteq> insert ((tasks s ! i)\<lparr>phase := phase (tasks s' ! i)\<rparr>) (set (tasks s))"
    using step_tasks [OF assms(1,2)] set_update_subset_insert by metis
  ultimately show ?thesis using assms(3) by (auto simp: nobody_awaits_def)
qed

lemma steps_awaits:
  "run_schedule lim (steps is) s = Some s' \<Longrightarrow> nobody_awaits s \<Longrightarrow> nobody_awaits s'"
proof (induction "is" arbitrary: s)
  case (Cons i "is")
  then obtain s1 where "i < length (tasks s)" "task_step lim i s = Some s1"
    and "run_schedule lim (steps is) s1 = Some s'"
    by (auto split: if_splits option.splits)
  then show ?case using Cons.IH [of s1] Cons.prems(2) step_awaits by blast
qed simp

text \<open>Without a limit per host and without synchronized requests, a goroutine that is not finished can
  make a step, or another can.\<close>

lemma progress:
  assumes "sched_reachable lim s" and "perHost lim = 0" and "t \<in> set (tasks s)"
    and "phase t \<noteq> Finished" and "nobody_awaits s"
  shows "\<exists>i<length (tasks s). \<exists>s'. task_step lim i s = Some s'"
proof -
  have plain: "hostless (phase (tasks s ! j)) \<and> \<not> awaits (phase (tasks s ! j))"
    if "j < length (tasks s)" for j
    using no_hosts.always [OF assms(1)] assms(2,5) that by (simp add: nobody_awaits_def)
  have slot: "\<exists>s'. task_step lim j s = Some s'"
    if "j < length (tasks s)" "holds_slot (phase (tasks s ! j))" for j
  proof -
    have "0 < semGlobal s" if "perScraper lim \<noteq> 0"
    proof -
      have "count_phase holds_slot s \<noteq> 0"
        using \<open>j < length (tasks s)\<close> \<open>holds_slot _\<close> count_phase_zero [of holds_slot s] by auto
      then show ?thesis using slots.always [OF assms(1)] that by simp
    qed
    then show ?thesis using that plain [OF that(1)] assms(2)
      by (cases "phase (tasks s ! j)") (auto simp: task_step_def Let_def)
  qed
  obtain i where i: "i < length (tasks s)" "phase (tasks s ! i) \<noteq> Finished"
    using assms(3,4) by (auto simp: in_set_conv_nth)
  show ?thesis
  proof (cases "perScraper lim = 0 \<or> phase (tasks s ! i) \<noteq> Spawned \<or> semGlobal s < perScraper lim")
    case True
    then have "\<exists>s'. task_step lim i s = Some s'"
      using slot [OF i(1)] i plain [OF i(1)] assms(2)
      by (cases "phase (tasks s ! i)") (auto simp: task_step_def Let_def)
    then show ?thesis using i(1) by blast
  next
    case False
    then have "0 < count_phase holds_slot s" using slots.always [OF assms(1)] by auto
    then show ?thesis using slot count_phase_pos by blast
  qed
qed

lemma steps_finish:
  assumes "sched_reachable lim s" and "perHost lim = 0" and "nobody_awaits s"
  shows "\<exists>is s'. run_schedule lim (steps is) s = Some s' \<and> work s' = 0"
  using assms(1,3)
proof (induction "work s" arbitrary: s rule: less_induct)
  case less
  show ?case
  proof (cases "work s = 0")
    case True
    then have "run_schedule lim (steps []) s = Some s \<and> work s = 0" by simp
    then show ?thesis by blast
  next
    case False
    then obtain t where "t \<in> set (tasks s)" "phase t \<noteq> Finished"
      using work_zero [of s] by auto
    then obtain i s1 where i: "i < length (tasks s)" "task_step lim i s = Some s1"
      using progress [OF less.prems(1) assms(2) _ _ less.prems(2)] by blast
    obtain "is" s' where "run_schedule lim (steps is) s1 = Some s'" "work s' = 0"
      using less.hyps [OF step_work [OF i]] less.prems do_step [OF i] step_awaits [OF i] by blast
    then have "run_schedule lim (steps (i # is)) s = Some s' \<and> work s' = 0" using i by simp
    then show ?thesis by blast
  qed
qed

text \<open>A goroutine makes at most nine steps, so without new requests every schedule ends after at
  most nine steps per goroutine.\<close>

theorem goroutines_terminate:
  assumes "run_schedule lim (map Step is) s = Some s'"
  shows "length is \<le> 9 * length (tasks s)"
  using steps_work [OF assms] work_le [of s] by simp

theorem goroutines_terminate_witness:
  "length [0, 1, 0 :: nat] \<le> 9 * length (tasks (spawn ''b'' (spawn ''a'' sched_init)))"
proof -
  have "run_schedule two_limit (map Step [0, 1, 0]) (spawn ''b'' (spawn ''a'' sched_init)) \<noteq> None"
    by (simp add: two_limit_def schedule_simps)
  then show ?thesis using goroutines_terminate by blast
qed

text \<open>C24: Without a limit per host and without synchronized requests there is no deadlock: a schedule without new requests that cannot be
  continued has finished every request, the wait group is at zero and every slot is free again; and
  such a schedule exists from every reachable state.\<close>

theorem no_deadlock_without_host_limit:
  assumes "sched_reachable lim s" and "perHost lim = 0" and "\<forall>t\<in>set (tasks s). \<not> awaits (phase t)"
  shows "(\<exists>is s'. run_schedule lim (map Step is) s = Some s' \<and> (\<forall>t\<in>set (tasks s'). phase t = Finished))
    \<and> (\<forall>is s'. run_schedule lim (map Step is) s = Some s'
         \<and> (\<forall>i<length (tasks s'). task_step lim i s' = None)
       \<longrightarrow> (\<forall>t\<in>set (tasks s'). phase t = Finished) \<and> wgRequests s' = 0
           \<and> (perScraper lim \<noteq> 0 \<longrightarrow> semGlobal s' = 0))"
proof (intro conjI allI impI)
  have none: "nobody_awaits s" using assms(3) by (simp add: nobody_awaits_def)
  show "\<exists>is s'. run_schedule lim (map Step is) s = Some s' \<and> (\<forall>t\<in>set (tasks s'). phase t = Finished)"
    using steps_finish [OF assms(1,2) none] work_zero by blast
next
  have none: "nobody_awaits s" using assms(3) by (simp add: nobody_awaits_def)
  fix "is" s'
  assume run: "run_schedule lim (map Step is) s = Some s' \<and> (\<forall>i<length (tasks s'). task_step lim i s' = None)"
  then have r: "sched_reachable lim s'" using run_schedule_reachable assms(1) by blast
  show fin: "\<forall>t\<in>set (tasks s'). phase t = Finished"
    using progress [OF r assms(2) _ _ steps_awaits [OF _ none]] run by fastforce
  then show "wgRequests s' = 0"
    using wait_group.always [OF r] count_phase_zero [of undone s'] by simp
  show "semGlobal s' = 0" if "perScraper lim \<noteq> 0"
    using slots.always [OF r] fin that count_phase_zero [of holds_slot s'] by simp
qed

theorem no_deadlock_without_host_limit_witness:
  "\<exists>s is s'. run_schedule two_limit two_running sched_init = Some s \<and> wgRequests s = 3
     \<and> run_schedule two_limit (map Step is) s = Some s' \<and> (\<forall>t\<in>set (tasks s'). phase t = Finished)"
proof -
  obtain s where s: "run_schedule two_limit two_running sched_init = Some s" "wgRequests s = 3"
    and none: "\<forall>t\<in>set (tasks s). \<not> awaits (phase t)"
    using two_running_run by blast
  have "perHost two_limit = 0" by (simp add: two_limit_def)
  from no_deadlock_without_host_limit [OF run_schedule_init [OF s(1)] this none] s show ?thesis by blast
qed

section \<open>Synchronized requests\<close>

text \<open>A goroutine whose callback waits for a synchronized request that has not got a slot yet.\<close>

definition waits_for_slot :: "sched \<Rightarrow> task \<Rightarrow> bool" where
  "waits_for_slot s t =
     (case phase t of Awaiting c \<Rightarrow> c < length (tasks s) \<and> phase (tasks s ! c) = Spawned | _ \<Rightarrow> False)"

text \<open>The goroutines \<open>W\<close> wait for ever, each for the one that \<open>f\<close> gives.\<close>

definition all_wait :: "nat set \<Rightarrow> (nat \<Rightarrow> nat) \<Rightarrow> sched \<Rightarrow> bool" where
  "all_wait W f s \<longleftrightarrow> (\<forall>j\<in>W. j < length (tasks s) \<and> f j < length (tasks s)
     \<and> phase (tasks s ! j) = Awaiting (f j) \<and> phase (tasks s ! f j) = Spawned)"

lemma all_wait_full:
  assumes "sched_reachable lim s" and "perScraper lim \<noteq> 0" and "all_wait W f s" and "card W = perScraper lim"
  shows "semGlobal s = perScraper lim"
proof -
  let ?H = "{j. j < length (tasks s) \<and> holds_slot (phase (tasks s ! j))}"
  have "W \<subseteq> ?H" using assms(3) by (auto simp: all_wait_def)
  then have "card W \<le> card ?H" by (intro card_mono) auto
  then show ?thesis using slots.always [OF assms(1)] assms(2,4)
    by (simp add: count_phase_def length_filter_conv_card)
qed

lemma all_wait_step:
  assumes "sched_reachable lim s" and "perScraper lim \<noteq> 0" and W: "all_wait W f s" "card W = perScraper lim"
    and "sched_step lim s s'"
  shows "all_wait W f s'"
  using assms(5)
proof cases
  case (do_spawn h)
  then show ?thesis using W(1) by (auto simp: all_wait_def spawn_nth)
next
  case (do_sync i h)
  then have "i \<noteq> j \<and> i \<noteq> f j" if "j \<in> W" for j using W(1) that by (auto simp: all_wait_def)
  then have "tasks s' ! j = tasks s ! j \<and> tasks s' ! f j = tasks s ! f j" if "j \<in> W" for j
    using W(1) that unfolding do_sync(1) all_wait_def by (metis spawn_sync_other)
  then show ?thesis using W(1) do_sync(1) by (auto simp: all_wait_def)
next
  case (do_step i)
  have "j \<noteq> i \<and> f j \<noteq> i" if "j \<in> W" for j
    using W(1) that do_step(2) all_wait_full [OF assms(1,2) W] assms(2)
    by (auto simp: all_wait_def task_step_def)
  moreover have "phase (tasks s' ! k) = phase (tasks s ! k)" if "k \<noteq> i" for k
    by (subst step_tasks [OF do_step]) (use that in \<open>simp add: nth_list_update_neq\<close>)
  moreover have "length (tasks s') = length (tasks s)" using step_tasks [OF do_step] by (metis length_list_update)
  ultimately show ?thesis using W(1) by (simp add: all_wait_def)
qed

lemma all_wait_always:
  assumes "reachable (sched_step lim) s s'" and "sched_reachable lim s" and "perScraper lim \<noteq> 0"
    and "all_wait W f s" and "card W = perScraper lim"
  shows "all_wait W f s'"
  using assms(1)
proof induction
  case (next_state s1 s2)
  then show ?case using all_wait_step [OF reachable_trans [OF _ assms(2)] assms(3) _ assms(5)] by blast
qed (rule assms(4))

text \<open>C27: A synchronized request that a callback makes needs a slot of \<open>ConcurrentRequests\<close> while its callback
  keeps one. When the last free slot belongs to a callback that makes such a request, the others being kept by
  callbacks that wait in the same way (none, with a limit of one), the scraper is deadlocked: whatever happens
  later, also if more requests are made, the callback goes on waiting, its request does not start, and the
  wait group does not get to zero, so that \<open>Start\<close> never returns.\<close>

theorem synchronized_request_deadlocks:
  assumes "sched_reachable lim s" and "i < length (tasks s)" and "phase (tasks s ! i) = Running"
    and "Suc (length (filter (waits_for_slot s) (tasks s))) = perScraper lim"
    and "reachable (sched_step lim) (spawn_sync i h s) s'"
  shows "phase (tasks s' ! i) = Awaiting (length (tasks s)) \<and> phase (tasks s' ! length (tasks s)) = Spawned
    \<and> 0 < wgRequests s'"
proof -
  let ?V = "{j. j < length (tasks s) \<and> waits_for_slot s (tasks s ! j)}"
  let ?f = "\<lambda>j. if j = i then length (tasks s) else (case phase (tasks s ! j) of Awaiting c \<Rightarrow> c | _ \<Rightarrow> 0)"
  let ?s = "spawn_sync i h s"
  have reach: "sched_reachable lim ?s" using next_state [OF assms(1) do_sync [OF assms(2,3)]] .
  have new: "tasks (spawn h s) ! length (tasks s) = \<lparr>host = h, phase = Spawned\<rparr>" by (simp add: spawn_def)
  have "i \<notin> ?V" using assms(3) by (simp add: waits_for_slot_def)
  then have card: "card (insert i ?V) = perScraper lim" using assms(4) by (simp add: length_filter_conv_card)
  have old: "phase (tasks ?s ! k) = phase (tasks s ! k)" if "k < length (tasks s)" "k \<noteq> i" for k
    using spawn_sync_other [OF that] by simp
  have at_i: "phase (tasks ?s ! i) = Awaiting (length (tasks s))" "phase (tasks ?s ! length (tasks s)) = Spawned"
    using assms(2) new by (simp_all add: spawn_sync_def phase_goto)
  have "phase (tasks ?s ! j) = Awaiting (?f j) \<and> ?f j < length (tasks s) \<and> phase (tasks ?s ! ?f j) = Spawned"
    if j: "j \<in> ?V" for j
  proof -
    obtain c where "phase (tasks s ! j) = Awaiting c" "c < length (tasks s)" "phase (tasks s ! c) = Spawned"
      using j by (cases "phase (tasks s ! j)") (auto simp: waits_for_slot_def)
    moreover from this have "j \<noteq> i" "c \<noteq> i" using assms(3) by auto
    ultimately show ?thesis using j old by simp
  qed
  then have "all_wait (insert i ?V) ?f ?s"
    unfolding all_wait_def using at_i assms(2) \<open>i \<notin> ?V\<close> by (fastforce simp: less_SucI)
  from all_wait_always [OF assms(5) reach _ this card] have "all_wait (insert i ?V) ?f s'"
    using assms(4) by simp
  then have now: "i < length (tasks s')" "phase (tasks s' ! i) = Awaiting (length (tasks s))"
    "phase (tasks s' ! length (tasks s)) = Spawned" by (auto simp: all_wait_def)
  then have "count_phase undone s' \<noteq> 0" using count_phase_zero [of undone s'] by (metis nth_mem undone.simps(11))
  then show ?thesis
    using now wait_group.always [OF reachable_trans [OF assms(5) reach]] by simp
qed

theorem synchronized_request_deadlocks_witness:
  "\<exists>s s'. run_schedule \<lparr>perScraper = 1, perHost = 0\<rparr> [Go ''h'', Step 0, Step 0] sched_init = Some s
     \<and> run_schedule \<lparr>perScraper = 1, perHost = 0\<rparr> [GoSync 0 ''h'', Go ''g''] s = Some s'
     \<and> phase (tasks s' ! 0) = Awaiting 1 \<and> 0 < wgRequests s'"
proof -
  let ?l = "\<lparr>perScraper = 1, perHost = 0\<rparr>"
  obtain s where s: "run_schedule ?l [Go ''h'', Step 0, Step 0] sched_init = Some s"
    "tasks s = [\<lparr>host = ''h'', phase = Running\<rparr>]"
    by (simp add: schedule_simps)
  then have "reachable (sched_step ?l) (spawn_sync 0 ''h'' s) (spawn ''g'' (spawn_sync 0 ''h'' s))"
    by (auto intro: do_spawn)
  from synchronized_request_deadlocks [OF run_schedule_init [OF s(1)] _ _ _ this] s show ?thesis
    by (simp add: waits_for_slot_def)
qed

section \<open>The limit per host\<close>

text \<open>\<open>ConcurrentRequestsPerDomain\<close> is not a limit per host: two goroutines that look up the
  semaphore of a new host at the same time each make one, and both requests of the host run although
  the limit is one.\<close>

theorem host_limit_exceeded:
  "\<exists>s. sched_reachable \<lparr>perScraper = 0, perHost = 1\<rparr> s
     \<and> tasks s = [\<lparr>host = h, phase = Running\<rparr>, \<lparr>host = h, phase = Running\<rparr>]"
proof -
  have "\<exists>s. run_schedule \<lparr>perScraper = 0, perHost = 1\<rparr>
      [Go h, Go h, Step 0, Step 1, Step 0, Step 1, Step 0, Step 1, Step 0, Step 1, Step 0, Step 1]
      sched_init = Some s
    \<and> tasks s = [\<lparr>host = h, phase = Running\<rparr>, \<lparr>host = h, phase = Running\<rparr>]"
    by (simp add: schedule_simps)
  then show ?thesis using run_schedule_init by blast
qed

text \<open>A channel that was made and is not in the map yet is known to its maker only.\<close>

definition made_fresh :: "sched \<Rightarrow> bool" where
  "made_fresh s \<longleftrightarrow> (\<forall>k<length (tasks s). \<forall>c. phase (tasks s ! k) = Made c \<longrightarrow>
     c \<notin> ran (hostSems s) \<and> (\<forall>l<length (tasks s). l \<noteq> k \<longrightarrow> c \<notin> phase_channel (phase (tasks s ! l))))"

lemma made_freshD:
  "made_fresh s \<Longrightarrow> k < length (tasks s) \<Longrightarrow> phase (tasks s ! k) = Made c \<Longrightarrow>
   c \<notin> ran (hostSems s) \<and> (\<forall>l<length (tasks s). l \<noteq> k \<longrightarrow> c \<notin> phase_channel (phase (tasks s ! l)))"
  by (simp add: made_fresh_def)

lemma channels_existD:
  "channels_exist s \<Longrightarrow> k < length (tasks s) \<Longrightarrow> c \<in> phase_channel (phase (tasks s ! k)) \<Longrightarrow> c < length (channels s)"
  by (fastforce simp: channels_exist_def)

lemma step_channel_numbers:
  assumes "i < length (tasks s)" and "task_step lim i s = Some s'"
  shows "ran (hostSems s') \<subseteq> ran (hostSems s) \<union> (if \<exists>c. phase (tasks s ! i) = Made c then phase_channel (phase (tasks s ! i)) else {})"
    and "phase_channel (phase (tasks s' ! i)) \<subseteq> phase_channel (phase (tasks s ! i)) \<union> ran (hostSems s) \<union> {length (channels s)}"
    and "phase (tasks s' ! i) = Made c \<Longrightarrow> c = length (channels s) \<and> phase (tasks s ! i) = Looked None"
    and "phase (tasks s' ! i) = Receiving c \<Longrightarrow> c \<in> ran (hostSems s)"
    and "phase (tasks s' ! i) = Looked (Some c) \<Longrightarrow> c \<in> ran (hostSems s)"
  using assms
  by (auto simp: task_step_def Let_def phase_goto ran_def split: phase.splits option.splits if_splits)

lemma step_other:
  assumes "i < length (tasks s)" and "task_step lim i s = Some s'" and "k \<noteq> i"
  shows "phase (tasks s' ! k) = phase (tasks s ! k)"
  by (subst step_tasks [OF assms(1,2)]) (use assms(3) in \<open>simp add: nth_list_update_neq\<close>)

lemma step_fresh:
  assumes i: "i < length (tasks s)" and st: "task_step lim i s = Some s'" and ex: "channels_exist s" and fr: "made_fresh s"
  shows "made_fresh s'"
  unfolding made_fresh_def step_length [OF i st]
proof (intro allI impI)
  fix k c assume k: "k < length (tasks s)" and made: "phase (tasks s' ! k) = Made c"
  have sems: "d < length (channels s)" if "d \<in> ran (hostSems s)" for d
    using ex that by (auto simp: channels_exist_def)
  show "c \<notin> ran (hostSems s') \<and> (\<forall>l<length (tasks s). l \<noteq> k \<longrightarrow> c \<notin> phase_channel (phase (tasks s' ! l)))"
  proof (cases "k = i")
    case True
    note c = step_channel_numbers(3) [OF i st made [unfolded True]]
    have "c \<notin> ran (hostSems s')" using step_channel_numbers(1) [OF i st] sems c by auto
    moreover have "c \<notin> phase_channel (phase (tasks s' ! l))" if "l < length (tasks s)" "l \<noteq> k" for l
      using channels_existD [OF ex that(1)] step_other [OF i st, of l] that(2) c True by fastforce
    ultimately show ?thesis by blast
  next
    case False
    then have mk: "phase (tasks s ! k) = Made c" using made step_other [OF i st] by simp
    note f = made_freshD [OF fr k mk]
    have lt: "c < length (channels s)" using channels_existD [OF ex k, of c] mk by simp
    have "c \<notin> phase_channel (phase (tasks s ! i))" using f i False by blast
    then have "c \<notin> ran (hostSems s')" using step_channel_numbers(1) [OF i st] f by (auto split: if_splits)
    moreover have "c \<notin> phase_channel (phase (tasks s' ! l))" if "l < length (tasks s)" "l \<noteq> k" for l
      using step_channel_numbers(2) [OF i st] step_other [OF i st, of l] f lt that i False by (cases "l = i") auto
    ultimately show ?thesis by blast
  qed
qed

interpretation fresh: invariant "sched_step lim" sched_init "\<lambda>s. channels_exist s \<and> made_fresh s"
proof unfold_locales
  fix s s'
  assume st: "sched_step lim s s'" and I: "channels_exist s \<and> made_fresh s"
  from st show "channels_exist s' \<and> made_fresh s'"
  proof cases
    case (do_spawn h)
    then show ?thesis using I by (auto simp: channels_exist_def made_fresh_def spawn_def nth_append less_Suc_eq)
  next
    case (do_sync i h)
    have "phase (tasks s' ! k) = (if k = i then Awaiting (length (tasks s)) else phase (tasks (spawn h s) ! k))"
      if "k < length (tasks s')" for k
      using do_sync that by (simp add: spawn_sync_def phase_goto)
    then show ?thesis using I do_sync
      by (auto simp: channels_exist_def made_fresh_def spawn_def nth_append less_Suc_eq all_set_conv_all_nth
          split: if_splits)
  next
    case (do_step i)
    then show ?thesis using step_fresh step_channels_exist I by blast
  qed
qed (simp add: channels_exist_def made_fresh_def, simp add: sched_init_def)

text \<open>
  A channel that is lost: it is not in the map, no goroutine is going to put it there or to receive from it,
  and goroutine \<open>i\<close> has put a token into it or is about to.
\<close>

definition lost :: "nat \<Rightarrow> nat \<Rightarrow> sched \<Rightarrow> bool" where
  "lost c i s \<longleftrightarrow> c < length (channels s) \<and> i < length (tasks s) \<and> c \<notin> ran (hostSems s)
     \<and> (\<forall>k<length (tasks s). phase (tasks s ! k) \<noteq> Made c \<and> phase (tasks s ! k) \<noteq> Receiving c)
     \<and> (phase (tasks s ! i) = Acquiring c \<or> 0 < channels s ! c)"

lemma nth_inc_le: "c < length xs \<Longrightarrow> xs ! c \<le> xs[k := Suc (xs ! k)] ! c"
  by (cases "c = k") simp_all

lemma lost_step:
  assumes "sched_step lim s s'" and L: "lost c i s"
  shows "lost c i s'"
  using assms(1)
proof cases
  case (do_spawn h)
  then show ?thesis using L by (auto simp: lost_def spawn_def nth_append less_Suc_eq)
next
  case (do_sync k h)
  have "phase (tasks s' ! l) = (if l = k then Awaiting (length (tasks s)) else phase (tasks (spawn h s) ! l))"
    if "l < length (tasks s')" for l
    using do_sync that by (simp add: spawn_sync_def phase_goto)
  then show ?thesis using L do_sync
    by (auto simp: lost_def spawn_def nth_append less_Suc_eq split: if_splits)
next
  case (do_step k)
  have "c \<notin> ran (hostSems s')"
    using step_channel_numbers(1) [OF do_step] L do_step(1) by (auto simp: lost_def split: if_splits)
  moreover have "phase (tasks s' ! l) \<noteq> Made c \<and> phase (tasks s' ! l) \<noteq> Receiving c" if "l < length (tasks s)" for l
    using step_channel_numbers(3,4) [OF do_step, of c] step_other [OF do_step, of l] L that
    by (cases "l = k") (auto simp: lost_def)
  moreover have "c < length (channels s')" and "channels s ! c \<le> channels s' ! c"
    and "k = i \<Longrightarrow> phase (tasks s ! i) = Acquiring c \<Longrightarrow> 0 < channels s' ! c"
    using do_step L
    by (auto simp: task_step_def Let_def lost_def nth_append nth_inc_le split: phase.splits option.splits if_splits)
  ultimately show ?thesis using L step_other [OF do_step, of i] step_length [OF do_step]
    unfolding lost_def by (metis less_le_trans)
qed

lemma lost_always: "reachable (sched_step lim) s s' \<Longrightarrow> lost c i s \<Longrightarrow> lost c i s'"
  by (induction rule: reachable.induct) (auto intro: lost_step)

text \<open>C26: Whenever two goroutines have each made a semaphore for the same host, both having found none in the
  map, and they put them there one after the other, a goroutine leaks: in every later state, whatever is
  scheduled and whatever requests are made, some goroutine has not ended. The first semaphore is lost, and the
  token that goes into it is never given back.\<close>

theorem lookup_race_leaks_goroutine:
  assumes "sched_reachable lim s" and "perHost lim \<noteq> 0" and "i < length (tasks s)" and "j < length (tasks s)"
    and "i \<noteq> j" and "host (tasks s ! i) = host (tasks s ! j)"
    and "phase (tasks s ! i) = Made c" and "phase (tasks s ! j) = Made d"
  shows "\<exists>s1. run_schedule lim [Step i, Step j] s = Some s1
    \<and> (\<forall>s2. reachable (sched_step lim) s1 s2 \<longrightarrow> (\<exists>t\<in>set (tasks s2). phase t \<noteq> Finished))"
proof -
  let ?h = "host (tasks s ! i)"
  let ?s1 = "goto j (Acquiring d) (goto i (Acquiring c) (s\<lparr>hostSems := (hostSems s)(?h \<mapsto> d)\<rparr>))"
  have run: "run_schedule lim [Step i, Step j] s = Some ?s1"
    using assms(3-8) by (simp add: task_step_def Let_def goto_def nth_list_update list_update_swap)
  have reach: "sched_reachable lim ?s1" by (rule run_schedule_reachable [OF run assms(1)])
  note I = fresh.always [OF assms(1)]
  note fc = made_freshD [OF I [THEN conjunct2] assms(3,7)] and fd = made_freshD [OF I [THEN conjunct2] assms(4,8)]
  have "c \<noteq> d" using fc assms(4,5,8) by auto
  moreover have "c < length (channels s)" using channels_existD [OF I [THEN conjunct1] assms(3), of c] assms(7) by simp
  moreover have "phase (tasks s ! k) \<noteq> Made c \<and> phase (tasks s ! k) \<noteq> Receiving c" if "k < length (tasks s)" "k \<noteq> i" for k
    using fc that by auto
  ultimately have "lost c i ?s1"
    using fc assms(3-5) by (auto simp: lost_def phase_goto ran_def split: if_splits)
  have "\<exists>t\<in>set (tasks s2). phase t \<noteq> Finished" if "reachable (sched_step lim) ?s1 s2" for s2
  proof -
    have L: "lost c i s2" by (rule lost_always [OF that \<open>lost c i ?s1\<close>])
    show ?thesis
    proof (cases "phase (tasks s2 ! i) = Acquiring c")
      case True
      then show ?thesis using L by (intro bexI [of _ "tasks s2 ! i"]) (auto simp: lost_def)
    next
      case False
      then have "0 < channels s2 ! c" "channels s2 ! c \<in> set (channels s2)" using L by (auto simp: lost_def)
      then have "0 < sum_list (channels s2)" using member_le_sum_list [of "channels s2 ! c" "channels s2"] by simp
      then have "count_phase holds_token s2 \<noteq> 0"
        using tokens.always [OF reachable_trans [OF that reach]] assms(2) by simp
      then obtain t where "t \<in> set (tasks s2)" "holds_token (phase t)" using count_phase_zero [of holds_token s2] by auto
      then show ?thesis by (intro bexI [of _ t]) auto
    qed
  qed
  then show ?thesis using run by blast
qed

text \<open>Two first requests of a host.\<close>

theorem lookup_race_leaks_goroutine_witness:
  "\<exists>s s1. run_schedule one_per_host [Go ''h'', Go ''h'', Step 0, Step 1, Step 0, Step 1, Step 0, Step 1] sched_init = Some s
     \<and> run_schedule one_per_host [Step 0, Step 1] s = Some s1
     \<and> (\<exists>t\<in>set (tasks (spawn ''h'' s1)). phase t \<noteq> Finished)"
proof -
  obtain s where s: "run_schedule one_per_host [Go ''h'', Go ''h'', Step 0, Step 1, Step 0, Step 1, Step 0, Step 1] sched_init = Some s"
    "tasks s = [\<lparr>host = ''h'', phase = Made 0\<rparr>, \<lparr>host = ''h'', phase = Made 1\<rparr>]"
    by (simp add: one_per_host_def schedule_simps)
  have "perHost one_per_host \<noteq> 0" by (simp add: one_per_host_def)
  from lookup_race_leaks_goroutine [OF run_schedule_init [OF s(1)] this, of 0 1 0 1] s(2)
  obtain s1 where "run_schedule one_per_host [Step 0, Step 1] s = Some s1"
    and "\<And>s2. reachable (sched_step one_per_host) s1 s2 \<Longrightarrow> \<exists>t\<in>set (tasks s2). phase t \<noteq> Finished" by auto
  moreover from this(2) have "\<exists>t\<in>set (tasks (spawn ''h'' s1)). phase t \<noteq> Finished" by (blast intro: do_spawn)
  ultimately show ?thesis using s(1) by blast
qed

end
