(* ===== verification/Fanout.thy ===== *)
theory Fanout
  imports Concurrency
begin

text \<open>
  How exported items get from the callbacks to the exporters, and how \<open>Start\<close> ends
  (\<open>startExporters\<close> and the second half of \<open>Start\<close> in \<open>geziyor.go\<close>): the callbacks send on
  \<open>Exports\<close>, a channel with a buffer of one; a dispatcher sends each item to the unbuffered
  channel of every exporter in turn; \<open>Start\<close> waits for the requests, closes \<open>Exports\<close>, waits for
  the exporters and tells the signal waiter to stop. The steps of all of them interleave freely.

  A callback is the list of the items it has still to export. An exporter is a parameter: \<open>fails i xs\<close>
  says that exporter \<open>i\<close> returns an error once it has received the items \<open>xs\<close>. The signal waiter is
  always ready to receive.
\<close>

datatype 'a dispatcher = Idle | Sending 'a nat | Closing nat | Stopped

text \<open>An exporter is at work, or it waits at its channel, or its \<open>Export\<close> has returned.\<close>

datatype status = Busy | Ready | Returned

record 'a exporter =
  got :: "'a list"
  status :: status
  chan_closed :: bool

datatype main_phase = WaitRequests | WaitExporters | Handshake | ScrapingFinished

text \<open>\<open>sent\<close> is not part of the program: it records the items sent on \<open>Exports\<close>.\<close>

record 'a fan =
  callbacks :: "'a list list"
  sent :: "'a list"
  buffer :: "'a list"
  closed :: bool
  dispatcher :: "'a dispatcher"
  exporters :: "'a exporter list"
  wgExporters :: int
  main :: main_phase

text \<open>Without exporters, one goroutine drains \<open>Exports\<close> and is counted in the wait group itself.\<close>

definition startExporters :: "nat \<Rightarrow> 'a list list \<Rightarrow> 'a fan" where
  "startExporters n cbs =
     \<lparr>callbacks = cbs, sent = [], buffer = [], closed = False, dispatcher = Idle,
      exporters = replicate n \<lparr>got = [], status = Busy, chan_closed = False\<rparr>,
      wgExporters = (if n \<noteq> 0 then int n else 1), main = WaitRequests\<rparr>"

datatype action = Produce nat | Dispatch | Exporter nat | Main

definition set_exporter :: "nat \<Rightarrow> ('a exporter \<Rightarrow> 'a exporter) \<Rightarrow> 'a fan \<Rightarrow> 'a fan" where
  "set_exporter i f s = s\<lparr>exporters := (exporters s)[i := f (exporters s ! i)]\<rparr>"

text \<open>A callback sends an item on \<open>Exports\<close>; it waits while the buffer is full.\<close>

definition produce :: "nat \<Rightarrow> 'a fan \<Rightarrow> 'a fan option" where
  "produce i s =
     (if i < length (callbacks s) then
        case callbacks s ! i of
          [] \<Rightarrow> None
        | x # xs \<Rightarrow>
            if length (buffer s) < 1
            then Some (s\<lparr>callbacks := (callbacks s)[i := xs], buffer := buffer s @ [x], sent := sent s @ [x]\<rparr>)
            else None
      else None)"

text \<open>A send on an unbuffered channel needs an exporter that waits at it.\<close>

definition dispatch :: "'a fan \<Rightarrow> 'a fan option" where
  "dispatch s =
     (case dispatcher s of
        Idle \<Rightarrow>
          (case buffer s of
             x # xs \<Rightarrow> Some (s\<lparr>buffer := xs, dispatcher := Sending x 0\<rparr>)
           | [] \<Rightarrow> if closed s then Some (s\<lparr>dispatcher := Closing 0\<rparr>) else None)
      | Sending x i \<Rightarrow>
          (if i < length (exporters s) then
             if status (exporters s ! i) = Ready
             then Some (set_exporter i (\<lambda>e. e\<lparr>got := got e @ [x], status := Busy\<rparr>)
                          (s\<lparr>dispatcher := Sending x (i + 1)\<rparr>))
             else None
           else Some (s\<lparr>dispatcher := Idle\<rparr>))
      | Closing i \<Rightarrow>
          (if i < length (exporters s)
           then Some (set_exporter i (\<lambda>e. e\<lparr>chan_closed := True\<rparr>) (s\<lparr>dispatcher := Closing (i + 1)\<rparr>))
           else Some (s\<lparr>dispatcher := Stopped,
                        wgExporters := wgExporters s - (if exporters s = [] then 1 else 0)\<rparr>))
      | Stopped \<Rightarrow> None)"

definition return_exporter :: "nat \<Rightarrow> 'a fan \<Rightarrow> 'a fan" where
  "return_exporter i s =
     set_exporter i (\<lambda>e. e\<lparr>status := Returned\<rparr>) (s\<lparr>wgExporters := wgExporters s - 1\<rparr>)"

definition run_exporter :: "(nat \<Rightarrow> 'a list \<Rightarrow> bool) \<Rightarrow> nat \<Rightarrow> 'a fan \<Rightarrow> 'a fan option" where
  "run_exporter fails i s =
     (if i < length (exporters s) then
        case status (exporters s ! i) of
          Busy \<Rightarrow>
            if fails i (got (exporters s ! i)) then Some (return_exporter i s)
            else Some (set_exporter i (\<lambda>e. e\<lparr>status := Ready\<rparr>) s)
        | Ready \<Rightarrow> if chan_closed (exporters s ! i) then Some (return_exporter i s) else None
        | Returned \<Rightarrow> None
      else None)"

definition finish_start :: "'a fan \<Rightarrow> 'a fan option" where
  "finish_start s =
     (case main s of
        WaitRequests \<Rightarrow>
          if \<forall>c\<in>set (callbacks s). c = [] then Some (s\<lparr>main := WaitExporters, closed := True\<rparr>) else None
      | WaitExporters \<Rightarrow> if wgExporters s = 0 then Some (s\<lparr>main := Handshake\<rparr>) else None
      | Handshake \<Rightarrow> Some (s\<lparr>main := ScrapingFinished\<rparr>)
      | ScrapingFinished \<Rightarrow> None)"

fun fan_act :: "(nat \<Rightarrow> 'a list \<Rightarrow> bool) \<Rightarrow> action \<Rightarrow> 'a fan \<Rightarrow> 'a fan option" where
  "fan_act fails (Produce i) s = produce i s"
| "fan_act fails Dispatch s = dispatch s"
| "fan_act fails (Exporter i) s = run_exporter fails i s"
| "fan_act fails Main s = finish_start s"

definition fan_step :: "(nat \<Rightarrow> 'a list \<Rightarrow> bool) \<Rightarrow> 'a fan \<Rightarrow> 'a fan \<Rightarrow> bool" where
  "fan_step fails s s' \<longleftrightarrow> (\<exists>a. fan_act fails a s = Some s')"

fun fan_run :: "(nat \<Rightarrow> 'a list \<Rightarrow> bool) \<Rightarrow> action list \<Rightarrow> 'a fan \<Rightarrow> 'a fan option" where
  "fan_run fails [] s = Some s"
| "fan_run fails (a # as) s =
     (case fan_act fails a s of None \<Rightarrow> None | Some s' \<Rightarrow> fan_run fails as s')"

lemma fan_run_reachable:
  "fan_run fails as s = Some s' \<Longrightarrow> reachable (fan_step fails) init s \<Longrightarrow> reachable (fan_step fails) init s'"
  by (induction fails as s rule: fan_run.induct)
    (auto split: option.splits, metis fan_step_def next_state)

end
