(* ===== verification/Fanout_Laws.thy ===== *)
theory Fanout_Laws
  imports Fanout "HOL-Library.Multiset"
begin

text \<open>
  Every exporter gets every item, in the order in which the items were sent; without failing
  exporters \<open>Start\<close> returns; an exporter that fails blocks the dispatcher for good.
\<close>

section \<open>The invariant\<close>

lemma set_exporter_sel [simp]:
  "callbacks (set_exporter i f s) = callbacks s" "sent (set_exporter i f s) = sent s"
  "buffer (set_exporter i f s) = buffer s" "closed (set_exporter i f s) = closed s"
  "dispatcher (set_exporter i f s) = dispatcher s" "wgExporters (set_exporter i f s) = wgExporters s"
  "main (set_exporter i f s) = main s" "length (exporters (set_exporter i f s)) = length (exporters s)"
  by (simp_all add: set_exporter_def)

lemma exporters_set: "exporters (set_exporter i f s) = (exporters s)[i := f (exporters s ! i)]"
  by (simp add: set_exporter_def)

text \<open>How far the dispatcher is: what it has taken from \<open>Exports\<close> and not yet sent to exporter \<open>j\<close>, and
  whether it has closed the channel of exporter \<open>j\<close>.\<close>

fun in_hand :: "'a dispatcher \<Rightarrow> nat \<Rightarrow> 'a list" where
  "in_hand (Sending x i) j = (if i \<le> j then [x] else [])"
| "in_hand d j = []"

fun has_closed :: "'a dispatcher \<Rightarrow> nat \<Rightarrow> bool" where
  "has_closed (Closing i) j = (j < i)"
| "has_closed Stopped j = True"
| "has_closed d j = False"

fun at_end :: "'a dispatcher \<Rightarrow> bool" where
  "at_end (Closing i) = True" | "at_end Stopped = True" | "at_end d = False"

definition delivering :: "(nat \<Rightarrow> 'a list \<Rightarrow> bool) \<Rightarrow> 'a fan \<Rightarrow> bool" where
  "delivering fails s \<longleftrightarrow>
     (\<forall>j<length (exporters s).
        sent s = got (exporters s ! j) @ in_hand (dispatcher s) j @ buffer s
        \<and> chan_closed (exporters s ! j) = has_closed (dispatcher s) j
        \<and> (status (exporters s ! j) = Returned \<longrightarrow>
             fails j (got (exporters s ! j)) \<or> chan_closed (exporters s ! j)))"

definition finishing :: "'a list list \<Rightarrow> 'a fan \<Rightarrow> bool" where
  "finishing cbs s \<longleftrightarrow>
     mset (sent s) + mset (concat (callbacks s)) = mset (concat cbs)
     \<and> (closed s \<longleftrightarrow> main s \<noteq> WaitRequests)
     \<and> (closed s \<longrightarrow> concat (callbacks s) = [])
     \<and> (at_end (dispatcher s) \<longrightarrow> closed s \<and> buffer s = [])
     \<and> length (buffer s) \<le> 1
     \<and> wgExporters s = (if exporters s = [] then (if dispatcher s = Stopped then 0 else 1)
         else int (length (filter (\<lambda>e. status e \<noteq> Returned) (exporters s))))
     \<and> (main s \<in> {Handshake, ScrapingFinished} \<longrightarrow> wgExporters s = 0)"

lemma actE:
  assumes "fan_act fails a s = Some s'"
  obtains (produce) i x xs where "a = Produce i" "i < length (callbacks s)" "callbacks s ! i = x # xs"
      "buffer s = []"
      "s' = s\<lparr>callbacks := (callbacks s)[i := xs], buffer := buffer s @ [x], sent := sent s @ [x]\<rparr>"
  | (take_item) x xs where "a = Dispatch" "dispatcher s = Idle" "buffer s = x # xs"
      "s' = s\<lparr>buffer := xs, dispatcher := Sending x 0\<rparr>"
  | (drained) "a = Dispatch" "dispatcher s = Idle" "buffer s = []" "closed s"
      "s' = s\<lparr>dispatcher := Closing 0\<rparr>"
  | (send_item) x i where "a = Dispatch" "dispatcher s = Sending x i" "i < length (exporters s)"
      "status (exporters s ! i) = Ready"
      "s' = set_exporter i (\<lambda>e. e\<lparr>got := got e @ [x], status := Busy\<rparr>) (s\<lparr>dispatcher := Sending x (i + 1)\<rparr>)"
  | (next_item) x i where "a = Dispatch" "dispatcher s = Sending x i" "\<not> i < length (exporters s)"
      "s' = s\<lparr>dispatcher := Idle\<rparr>"
  | (close_chan) i where "a = Dispatch" "dispatcher s = Closing i" "i < length (exporters s)"
      "s' = set_exporter i (\<lambda>e. e\<lparr>chan_closed := True\<rparr>) (s\<lparr>dispatcher := Closing (i + 1)\<rparr>)"
  | (stop) i where "a = Dispatch" "dispatcher s = Closing i" "\<not> i < length (exporters s)"
      "s' = s\<lparr>dispatcher := Stopped, wgExporters := wgExporters s - (if exporters s = [] then 1 else 0)\<rparr>"
  | (fail) i where "a = Exporter i" "i < length (exporters s)" "status (exporters s ! i) = Busy"
      "fails i (got (exporters s ! i))" "s' = return_exporter i s"
  | (be_ready) i where "a = Exporter i" "i < length (exporters s)" "status (exporters s ! i) = Busy"
      "\<not> fails i (got (exporters s ! i))" "s' = set_exporter i (\<lambda>e. e\<lparr>status := Ready\<rparr>) s"
  | (end_exporter) i where "a = Exporter i" "i < length (exporters s)" "status (exporters s ! i) = Ready"
      "chan_closed (exporters s ! i)" "s' = return_exporter i s"
  | (requests_done) "a = Main" "main s = WaitRequests" "\<forall>c\<in>set (callbacks s). c = []"
      "s' = s\<lparr>main := WaitExporters, closed := True\<rparr>"
  | (exporters_done) "a = Main" "main s = WaitExporters" "wgExporters s = 0" "s' = s\<lparr>main := Handshake\<rparr>"
  | (finished) "a = Main" "main s = Handshake" "s' = s\<lparr>main := ScrapingFinished\<rparr>"
proof (cases a)
  case (Produce i)
  with assms have p: "produce i s = Some s'" by simp
  then obtain x xs where "i < length (callbacks s)" "callbacks s ! i = x # xs" "buffer s = []"
    by (auto simp: produce_def split: if_splits list.splits)
  with p Produce show thesis by (intro produce [of i x xs]) (simp_all add: produce_def)
next
  case Dispatch
  with assms have d: "dispatch s = Some s'" by simp
  show thesis
  proof (cases "dispatcher s")
    case Idle
    show thesis
    proof (cases "buffer s")
      case Nil
      then show thesis using d Dispatch Idle by (intro drained) (auto simp: dispatch_def split: if_splits)
    next
      case (Cons x xs)
      then show thesis using d Dispatch Idle by (intro take_item [of x xs]) (simp_all add: dispatch_def)
    qed
  next
    case (Sending x i)
    show thesis
    proof (cases "i < length (exporters s)")
      case True
      then show thesis using d Dispatch Sending
        by (intro send_item [of x i]) (auto simp: dispatch_def split: if_splits)
    next
      case False
      then show thesis using d Dispatch Sending by (intro next_item [of x i]) (auto simp: dispatch_def)
    qed
  next
    case (Closing i)
    show thesis
    proof (cases "i < length (exporters s)")
      case True
      then show thesis using d Dispatch Closing by (intro close_chan [of i]) (auto simp: dispatch_def)
    next
      case False
      then show thesis using d Dispatch Closing by (intro stop [of i]) (auto simp: dispatch_def)
    qed
  qed (use d in \<open>simp add: dispatch_def\<close>)
next
  case (Exporter i)
  with assms have r: "run_exporter fails i s = Some s'" by simp
  then have i: "i < length (exporters s)" by (simp add: run_exporter_def split: if_splits)
  show thesis
  proof (cases "status (exporters s ! i)")
    case Busy
    show thesis
    proof (cases "fails i (got (exporters s ! i))")
      case True
      then show thesis using r i Busy Exporter by (intro fail [of i]) (auto simp: run_exporter_def)
    next
      case False
      then show thesis using r i Busy Exporter by (intro be_ready [of i]) (auto simp: run_exporter_def)
    qed
  next
    case Ready
    then show thesis using r i Exporter
      by (intro end_exporter [of i]) (auto simp: run_exporter_def split: if_splits)
  qed (use r i in \<open>simp add: run_exporter_def\<close>)
next
  case Main
  with assms have f: "finish_start s = Some s'" by simp
  show thesis
  proof (cases "main s")
    case WaitRequests
    then show thesis using f Main by (intro requests_done) (auto simp: finish_start_def split: if_splits)
  next
    case WaitExporters
    then show thesis using f Main by (intro exporters_done) (auto simp: finish_start_def split: if_splits)
  next
    case Handshake
    then show thesis using f Main by (intro finished) (auto simp: finish_start_def)
  qed (use f in \<open>simp add: finish_start_def\<close>)
qed

lemma filter_update_returned:
  "i < length es \<Longrightarrow> status (es ! i) \<noteq> Returned \<Longrightarrow>
   int (length (filter (\<lambda>e. status e \<noteq> Returned) (es[i := (es ! i)\<lparr>status := Returned\<rparr>]))) =
     int (length (filter (\<lambda>e. status e \<noteq> Returned) es)) - 1"
  for es :: "'a exporter list"
proof (induction es arbitrary: i)
  case (Cons e es)
  then show ?case by (cases i) auto
qed simp

lemma filter_update_same:
  "(status (f (es ! i)) \<noteq> Returned) = (status (es ! i) \<noteq> Returned) \<Longrightarrow> i < length es \<Longrightarrow>
   length (filter (\<lambda>e. status e \<noteq> Returned) (es[i := f (es ! i)])) =
     length (filter (\<lambda>e. status e \<noteq> Returned) es)"
  for es :: "'a exporter list"
proof (induction es arbitrary: i)
  case (Cons e es)
  then show ?case by (cases i) auto
qed simp

lemma step_delivering:
  assumes "fan_act fails a s = Some s'" and "delivering fails s"
  shows "delivering fails s'"
  using assms(1)
proof (cases rule: actE)
  case produce
  then show ?thesis using assms(2) by (auto simp: delivering_def)
next
  case take_item
  then show ?thesis using assms(2) by (auto simp: delivering_def)
next
  case drained
  then show ?thesis using assms(2) by (auto simp: delivering_def)
next
  case (send_item x i)
  have "sent s = got (exporters s ! j) @ in_hand (Sending x i) j @ buffer s
      \<and> \<not> chan_closed (exporters s ! j)
      \<and> (status (exporters s ! j) = Returned \<longrightarrow> fails j (got (exporters s ! j)))"
    if "j < length (exporters s)" for j
    using assms(2) that send_item(2) by (auto simp: delivering_def)
  then show ?thesis using send_item by (simp add: delivering_def exporters_set nth_list_update)
next
  case next_item
  then show ?thesis using assms(2) by (auto simp: delivering_def)
next
  case close_chan
  then show ?thesis using assms(2) by (auto simp: delivering_def exporters_set nth_list_update)
next
  case stop
  then show ?thesis using assms(2) by (auto simp: delivering_def)
next
  case fail
  then show ?thesis using assms(2)
    by (auto simp: delivering_def return_exporter_def exporters_set nth_list_update)
next
  case be_ready
  then show ?thesis using assms(2) by (auto simp: delivering_def exporters_set nth_list_update)
next
  case end_exporter
  then show ?thesis using assms(2)
    by (auto simp: delivering_def return_exporter_def exporters_set nth_list_update)
qed (use assms(2) in \<open>auto simp: delivering_def\<close>)


lemma concat_nil: "concat xss = [] \<longleftrightarrow> (\<forall>xs\<in>set xss. xs = [])"
  by auto

lemma concat_update:
  "i < length xss \<Longrightarrow> xss ! i = x # xs \<Longrightarrow>
   mset (concat xss) = add_mset x (mset (concat (xss[i := xs])))"
proof (induction xss arbitrary: i)
  case (Cons ys xss)
  then show ?case by (cases i) auto
qed simp

lemma exporters_set_nil [simp]: "exporters (set_exporter i f s) = [] \<longleftrightarrow> exporters s = []"
  by (simp add: exporters_set)

lemma step_finishing:
  assumes "fan_act fails a s = Some s'" and "finishing cbs s"
  shows "finishing cbs s'"
  using assms(1)
proof (cases rule: actE)
  case (produce i x xs)
  have "\<not> closed s"
    using assms(2) produce nth_mem [OF produce(2)] by (auto simp: finishing_def simp del: nth_mem)
  then show ?thesis using produce assms(2) concat_update [OF produce(2,3)]
    by (auto simp: finishing_def)
next
  case take_item
  then show ?thesis using assms(2) by (auto simp: finishing_def)
next
  case drained
  then show ?thesis using assms(2) by (auto simp: finishing_def)
next
  case (send_item x i)
  then show ?thesis using assms(2)
      filter_update_same [of "\<lambda>e. e\<lparr>got := got e @ [x], status := Busy\<rparr>" "exporters s" i]
    by (auto simp: finishing_def exporters_set)
next
  case next_item
  then show ?thesis using assms(2) by (auto simp: finishing_def)
next
  case (close_chan i)
  then show ?thesis using assms(2)
      filter_update_same [of "\<lambda>e. e\<lparr>chan_closed := True\<rparr>" "exporters s" i]
    by (auto simp: finishing_def exporters_set)
next
  case stop
  then show ?thesis using assms(2) by (auto simp: finishing_def)
next
  case (fail i)
  then show ?thesis using assms(2) filter_update_returned [of i "exporters s"]
    by (auto simp: finishing_def return_exporter_def exporters_set)
next
  case (be_ready i)
  then show ?thesis using assms(2)
      filter_update_same [of "\<lambda>e. e\<lparr>status := Ready\<rparr>" "exporters s" i]
    by (auto simp: finishing_def exporters_set)
next
  case (end_exporter i)
  then show ?thesis using assms(2) filter_update_returned [of i "exporters s"]
    by (auto simp: finishing_def return_exporter_def exporters_set)
next
  case requests_done
  then show ?thesis using assms(2) by (auto simp: finishing_def concat_nil)
next
  case exporters_done
  then show ?thesis using assms(2) by (auto simp: finishing_def)
next
  case finished
  then show ?thesis using assms(2) by (auto simp: finishing_def)
qed

interpretation fan: invariant "fan_step fails" "startExporters n cbs"
  "\<lambda>s. length (exporters s) = n \<and> delivering fails s \<and> finishing cbs s"
proof unfold_locales
  show "length (exporters (startExporters n cbs)) = n \<and> delivering fails (startExporters n cbs)
      \<and> finishing cbs (startExporters n cbs)"
    by (simp add: startExporters_def delivering_def finishing_def)
next
  fix s s'
  assume "fan_step fails s s'"
    and I: "length (exporters s) = n \<and> delivering fails s \<and> finishing cbs s"
  then obtain a where a: "fan_act fails a s = Some s'" by (auto simp: fan_step_def)
  have "length (exporters s') = length (exporters s)"
    using a by (cases rule: actE) (simp_all add: return_exporter_def)
  then show "length (exporters s') = n \<and> delivering fails s' \<and> finishing cbs s'"
    using step_delivering [OF a] step_finishing [OF a] I by simp
qed

lemma sent_split:
  assumes "reachable (fan_step fails) (startExporters n cbs) s" and "j < n"
  shows "sent s = got (exporters s ! j) @ in_hand (dispatcher s) j @ buffer s"
  using fan.always [OF assms(1)] assms(2) by (auto simp: delivering_def)

lemma in_hand_length: "length (in_hand d j) \<le> 1"
  by (cases "(d, j)" rule: in_hand.cases) auto

lemma in_hand_end: "at_end d \<Longrightarrow> in_hand d j = []"
  by (cases d) auto

text \<open>C30: Every exporter gets the items of \<open>Exports\<close> in the order in which they were sent, and is at
  most two items behind: one in the buffer and one in the hands of the dispatcher.\<close>

theorem exporters_get_items_in_order:
  assumes "reachable (fan_step fails) (startExporters n cbs) s" and "j < n"
  shows "\<exists>rest. sent s = got (exporters s ! j) @ rest \<and> length rest \<le> 2"
proof -
  have "length (buffer s) \<le> 1" using fan.always [OF assms(1)] by (simp add: finishing_def)
  then have "length (in_hand (dispatcher s) j @ buffer s) \<le> 2"
    using in_hand_length [of "dispatcher s" j] by simp
  with sent_split [OF assms] show ?thesis by blast
qed

definition two_exporters :: "nat fan" where
  "two_exporters = startExporters 2 [[1, 2], [3]]"

text \<open>A run of the two exporters up to the point where \<open>Start\<close> returns.\<close>

definition full_run :: "action list" where
  "full_run = [Exporter 0, Produce 0, Exporter 1, Dispatch, Produce 1, Dispatch, Dispatch, Dispatch,
     Exporter 0, Exporter 1, Dispatch, Produce 0, Main, Dispatch, Dispatch, Dispatch, Exporter 0, Exporter 1,
     Dispatch, Dispatch, Dispatch, Dispatch, Exporter 0, Exporter 1, Dispatch, Dispatch, Dispatch, Dispatch,
     Exporter 0, Exporter 1, Main, Main]"

lemmas fan_simps = produce_def dispatch_def run_exporter_def finish_start_def
  return_exporter_def set_exporter_def startExporters_def

lemma fan_run_init: "fan_run fails as (startExporters n cbs) = Some s \<Longrightarrow>
  reachable (fan_step fails) (startExporters n cbs) s"
  by (rule fan_run_reachable) auto

lemma full_run_result:
  "\<exists>s. fan_run (\<lambda>i xs. False) full_run two_exporters = Some s \<and> main s = ScrapingFinished
     \<and> map got (exporters s) = [[1, 3, 2], [1, 3, 2]] \<and> sent s = [1, 3, 2]"
  by (simp add: full_run_def two_exporters_def fan_simps numeral_2_eq_2)

theorem exporters_get_items_in_order_witness:
  "\<exists>s rest. fan_run (\<lambda>i xs. False) full_run two_exporters = Some s
     \<and> sent s = [1, 3, 2] \<and> sent s = got (exporters s ! 1) @ rest \<and> length rest \<le> 2"
proof -
  obtain s where s: "fan_run (\<lambda>i xs. False) full_run two_exporters = Some s" "sent s = [1, 3, 2]"
    using full_run_result by blast
  with exporters_get_items_in_order [of "\<lambda>i xs. False" 2 "[[1, 2], [3]]" s 1]
  show ?thesis by (auto simp: two_exporters_def dest: fan_run_init)
qed

lemma finishing_closed:
  assumes "finishing cbs s" and "main s \<noteq> WaitRequests"
  shows "closed s" and "concat (callbacks s) = []" and "mset (sent s) = mset (concat cbs)"
proof -
  show "closed s" "concat (callbacks s) = []" using assms unfolding finishing_def by blast+
  then show "mset (sent s) = mset (concat cbs)"
    using assms(1) by (simp add: finishing_def del: concat_eq_Nil_conv)
qed

lemma finishing_wait:
  assumes "finishing cbs s" and "exporters s \<noteq> []"
  shows "wgExporters s = 0 \<longleftrightarrow> (\<forall>e\<in>set (exporters s). status e = Returned)"
proof -
  have "wgExporters s = int (length (filter (\<lambda>e. status e \<noteq> Returned) (exporters s)))"
    using assms by (simp add: finishing_def)
  then show ?thesis by (simp add: filter_empty_conv)
qed

lemma finishing_finished: "finishing cbs s \<Longrightarrow> main s = ScrapingFinished \<Longrightarrow> wgExporters s = 0"
  by (simp add: finishing_def)

lemma finished_exporter_complete:
  assumes "reachable (fan_step fails) (startExporters n cbs) s" and "main s = ScrapingFinished"
    and "j < n" and "\<not> fails j (got (exporters s ! j))"
  shows "got (exporters s ! j) = sent s"
proof -
  have n: "length (exporters s) = n" and D: "delivering fails s" and F: "finishing cbs s"
    using fan.always [OF assms(1)] by auto
  have "exporters s \<noteq> []" using n assms(3) by auto
  then have "status (exporters s ! j) = Returned"
    using finishing_wait [OF F] finishing_finished [OF F assms(2)] assms(3) n by simp
  then have "has_closed (dispatcher s) j" using D assms(3,4) n by (auto simp: delivering_def)
  then have "at_end (dispatcher s)" by (cases "dispatcher s") auto
  then show ?thesis using sent_split [OF assms(1,3)] F by (simp add: finishing_def in_hand_end)
qed

lemma finished_items:
  assumes "reachable (fan_step fails) (startExporters n cbs) s" and "main s = ScrapingFinished"
  shows "mset (sent s) = mset (concat cbs)"
  using fan.always [OF assms(1)] assms(2) finishing_closed(3) by fastforce

text \<open>C29: When \<open>Start\<close> returns, every exporter that has not failed has got every item that a callback
  exported, each exactly once and in the order in which they were sent.\<close>

theorem start_returns_after_all_exported:
  assumes "reachable (fan_step fails) (startExporters n cbs) s" and "main s = ScrapingFinished"
    and "j < n" and "\<not> fails j (got (exporters s ! j))"
  shows "got (exporters s ! j) = sent s \<and> mset (got (exporters s ! j)) = mset (concat cbs)"
  using finished_exporter_complete [OF assms] finished_items [OF assms(1,2)] by simp

theorem start_returns_after_all_exported_witness:
  "\<exists>s. fan_run (\<lambda>i xs. False) full_run two_exporters = Some s \<and> main s = ScrapingFinished
     \<and> got (exporters s ! 0) = [1, 3, 2] \<and> mset (got (exporters s ! 0)) = {#1, 2, 3#}"
proof -
  obtain s where s: "fan_run (\<lambda>i xs. False) full_run two_exporters = Some s"
    "main s = ScrapingFinished" "sent s = [1, 3, 2]"
    using full_run_result by blast
  then have "reachable (fan_step (\<lambda>i xs. False)) (startExporters 2 [[1, 2], [3]]) s"
    by (auto simp: two_exporters_def dest: fan_run_init)
  from start_returns_after_all_exported [OF this s(2), of 0] s show ?thesis by auto
qed

section \<open>Every run ends\<close>

fun dispatcher_work :: "nat \<Rightarrow> 'a dispatcher \<Rightarrow> nat" where
  "dispatcher_work n Idle = n + 2"
| "dispatcher_work n (Sending x i) = 2 * (n - i) + n + 3"
| "dispatcher_work n (Closing i) = n - i + 1"
| "dispatcher_work n Stopped = 0"

fun status_work :: "status \<Rightarrow> nat" where
  "status_work Busy = 2" | "status_work Ready = 1" | "status_work Returned = 0"

fun main_work :: "main_phase \<Rightarrow> nat" where
  "main_work WaitRequests = 3" | "main_work WaitExporters = 2" | "main_work Handshake = 1"
| "main_work ScrapingFinished = 0"

definition exporters_work :: "'a exporter list \<Rightarrow> nat" where
  "exporters_work es = (\<Sum>e\<leftarrow>es. status_work (status e))"

definition fan_work :: "'a fan \<Rightarrow> nat" where
  "fan_work s =
     (let n = length (exporters s)
      in (2 * n + 3) * length (concat (callbacks s)) + (2 * n + 2) * length (buffer s)
         + dispatcher_work n (dispatcher s) + exporters_work (exporters s) + main_work (main s))"

lemma exporters_work_update:
  "i < length es \<Longrightarrow> exporters_work (es[i := e]) + status_work (status (es ! i)) =
     exporters_work es + status_work (status e)"
proof (induction es arbitrary: i)
  case (Cons e es)
  then show ?case by (cases i) (auto simp: exporters_work_def)
qed simp

lemma concat_update_length:
  assumes "i < length xss" and "xss ! i = x # xs"
  shows "length (concat xss) = Suc (length (concat (xss[i := xs])))"
  using arg_cong [OF concat_update [OF assms], of size] by simp

lemma step_fan_work:
  assumes "fan_act fails a s = Some s'"
  shows "fan_work s' < fan_work s \<and> length (exporters s') = length (exporters s)"
  using assms
proof (cases rule: actE)
  case (produce i x xs)
  then show ?thesis using concat_update_length [OF produce(2,3)]
    by (simp add: fan_work_def Let_def)
next
  case (send_item x i)
  then show ?thesis
    using exporters_work_update [OF send_item(3), of "(exporters s ! i)\<lparr>got := got (exporters s ! i) @ [x], status := Busy\<rparr>"]
    by (simp add: fan_work_def Let_def exporters_set)
next
  case (close_chan i)
  then show ?thesis
    using exporters_work_update [OF close_chan(3), of "(exporters s ! i)\<lparr>chan_closed := True\<rparr>"]
    by (simp add: fan_work_def Let_def exporters_set)
next
  case (fail i)
  then show ?thesis
    using exporters_work_update [OF fail(2), of "(exporters s ! i)\<lparr>status := Returned\<rparr>"]
    by (simp add: fan_work_def Let_def exporters_set return_exporter_def)
next
  case (be_ready i)
  then show ?thesis
    using exporters_work_update [OF be_ready(2), of "(exporters s ! i)\<lparr>status := Ready\<rparr>"]
    by (simp add: fan_work_def Let_def exporters_set)
next
  case (end_exporter i)
  then show ?thesis
    using exporters_work_update [OF end_exporter(2), of "(exporters s ! i)\<lparr>status := Returned\<rparr>"]
    by (simp add: fan_work_def Let_def exporters_set return_exporter_def)
qed (simp_all add: fan_work_def Let_def)

lemma fan_run_work: "fan_run fails as s = Some s' \<Longrightarrow> length as + fan_work s' \<le> fan_work s"
proof (induction "as" arbitrary: s)
  case (Cons a "as")
  then obtain s1 where "fan_act fails a s = Some s1" "fan_run fails as s1 = Some s'"
    by (auto split: option.splits)
  then show ?case using Cons.IH [of s1] step_fan_work [of fails a s s1] by simp
qed simp

lemma fan_progress:
  assumes "reachable (fan_step fails) (startExporters n cbs) s"
    and "\<And>j xs. j < n \<Longrightarrow> \<not> fails j xs"
    and "main s \<noteq> ScrapingFinished"
  shows "\<exists>a s'. fan_act fails a s = Some s'"
proof (rule ccontr)
  assume "\<not> ?thesis"
  then have stuck: "fan_act fails a s = None" for a by (metis not_None_eq)
  have n: "length (exporters s) = n" and D: "delivering fails s" and F: "finishing cbs s"
    using fan.always [OF assms(1)] by auto
  have exp: "(status (exporters s ! j) = Ready \<and> \<not> chan_closed (exporters s ! j))
      \<or> status (exporters s ! j) = Returned" if "j < n" for j
    using stuck [of "Exporter j"] that n assms(2)
    by (auto simp: run_exporter_def split: status.splits if_splits)
  have main: "main s = WaitRequests \<and> concat (callbacks s) \<noteq> [] \<or> main s = WaitExporters \<and> wgExporters s \<noteq> 0"
    using stuck [of Main] assms(3) by (auto simp: finish_start_def split: main_phase.splits if_splits)
  have disp: "dispatch s = None" using stuck [of Dispatch] by simp
  show False
  proof (cases "dispatcher s")
    case Idle
    then have "buffer s = []" "\<not> closed s"
      using disp by (auto simp: dispatch_def split: list.splits if_splits)
    then obtain i where "i < length (callbacks s)" "callbacks s ! i \<noteq> []"
      using main F by (auto simp: finishing_def in_set_conv_nth)
    then show False using stuck [of "Produce i"] \<open>buffer s = []\<close>
      by (auto simp: produce_def split: list.splits)
  next
    case (Sending x i)
    then have "i < n" "status (exporters s ! i) \<noteq> Ready"
      using disp n by (auto simp: dispatch_def split: if_splits)
    then show False using exp [of i] D n assms(2) Sending by (auto simp: delivering_def)
  next
    case (Closing i)
    then show False using disp by (simp add: dispatch_def split: if_splits)
  next
    case Stopped
    have "status (exporters s ! j) = Returned" if "j < n" for j
      using exp [OF that] D n that Stopped by (auto simp: delivering_def)
    then have "wgExporters s = 0"
      using finishing_wait [OF F] F Stopped n by (cases "n = 0") (auto simp: finishing_def in_set_conv_nth)
    moreover have "main s \<noteq> WaitRequests" using F Stopped by (auto simp: finishing_def)
    ultimately show False using main by blast
  qed
qed


text \<open>C33: However the goroutines are scheduled, a run ends: no run is longer than the items, the exporters
  and the steps of \<open>Start\<close> allow.\<close>

theorem fan_run_bounded:
  assumes "fan_run fails as (startExporters n cbs) = Some s"
  shows "length as \<le> (2 * n + 3) * length (concat cbs) + 3 * n + 5"
proof -
  have "exporters_work (replicate n \<lparr>got = [] :: 'a list, status = Busy, chan_closed = False\<rparr>) = 2 * n"
    by (simp add: exporters_work_def sum_list_replicate)
  then have "fan_work (startExporters n cbs) = (2 * n + 3) * length (concat cbs) + 3 * n + 5"
    by (simp add: fan_work_def startExporters_def Let_def)
  then show ?thesis using fan_run_work [OF assms] by simp
qed

theorem fan_run_bounded_witness:
  "length full_run \<le> (2 * 2 + 3) * length (concat [[1, 2], [3 :: nat]]) + 3 * 2 + 5"
proof -
  obtain s where "fan_run (\<lambda>i xs. False) full_run two_exporters = Some s"
    using full_run_result by blast
  from fan_run_bounded [OF this [unfolded two_exporters_def]] show ?thesis .
qed

text \<open>C28: If no exporter fails, \<open>Start\<close> returns: a run that cannot be continued has reached its end, and
  every exporter has got all items.\<close>

theorem start_returns:
  assumes "\<And>j xs. j < n \<Longrightarrow> \<not> fails j xs"
    and "fan_run fails as (startExporters n cbs) = Some s" and "\<And>a. fan_act fails a s = None"
  shows "main s = ScrapingFinished
    \<and> (\<forall>j<n. got (exporters s ! j) = sent s) \<and> mset (sent s) = mset (concat cbs)"
proof -
  have r: "reachable (fan_step fails) (startExporters n cbs) s" by (rule fan_run_init [OF assms(2)])
  have main: "main s = ScrapingFinished"
    using fan_progress [OF r assms(1)] assms(3) by fastforce
  then show ?thesis
    using finished_exporter_complete [OF r main] finished_items [OF r main] assms(1) by simp
qed


lemma full_run_end:
  "\<exists>s. fan_run (\<lambda>i xs. False) full_run two_exporters = Some s
     \<and> callbacks s = [[], []] \<and> dispatcher s = Stopped \<and> main s = ScrapingFinished
     \<and> map status (exporters s) = [Returned, Returned]"
  by (simp add: full_run_def two_exporters_def fan_simps numeral_2_eq_2)

lemma ended_stuck:
  assumes "callbacks s = [[], []]" and "dispatcher s = Stopped" and "main s = ScrapingFinished"
    and "map status (exporters s) = [Returned, Returned]"
  shows "fan_act fails a s = None"
proof (cases a)
  case (Produce i)
  then show ?thesis using assms(1) by (cases i) (auto simp: produce_def)
next
  case (Exporter i)
  have "i < length (exporters s) \<Longrightarrow> status (exporters s ! i) \<in> set (map status (exporters s))"
    by simp
  then have "i < length (exporters s) \<Longrightarrow> status (exporters s ! i) = Returned"
    unfolding assms(4) by simp
  then show ?thesis using Exporter by (simp add: run_exporter_def)
qed (use assms(2,3) in \<open>simp_all add: dispatch_def finish_start_def\<close>)

theorem start_returns_witness:
  "\<exists>s. fan_run (\<lambda>i xs. False) full_run two_exporters = Some s \<and> main s = ScrapingFinished
     \<and> mset (sent s) = {#1, 2, 3#}"
proof -
  obtain s where s: "fan_run (\<lambda>i xs. False) full_run two_exporters = Some s"
    and e: "callbacks s = [[], []]" "dispatcher s = Stopped" "main s = ScrapingFinished"
      "map status (exporters s) = [Returned, Returned]"
    using full_run_end by (elim exE conjE) (rule that)
  have stuck: "fan_act (\<lambda>i xs. False) a s = None" for a by (rule ended_stuck [OF e])
  from start_returns [of 2 "\<lambda>i xs. False" full_run "[[1, 2], [3]]" s] s stuck
  show ?thesis by (auto simp: two_exporters_def)
qed

section \<open>A failing exporter\<close>

text \<open>The dispatcher waits for an exporter that has returned.\<close>

definition blocked :: "'a \<Rightarrow> nat \<Rightarrow> 'a fan \<Rightarrow> bool" where
  "blocked x i s \<longleftrightarrow> dispatcher s = Sending x i \<and> i < length (exporters s)
     \<and> status (exporters s ! i) = Returned"

lemma step_blocked:
  assumes "fan_act fails a s = Some s'" and "blocked x i s" and "length (buffer s) \<le> 1"
  shows "blocked x i s' \<and> length (buffer s') \<le> 1
    \<and> length (sent s') + length (buffer s) = length (sent s) + length (buffer s')
    \<and> length (concat (callbacks s')) + length (sent s') = length (concat (callbacks s)) + length (sent s)"
  using assms(1)
proof (cases rule: actE)
  case (produce j y ys)
  then show ?thesis using assms(2) concat_update_length [OF produce(2,3)] by (simp add: blocked_def)
qed (use assms(2,3) in \<open>auto simp: blocked_def exporters_set return_exporter_def nth_list_update\<close>)

lemma run_blocked:
  "fan_run fails as s = Some s' \<Longrightarrow> blocked x i s \<Longrightarrow> length (buffer s) \<le> 1 \<Longrightarrow>
   blocked x i s' \<and> length (buffer s') \<le> 1
    \<and> length (sent s') + length (buffer s) = length (sent s) + length (buffer s')
    \<and> length (concat (callbacks s')) + length (sent s') = length (concat (callbacks s)) + length (sent s)"
proof (induction "as" arbitrary: s)
  case (Cons a "as")
  then obtain s1 where "fan_act fails a s = Some s1" "fan_run fails as s1 = Some s'"
    by (auto split: option.splits)
  then show ?case using Cons.IH [of s1] step_blocked [of fails a s s1 x i] Cons.prems by simp
qed simp

text \<open>Once the dispatcher has an item for an exporter whose \<open>Export\<close> has returned, for example because
  its file could not be opened, it never moves again: at most one more item is accepted, and if the
  callbacks have two or more left, the requests never end and \<open>Start\<close> does not return.\<close>

theorem failed_exporter_blocks_start:
  assumes "reachable (fan_step fails) (startExporters n cbs) s"
    and "dispatcher s = Sending x i" and "i < n" and "status (exporters s ! i) = Returned"
    and "2 \<le> length (concat (callbacks s))" and "fan_run fails as s = Some s'"
  shows "dispatcher s' = Sending x i \<and> length (sent s') \<le> length (sent s) + 1
    \<and> main s' = WaitRequests"
proof -
  have "length (exporters s) = n" "length (buffer s) \<le> 1"
    using fan.always [OF assms(1)] by (simp_all add: finishing_def)
  then have "blocked x i s' \<and> length (buffer s') \<le> 1
      \<and> length (sent s') + length (buffer s) = length (sent s) + length (buffer s')
      \<and> length (concat (callbacks s')) + length (sent s') = length (concat (callbacks s)) + length (sent s)"
    using run_blocked [OF assms(6), of x i] assms(2-4) by (simp add: blocked_def)
  then have b: "blocked x i s'" "length (sent s') \<le> length (sent s) + 1"
    "0 < length (concat (callbacks s'))"
    using assms(5) by linarith+
  have "finishing cbs s'"
    using fan.always [OF fan_run_reachable [OF assms(6,1)]] by simp
  then have "main s' = WaitRequests" using finishing_closed(2) b by fastforce
  with b show ?thesis by (simp add: blocked_def)
qed

definition open_error :: "nat \<Rightarrow> nat list \<Rightarrow> bool" where
  "open_error i xs \<longleftrightarrow> i = 0"

text \<open>The first exporter cannot open its file; the callback has three items.\<close>

theorem failed_exporter_blocks_start_witness:
  "\<exists>s. fan_run open_error [Exporter 0, Produce 0, Dispatch] (startExporters 1 [[7, 8, 9]]) = Some s
     \<and> dispatcher s = Sending 7 0
     \<and> (\<forall>as s'. fan_run open_error as s = Some s' \<longrightarrow> main s' = WaitRequests)"
proof -
  obtain s where s: "fan_run open_error [Exporter 0, Produce 0, Dispatch] (startExporters 1 [[7, 8, 9]]) = Some s"
    "dispatcher s = Sending 7 0" "status (exporters s ! 0) = Returned" "callbacks s = [[8, 9]]"
    by (simp add: fan_simps open_error_def)
  have "main s' = WaitRequests" if "fan_run open_error as s = Some s'" for "as" s'
    using failed_exporter_blocks_start [OF fan_run_init [OF s(1)] s(2) _ s(3) _ that] s(4) by simp
  with s show ?thesis by blast
qed

end
