(* ===== verification/Exporters.thy ===== *)
theory Exporters
  imports Go_Strings "HOL-Library.Char_ord" "HOL-Library.List_Lexorder"
begin

text \<open>
  The exporters (\<open>export/json.go\<close>, \<open>export/csv.go\<close>, \<open>export/pprint.go\<close>) and what they use of
  Go's \<open>encoding/json\<close>, \<open>encoding/csv\<close> and \<open>fmt\<close> (Go 1.15, the version in \<open>go.mod\<close>).

  Exported values are the kinds the exporters tell apart: \<open>GMap\<close> is a map with string keys, in any
  iteration order; a \<open>GStruct\<close> has the fields JSON shows, in order; \<open>GChan\<close> stands for a value JSON
  cannot encode, with the text \<open>fmt\<close> prints for it. Floating-point numbers, pointers and types with
  marshalling methods of their own are left out.
\<close>

datatype gvalue =
    GNil
  | GBool bool
  | GInt int
  | GString string
  | GSlice "gvalue list"
  | GMap "(string \<times> gvalue) list"
  | GStruct "(string \<times> gvalue) list"
  | GChan string

section \<open>UTF-8\<close>

text \<open>The length of the UTF-8 sequence a string starts with, 0 if it is not valid.\<close>

definition in_range :: "int \<Rightarrow> int \<Rightarrow> char \<Rightarrow> bool" where
  "in_range lo hi c \<longleftrightarrow> lo \<le> byte c \<and> byte c \<le> hi"

definition cont :: "char \<Rightarrow> bool" where
  "cont c = in_range 0x80 0xBF c"

definition second_byte :: "int \<Rightarrow> char \<Rightarrow> bool" where
  "second_byte b c =
     (if b = 0xE0 then in_range 0xA0 0xBF c else if b = 0xED then in_range 0x80 0x9F c
      else if b = 0xF0 then in_range 0x90 0xBF c else if b = 0xF4 then in_range 0x80 0x8F c
      else cont c)"

definition rune_len :: "string \<Rightarrow> nat" where
  "rune_len s =
     (case s of
        [] \<Rightarrow> 0
      | c # cs \<Rightarrow>
          (let b = byte c in
           if b < 0x80 then 1
           else if 0xC2 \<le> b \<and> b \<le> 0xDF
             then (case cs of c1 # _ \<Rightarrow> if cont c1 then 2 else 0 | _ \<Rightarrow> 0)
           else if 0xE0 \<le> b \<and> b \<le> 0xEF
             then (case cs of c1 # c2 # _ \<Rightarrow> if second_byte b c1 \<and> cont c2 then 3 else 0 | _ \<Rightarrow> 0)
           else if 0xF0 \<le> b \<and> b \<le> 0xF4
             then (case cs of c1 # c2 # c3 # _ \<Rightarrow>
                     if second_byte b c1 \<and> cont c2 \<and> cont c3 then 4 else 0 | _ \<Rightarrow> 0)
           else 0))"

section \<open>encoding/json\<close>

definition hex_digit :: "int \<Rightarrow> char" where
  "hex_digit d = (if d < 10 then char_of (d + 48) else char_of (d + 87))"

text \<open>Escaping of an ASCII byte: \<open>htmlSafeSet\<close> and \<open>safeSet\<close>, then the short escapes.\<close>

definition json_safe :: "bool \<Rightarrow> char \<Rightarrow> bool" where
  "json_safe escapeHTML c \<longleftrightarrow> 0x20 \<le> byte c \<and> c \<noteq> QUOTE \<and> c \<noteq> BACKSLASH
     \<and> \<not> (escapeHTML \<and> c \<in> set ''<>&'')"

definition escape_char :: "bool \<Rightarrow> char \<Rightarrow> string" where
  "escape_char escapeHTML c =
     (if json_safe escapeHTML c then [c]
      else BACKSLASH #
        (if c = QUOTE \<or> c = BACKSLASH then [c]
         else if c = LF then ''n'' else if c = CR then ''r'' else if c = TAB then ''t''
         else ''u00'' @ [hex_digit (byte c div 16), hex_digit (byte c mod 16)]))"

fun json_escape :: "bool \<Rightarrow> string \<Rightarrow> string" where
  "json_escape escapeHTML [] = []"
| "json_escape escapeHTML (c # cs) =
     (if byte c < 0x80 then escape_char escapeHTML c @ json_escape escapeHTML cs
      else
        let k = rune_len (c # cs) in
        if k = 0 then BACKSLASH # ''ufffd'' @ json_escape escapeHTML cs
        else if take k (c # cs) = [CHR 0xE2, CHR 0x80, CHR 0xA8]
          then BACKSLASH # ''u2028'' @ json_escape escapeHTML (drop (k - 1) cs)
        else if take k (c # cs) = [CHR 0xE2, CHR 0x80, CHR 0xA9]
          then BACKSLASH # ''u2029'' @ json_escape escapeHTML (drop (k - 1) cs)
        else take k (c # cs) @ json_escape escapeHTML (drop (k - 1) cs))"

definition json_quote :: "bool \<Rightarrow> string \<Rightarrow> string" where
  "json_quote escapeHTML s = QUOTE # json_escape escapeHTML s @ [QUOTE]"

text \<open>Layout: compact, or with a prefix and an indentation as \<open>json.Indent\<close> inserts them.\<close>

type_synonym layout = "(string \<times> string) option"

definition new_line :: "layout \<Rightarrow> nat \<Rightarrow> string" where
  "new_line lay d =
     (case lay of None \<Rightarrow> [] | Some (pre, ind) \<Rightarrow> LF # pre @ concat (replicate d ind))"

definition colon :: "layout \<Rightarrow> string" where
  "colon lay = (case lay of None \<Rightarrow> '':'' | Some _ \<Rightarrow> '': '')"

fun join_with :: "string \<Rightarrow> string list \<Rightarrow> string" where
  "join_with sep [] = []"
| "join_with sep [x] = x"
| "join_with sep (x # y # xs) = x @ sep @ join_with sep (y # xs)"

definition bracket :: "layout \<Rightarrow> nat \<Rightarrow> char \<Rightarrow> char \<Rightarrow> string list \<Rightarrow> string" where
  "bracket lay d l r xs =
     (if xs = [] then [l, r]
      else l # new_line lay (d + 1) @ join_with (CHR '','' # new_line lay (d + 1)) xs
             @ new_line lay d @ [r])"

definition member :: "bool \<Rightarrow> layout \<Rightarrow> string \<times> string \<Rightarrow> string" where
  "member h lay kv = json_quote h (fst kv) @ colon lay @ snd kv"

text \<open>\<open>encode\<close> is \<open>None\<close> when the value contains one of an unsupported type.\<close>

fun encode :: "bool \<Rightarrow> layout \<Rightarrow> nat \<Rightarrow> gvalue \<Rightarrow> string option"
  and encode_list :: "bool \<Rightarrow> layout \<Rightarrow> nat \<Rightarrow> gvalue list \<Rightarrow> string list option"
  and encode_fields :: "bool \<Rightarrow> layout \<Rightarrow> nat \<Rightarrow> (string \<times> gvalue) list \<Rightarrow> (string \<times> string) list option"
  where
  "encode h lay d GNil = Some ''null''"
| "encode h lay d (GBool b) = Some (if b then ''true'' else ''false'')"
| "encode h lay d (GInt n) = Some (itoa n)"
| "encode h lay d (GString s) = Some (json_quote h s)"
| "encode h lay d (GSlice vs) =
     map_option (bracket lay d (CHR ''['') (CHR '']'')) (encode_list h lay (d + 1) vs)"
| "encode h lay d (GMap kvs) =
     map_option (\<lambda>xs. bracket lay d (CHR ''{'') (CHR ''}'') (map (member h lay) (sort_key fst xs)))
       (encode_fields h lay (d + 1) kvs)"
| "encode h lay d (GStruct kvs) =
     map_option (\<lambda>xs. bracket lay d (CHR ''{'') (CHR ''}'') (map (member h lay) xs))
       (encode_fields h lay (d + 1) kvs)"
| "encode h lay d (GChan a) = None"
| "encode_list h lay d [] = Some []"
| "encode_list h lay d (v # vs) =
     (case encode h lay d v of None \<Rightarrow> None
      | Some x \<Rightarrow> map_option (\<lambda>xs. x # xs) (encode_list h lay d vs))"
| "encode_fields h lay d [] = Some []"
| "encode_fields h lay d ((k, v) # kvs) =
     (case encode h lay d v of None \<Rightarrow> None
      | Some x \<Rightarrow> map_option (\<lambda>xs. (k, x) # xs) (encode_fields h lay d kvs))"

section \<open>Files\<close>

text \<open>
  A file opened for appending: its contents and the number of \<open>Write\<close> calls made. The operating
  system is a parameter: whether the file can be opened, and for the \<open>n\<close>-th \<open>Write\<close> whether it fails
  after some bytes.
\<close>

record out_file =
  contents :: string
  writes :: nat

record os =
  open_error :: "string \<Rightarrow> string option"
  write_error :: "nat \<Rightarrow> (nat \<times> string) option"

definition file_write :: "os \<Rightarrow> string \<Rightarrow> out_file \<Rightarrow> out_file \<times> string option" where
  "file_write w bs f =
     (case write_error w (writes f) of
        None \<Rightarrow> (\<lparr>contents = contents f @ bs, writes = writes f + 1\<rparr>, None)
      | Some (n, e) \<Rightarrow> (\<lparr>contents = contents f @ take n bs, writes = writes f + 1\<rparr>, Some e))"

text \<open>\<open>os.OpenFile\<close> with \<open>O_CREATE\<close> and \<open>O_APPEND\<close>: \<open>old\<close> is what the file system holds.\<close>

definition open_append :: "os \<Rightarrow> (string \<Rightarrow> string option) \<Rightarrow> string \<Rightarrow> string + out_file" where
  "open_append w old name =
     (case open_error w name of
        Some e \<Rightarrow> Inl (''output file creation error: '' @ e)
      | None \<Rightarrow> Inr \<lparr>contents = (case old name of None \<Rightarrow> [] | Some s \<Rightarrow> s), writes = 0\<rparr>)"

text \<open>What \<open>Export\<close> leaves in the file it opened, if it opened it, and the error it returns.\<close>

type_synonym exported = "string option \<times> string option"

section \<open>export/json.go\<close>

record json_line_exporter =
  FileName :: string
  EscapeHTML :: bool
  Prefix :: string
  Indent :: string

definition line_layout :: "json_line_exporter \<Rightarrow> layout" where
  "line_layout e = (if Prefix e \<noteq> [] \<or> Indent e \<noteq> [] then Some (Prefix e, Indent e) else None)"

text \<open>The encoder remembers a write error and then refuses to write; an unsupported value is skipped.\<close>

fun json_lines :: "os \<Rightarrow> bool \<Rightarrow> layout \<Rightarrow> bool \<Rightarrow> out_file \<Rightarrow> gvalue list \<Rightarrow> out_file" where
  "json_lines w h lay broken f [] = f"
| "json_lines w h lay broken f (v # vs) =
     (if broken then json_lines w h lay True f vs
      else
        case encode h lay 0 v of
          None \<Rightarrow> json_lines w h lay False f vs
        | Some x \<Rightarrow>
            (case file_write w (x @ [LF]) f of (f', e) \<Rightarrow> json_lines w h lay (e \<noteq> None) f' vs))"

definition JSONLine_Export ::
  "os \<Rightarrow> (string \<Rightarrow> string option) \<Rightarrow> json_line_exporter \<Rightarrow> gvalue list \<Rightarrow> exported" where
  "JSONLine_Export w old e items =
     (case open_append w old (DefaultString (FileName e) ''out.json'') of
        Inl err \<Rightarrow> (None, Some err)
      | Inr f \<Rightarrow> (Some (contents (json_lines w (EscapeHTML e) (line_layout e) False f items)), None))"

text \<open>A tab, the value, a comma and a newline; when the value cannot be encoded, the line is dropped.\<close>

definition jsonMarshalLine :: "gvalue \<Rightarrow> bool \<Rightarrow> string option" where
  "jsonMarshalLine t escapeHTML =
     (case encode escapeHTML None 0 t of
        None \<Rightarrow> None
      | Some x \<Rightarrow> Some (butlast (TAB # x @ [LF]) @ [CHR '','', LF]))"

definition write_failed :: "string \<Rightarrow> string" where
  "write_failed e = ''file write error: '' @ e"

fun json_values :: "os \<Rightarrow> bool \<Rightarrow> out_file \<Rightarrow> gvalue list \<Rightarrow> out_file \<times> string option" where
  "json_values w h f [] = (f, None)"
| "json_values w h f (v # vs) =
     (case jsonMarshalLine v h of
        None \<Rightarrow> json_values w h f vs
      | Some data \<Rightarrow>
          (case file_write w data f of
             (f', Some e) \<Rightarrow> (f', Some (write_failed e))
           | (f', None) \<Rightarrow> json_values w h f' vs))"

definition JSON_Export ::
  "os \<Rightarrow> (string \<Rightarrow> string option) \<Rightarrow> string \<Rightarrow> bool \<Rightarrow> gvalue list \<Rightarrow> exported" where
  "JSON_Export w old fileName escapeHTML items =
     (case open_append w old (DefaultString fileName ''out.json'') of
        Inl err \<Rightarrow> (None, Some err)
      | Inr f \<Rightarrow>
          (case file_write w [CHR ''['', LF] f of
             (f1, Some e) \<Rightarrow> (Some (contents f1), Some (write_failed e))
           | (f1, None) \<Rightarrow>
               (case json_values w escapeHTML f1 items of
                  (f2, Some e) \<Rightarrow> (Some (contents f2), Some e)
                | (f2, None) \<Rightarrow>
                    (case file_write w [CHR '']'', LF] f2 of
                       (f3, e) \<Rightarrow> (Some (contents f3), map_option write_failed e)))))"

section \<open>export/pprint.go\<close>

text \<open>\<open>MarshalIndent\<close> escapes HTML; what cannot be encoded is skipped. The result is what is printed.\<close>

definition PrettyPrint_Export :: "gvalue list \<Rightarrow> string" where
  "PrettyPrint_Export items =
     concat (map (\<lambda>v. case encode True (Some ([], ''  '')) 0 v of None \<Rightarrow> [] | Some x \<Rightarrow> x @ [LF]) items)"

section \<open>fmt.Sprint\<close>

fun sprint :: "gvalue \<Rightarrow> string"
  and sprint_list :: "gvalue list \<Rightarrow> string list"
  and sprint_fields :: "(string \<times> gvalue) list \<Rightarrow> (string \<times> string) list" where
  "sprint GNil = ''<nil>''"
| "sprint (GBool b) = (if b then ''true'' else ''false'')"
| "sprint (GInt n) = itoa n"
| "sprint (GString s) = s"
| "sprint (GSlice vs) = CHR ''['' # join_with '' '' (sprint_list vs) @ '']''"
| "sprint (GMap kvs) =
     ''map['' @ join_with '' '' (map (\<lambda>kv. fst kv @ CHR '':'' # snd kv) (sort_key fst (sprint_fields kvs)))
       @ '']''"
| "sprint (GStruct kvs) = CHR ''{'' # join_with '' '' (map snd (sprint_fields kvs)) @ ''}''"
| "sprint (GChan a) = a"
| "sprint_list [] = []"
| "sprint_list (v # vs) = sprint v # sprint_list vs"
| "sprint_fields [] = []"
| "sprint_fields ((k, v) # kvs) = (k, sprint v) # sprint_fields kvs"

section \<open>encoding/csv\<close>

text \<open>The delimiter is an ASCII byte (0 for the default, a comma).\<close>

definition validDelim :: "char \<Rightarrow> bool" where
  "validDelim r \<longleftrightarrow> byte r \<noteq> 0 \<and> r \<noteq> QUOTE \<and> r \<noteq> CR \<and> r \<noteq> LF"

text \<open>Whether the first rune of a string is white space (\<open>unicode.IsSpace\<close>).\<close>

definition starts_with_space :: "string \<Rightarrow> bool" where
  "starts_with_space s =
     (case s of
        c # c1 # c2 # _ \<Rightarrow>
          is_space c \<or> (c = CHR 0xC2 \<and> c1 \<in> {CHR 0x85, CHR 0xA0})
          \<or> (c = CHR 0xE1 \<and> c1 = CHR 0x9A \<and> c2 = CHR 0x80)
          \<or> (c = CHR 0xE2 \<and> c1 = CHR 0x80 \<and>
               (in_range 0x80 0x8A c2 \<or> c2 \<in> {CHR 0xA8, CHR 0xA9, CHR 0xAF}))
          \<or> (c = CHR 0xE2 \<and> c1 = CHR 0x81 \<and> c2 = CHR 0x9F)
          \<or> (c = CHR 0xE3 \<and> c1 = CHR 0x80 \<and> c2 = CHR 0x80)
      | [c, c1] \<Rightarrow> is_space c \<or> (c = CHR 0xC2 \<and> c1 \<in> {CHR 0x85, CHR 0xA0})
      | [c] \<Rightarrow> is_space c
      | [] \<Rightarrow> False)"

definition fieldNeedsQuotes :: "char \<Rightarrow> string \<Rightarrow> bool" where
  "fieldNeedsQuotes comma field =
     (if field = [] then False
      else if field = [BACKSLASH, CHR ''.''] then True
      else if comma \<in> set field \<or> QUOTE \<in> set field \<or> CR \<in> set field \<or> LF \<in> set field then True
      else starts_with_space field)"

fun quoted_bytes :: "bool \<Rightarrow> string \<Rightarrow> string" where
  "quoted_bytes useCRLF [] = []"
| "quoted_bytes useCRLF (c # cs) =
     (if c = QUOTE then [QUOTE, QUOTE]
      else if c = CR then (if useCRLF then [] else [CR])
      else if c = LF then (if useCRLF then [CR, LF] else [LF])
      else [c]) @ quoted_bytes useCRLF cs"

definition csv_field :: "char \<Rightarrow> bool \<Rightarrow> string \<Rightarrow> string" where
  "csv_field comma useCRLF field =
     (if fieldNeedsQuotes comma field then QUOTE # quoted_bytes useCRLF field @ [QUOTE] else field)"

definition csv_write :: "char \<Rightarrow> bool \<Rightarrow> string list \<Rightarrow> string option" where
  "csv_write comma useCRLF record =
     (if \<not> validDelim comma then None
      else Some (join_with [comma] (map (csv_field comma useCRLF) record)
                  @ (if useCRLF then [CR, LF] else [LF])))"

section \<open>export/csv.go\<close>

record csv_exporter =
  FileName' :: string
  Comma :: char
  UseCRLF :: bool

text \<open>A slice gives its elements, a map its values in sorted order, anything else an empty record.\<close>

definition csv_values :: "gvalue \<Rightarrow> string list" where
  "csv_values res =
     (case res of
        GSlice vs \<Rightarrow> map sprint vs
      | GMap kvs \<Rightarrow> sort (map (\<lambda>kv. sprint (snd kv)) kvs)
      | _ \<Rightarrow> [])"

text \<open>
  The writer is buffered; the errors of its \<open>Flush\<close> are ignored by the exporter, and writing to
  the opened file is taken to succeed. A record that cannot be written is logged and skipped.
\<close>

definition CSV_Export ::
  "os \<Rightarrow> (string \<Rightarrow> string option) \<Rightarrow> csv_exporter \<Rightarrow> gvalue list \<Rightarrow> exported" where
  "CSV_Export w old e items =
     (case open_append w old (DefaultString (FileName' e) ''out.csv'') of
        Inl err \<Rightarrow> (None, Some err)
      | Inr f \<Rightarrow>
          (let comma = char_of (DefaultRune (byte (Comma e)) (byte (CHR '','')))
           in (Some (contents f @ concat (map (\<lambda>res.
                 case csv_write comma (UseCRLF e) (csv_values res) of None \<Rightarrow> [] | Some line \<Rightarrow> line) items)),
               None)))"

end
