(* ===== verification/Exporters_Laws.thy ===== *)
theory Exporters_Laws
  imports Exporters "HOL-Library.Sublist" "HOL-Library.Multiset"
begin

text \<open>
  What the exporters write: the exact contents of the files, that records and strings can be read
  back, that the result does not depend on the iteration order of Go maps, and the error paths.
\<close>

section \<open>Files\<close>

text \<open>An operating system on which everything succeeds.\<close>

definition os_ok :: "os \<Rightarrow> bool" where
  "os_ok w \<longleftrightarrow> (\<forall>name. open_error w name = None) \<and> (\<forall>n. write_error w n = None)"

definition healthy :: os where
  "healthy = \<lparr>open_error = (\<lambda>name. None), write_error = (\<lambda>n. None)\<rparr>"

lemma healthy_ok [simp]: "os_ok healthy"
  by (simp add: os_ok_def healthy_def)

definition previous :: "(string \<Rightarrow> string option) \<Rightarrow> string \<Rightarrow> string" where
  "previous old name = (case old name of None \<Rightarrow> [] | Some s \<Rightarrow> s)"

lemma open_ok: "os_ok w \<Longrightarrow> open_append w old name = Inr \<lparr>contents = previous old name, writes = 0\<rparr>"
  by (simp add: os_ok_def open_append_def previous_def)

lemma write_ok: "os_ok w \<Longrightarrow>
  file_write w bs f = (\<lparr>contents = contents f @ bs, writes = writes f + 1\<rparr>, None)"
  by (simp add: os_ok_def file_write_def)

section \<open>The JSON encoding has no line breaks of its own\<close>

lemma escape_char_no_LF: "LF \<notin> set (escape_char h c)"
proof -
  have "\<forall>h c. LF \<notin> set (escape_char h c)" by code_simp
  then show ?thesis by blast
qed


lemma cont_high: "cont c \<Longrightarrow> 128 \<le> byte c" "second_byte b c \<Longrightarrow> 128 \<le> byte c"
  by (simp_all add: cont_def second_byte_def in_range_def split: if_splits)

lemma high_bytes: "128 \<le> byte c \<Longrightarrow> \<forall>b\<in>set (take (rune_len (c # cs)) (c # cs)). 128 \<le> byte b"
  by (cases cs; cases "tl cs"; cases "tl (tl cs)") (auto simp: rune_len_def Let_def dest: cont_high)

lemma json_escape_no_LF: "LF \<notin> set (json_escape h s)"
proof (induction h s rule: json_escape.induct)
  case (2 h c cs)
  show ?case
  proof (cases "byte c < 128")
    case True
    then show ?thesis using 2(1) by (simp add: escape_char_no_LF)
  next
    case False
    then have "LF \<notin> set (take (rune_len (c # cs)) (c # cs))"
      using high_bytes [of c cs] by auto
    then show ?thesis using False 2 by (auto simp: Let_def split: if_splits)
  qed
qed simp

lemma itoa_no_LF: "LF \<notin> set (itoa n)"
proof -
  have "\<not> is_digit LF" by (simp add: is_digit_def)
  then show ?thesis using utoa_digits [of n] utoa_digits [of "- n"] by (auto simp: itoa_def)
qed

lemma join_with_set: "set (join_with sep xs) \<subseteq> set sep \<union> (\<Union>x\<in>set xs. set x)"
  by (induction sep xs rule: join_with.induct) auto

lemma bracket_no_LF:
  assumes "\<forall>x\<in>set xs. LF \<notin> set x" and "l \<noteq> LF" and "r \<noteq> LF"
  shows "LF \<notin> set (bracket None d l r xs)"
  using assms join_with_set [of "'',''" xs] by (auto simp: bracket_def new_line_def)

lemma member_no_LF: "LF \<notin> set (snd y) \<Longrightarrow> LF \<notin> set (member h None y)"
  by (simp add: member_def json_quote_def colon_def json_escape_no_LF)

lemma encode_no_LF:
  "encode h lay d v = Some x \<Longrightarrow> lay = None \<Longrightarrow> LF \<notin> set x"
  "encode_list h lay d vs = Some xs \<Longrightarrow> lay = None \<Longrightarrow> \<forall>x\<in>set xs. LF \<notin> set x"
  "encode_fields h lay d kvs = Some ys \<Longrightarrow> lay = None \<Longrightarrow> \<forall>y\<in>set ys. LF \<notin> set (snd y)"
proof (induction h lay d v and h lay d vs and h lay d kvs arbitrary: x and xs and ys
    rule: encode_encode_list_encode_fields.induct)
  case (4 h lay d s)
  then show ?case by (auto simp: json_quote_def json_escape_no_LF)
next
  case (5 h lay d vs)
  then show ?case by (clarsimp simp: bracket_no_LF)
next
  case (6 h lay d kvs)
  then show ?case by (clarsimp simp: bracket_no_LF member_no_LF)
next
  case (7 h lay d kvs)
  then show ?case by (clarsimp simp: bracket_no_LF member_no_LF)
next
  case (12 h lay d k v kvs)
  then show ?case by (fastforce split: option.splits)
qed (auto simp: itoa_no_LF split: option.splits if_splits)

section \<open>JSONLine\<close>

definition encodings :: "bool \<Rightarrow> layout \<Rightarrow> gvalue list \<Rightarrow> string list" where
  "encodings h lay items = List.map_filter (encode h lay 0) items"

lemma encodings_simps [simp]:
  "encodings h lay [] = []"
  "encodings h lay (v # vs) =
     (case encode h lay 0 v of None \<Rightarrow> encodings h lay vs | Some x \<Rightarrow> x # encodings h lay vs)"
  by (simp_all add: encodings_def map_filter_simps split: option.splits)

lemma json_lines_ok:
  "os_ok w \<Longrightarrow> contents (json_lines w h lay False f items) =
     contents f @ concat (map (\<lambda>x. x @ [LF]) (encodings h lay items))"
  by (induction items arbitrary: f) (simp_all add: write_ok split: option.splits)

lemma split_lines: "\<forall>x\<in>set xs. LF \<notin> set x \<Longrightarrow>
  split_on LF (concat (map (\<lambda>x. x @ [LF]) xs)) = xs @ [[]]"
  by (induction xs) (simp_all add: split_on_append_sep)

lemma encodings_no_LF: "\<forall>x\<in>set (encodings h None items). LF \<notin> set x"
  by (induction items) (auto dest: encode_no_LF(1) split: option.splits)

text \<open>\<open>JSONLine\<close> without \<open>Prefix\<close> and \<open>Indent\<close> appends one line per item it can encode, in order, and
  no line has a line break inside, so that splitting the file at its line ends gives back exactly the
  encoded items.\<close>

theorem json_lines_split:
  assumes "os_ok w" and "Prefix e = []" and "Indent e = []"
  shows "\<exists>out. JSONLine_Export w old e items =
      (Some (previous old (DefaultString (FileName e) ''out.json'') @ out), None)
    \<and> split_on LF out = encodings (EscapeHTML e) None items @ [[]]"
proof -
  have "\<forall>x\<in>set (encodings (EscapeHTML e) None items). LF \<notin> set x" by (rule encodings_no_LF)
  then show ?thesis
    using assms by (simp add: JSONLine_Export_def open_ok json_lines_ok line_layout_def split_lines)
qed

definition lines_config :: json_line_exporter where
  "lines_config = \<lparr>FileName = [], EscapeHTML = True, Prefix = [], Indent = []\<rparr>"

lemma itoa_one: "itoa 1 = ''1''"
  by code_simp

theorem json_lines_split_witness:
  "\<exists>out. JSONLine_Export healthy (\<lambda>name. Some ''old'') lines_config
      [GString [CHR ''a'', LF], GChan ''0xc000'', GSlice [GInt 1, GNil]] = (Some (''old'' @ out), None)
    \<and> split_on LF out = [[QUOTE, CHR ''a'', BACKSLASH, CHR ''n'', QUOTE], ''[1,null]'', []]"
  using json_lines_split [of healthy lines_config "\<lambda>name. Some ''old''"
      "[GString [CHR ''a'', LF], GChan ''0xc000'', GSlice [GInt 1, GNil]]"]
  by (simp add: lines_config_def previous_def json_quote_def escape_char_def json_safe_def
      bracket_def new_line_def itoa_one)

section \<open>JSON\<close>

lemma marshal_line: "jsonMarshalLine v h = map_option (\<lambda>x. TAB # x @ [CHR '','', LF]) (encode h None 0 v)"
  by (simp add: jsonMarshalLine_def butlast_append split: option.splits)

definition json_body :: "bool \<Rightarrow> gvalue list \<Rightarrow> string" where
  "json_body h items = concat (map (\<lambda>x. TAB # x @ [CHR '','', LF]) (encodings h None items))"

lemma json_body_simps [simp]:
  "json_body h [] = []"
  "json_body h (v # vs) =
     (case jsonMarshalLine v h of None \<Rightarrow> json_body h vs | Some line \<Rightarrow> line @ json_body h vs)"
  by (simp_all add: json_body_def marshal_line split: option.splits)

text \<open>What a write, or all writes of a list of items, may leave in the file.\<close>

lemma file_write_prefix:
  "file_write w bs f = (f', e) \<Longrightarrow>
   \<exists>p. contents f' = contents f @ p \<and> prefix p bs \<and> (e = None \<longrightarrow> p = bs)"
  by (auto simp: file_write_def take_is_prefix split: option.splits)

lemma json_values_prefix:
  "json_values w h f items = (f', r) \<Longrightarrow>
   \<exists>p. contents f' = contents f @ p \<and> prefix p (json_body h items) \<and> (r = None \<longrightarrow> p = json_body h items)"
proof (induction items arbitrary: f)
  case (Cons v items)
  show ?case
  proof (cases "jsonMarshalLine v h")
    case None
    then show ?thesis using Cons by simp
  next
    case (Some line)
    obtain f1 e where w: "file_write w line f = (f1, e)" by force
    from file_write_prefix [OF w] obtain p where
      p: "contents f1 = contents f @ p" "prefix p line" "e = None \<longrightarrow> p = line" by blast
    show ?thesis
    proof (cases e)
      case None
      then obtain q where "contents f' = contents f1 @ q" "prefix q (json_body h items)"
        "r = None \<longrightarrow> q = json_body h items"
        using Cons.IH [of f1] Cons.prems Some w by auto
      then show ?thesis using p None Some by (intro exI [of _ "line @ q"]) simp
    next
      case (Some e')
      then have "f' = f1" "r \<noteq> None" using Cons.prems \<open>jsonMarshalLine v h = _\<close> w by auto
      then show ?thesis using p \<open>jsonMarshalLine v h = _\<close> by (auto intro: prefix_prefix)
    qed
  qed
qed simp

lemma json_values_ok: "os_ok w \<Longrightarrow> snd (json_values w h f items) = None"
  by (induction items arbitrary: f) (simp_all add: write_ok split: option.splits)

definition json_text :: "bool \<Rightarrow> gvalue list \<Rightarrow> string" where
  "json_text h items = [CHR ''['', LF] @ json_body h items @ [CHR '']'', LF]"

lemma json_export_ok:
  assumes "os_ok w"
  shows "JSON_Export w old name h items =
    (Some (previous old (DefaultString name ''out.json'') @ json_text h items), None)"
proof -
  let ?f = "\<lparr>contents = previous old (DefaultString name ''out.json'') @ [CHR ''['', LF], writes = 1\<rparr>"
  obtain f' where f': "json_values w h ?f items = (f', None)"
    using json_values_ok [OF assms, of h ?f items] by (metis prod.collapse)
  from json_values_prefix [OF this] have "contents f' = contents ?f @ json_body h items" by simp
  with f' show ?thesis
    using assms by (simp add: JSON_Export_def open_ok write_ok json_text_def)
qed

text \<open>On a working file system \<open>JSON\<close> appends an opening bracket, for each item that can be encoded
  a tab, its encoding, a comma and a line end, and a closing bracket, and returns no error.\<close>

theorem json_file:
  assumes "os_ok w"
  shows "JSON_Export w old name h items =
    (Some (previous old (DefaultString name ''out.json'') @ [CHR ''['', LF]
       @ concat (map (\<lambda>x. TAB # x @ [CHR '','', LF]) (encodings h None items)) @ [CHR '']'', LF]), None)"
  using json_export_ok [OF assms] by (simp add: json_text_def json_body_def)

definition key_value :: gvalue where
  "key_value = GMap [(''key'', GString ''value'')]"

lemma encode_key_value:
  "encode h None 0 key_value =
     Some (''{'' @ [QUOTE] @ ''key'' @ [QUOTE] @ '':'' @ [QUOTE] @ ''value'' @ [QUOTE] @ ''}'')"
  by (simp add: key_value_def json_quote_def escape_char_def json_safe_def
      bracket_def new_line_def member_def colon_def)

theorem json_file_witness:
  "JSON_Export healthy (\<lambda>name. None) [] False [key_value, GChan ''0xc0''] =
     (Some ([CHR ''['', LF, TAB] @ the (encode False None 0 key_value) @ [CHR '','', LF, CHR '']'', LF]), None)"
  using json_file [OF healthy_ok, of "\<lambda>name. None" "[]" False "[key_value, GChan ''0xc0'']"]
  by (simp add: encode_key_value previous_def)

text \<open>The file for the map of the repository's test has a comma before the closing bracket, which
  JSON does not allow; the test expects it without the comma.\<close>

theorem json_trailing_comma:
  "fst (JSON_Export healthy (\<lambda>name. None) [] False [key_value]) =
     Some ([CHR ''['', LF, TAB] @ the (encode False None 0 key_value) @ [CHR '','', LF, CHR '']'', LF])
   \<and> fst (JSON_Export healthy (\<lambda>name. None) [] False [key_value]) \<noteq>
     Some ([CHR ''['', LF, TAB] @ the (encode False None 0 key_value) @ [LF, CHR '']'', LF])"
  by (simp add: JSON_Export_def open_ok write_ok marshal_line encode_key_value previous_def)

section \<open>Errors\<close>

text \<open>A sequence of writes, which ends at the first that fails.\<close>

fun write_all :: "os \<Rightarrow> out_file \<Rightarrow> string list \<Rightarrow> out_file \<times> string option" where
  "write_all w f [] = (f, None)"
| "write_all w f (c # cs) =
     (case file_write w c f of (f', Some e) \<Rightarrow> (f', Some (write_failed e)) | (f', None) \<Rightarrow> write_all w f' cs)"

lemma write_all_append:
  "write_all w f (xs @ ys) =
     (case write_all w f xs of (f', Some e) \<Rightarrow> (f', Some e) | (f', None) \<Rightarrow> write_all w f' ys)"
  by (induction xs arbitrary: f) (simp_all split: prod.split option.split)

definition first_failure :: "os \<Rightarrow> nat \<Rightarrow> nat \<Rightarrow> nat option" where
  "first_failure w m n = find (\<lambda>k. write_error w k \<noteq> None) [m..<m + n]"

lemma first_failure_Suc:
  "first_failure w m (Suc n) = (if write_error w m \<noteq> None then Some m else first_failure w (Suc m) n)"
  by (simp add: first_failure_def upt_conv_Cons del: upt_Suc)

lemma first_failureD: "first_failure w m n = Some k \<Longrightarrow> m \<le> k \<and> write_error w k \<noteq> None"
  by (auto simp: first_failure_def find_Some_iff)

lemma write_all_first_failure:
  "case first_failure w (writes f) (length cs) of
     None \<Rightarrow> snd (write_all w f cs) = None
   | Some k \<Rightarrow> \<exists>n e f'. write_error w k = Some (n, e) \<and> write_all w f cs = (f', Some (write_failed e))
       \<and> contents f' = contents f @ concat (take (k - writes f) cs) @ take n (cs ! (k - writes f))"
proof (induction cs arbitrary: f)
  case Nil
  then show ?case by (simp add: first_failure_def)
next
  case (Cons c cs)
  show ?case
  proof (cases "write_error w (writes f)")
    case (Some ne)
    then show ?thesis by (cases ne) (simp add: first_failure_Suc file_write_def)
  next
    case None
    let ?f = "\<lparr>contents = contents f @ c, writes = writes f + 1\<rparr>"
    have step: "write_all w f (c # cs) = write_all w ?f cs" using None by (simp add: file_write_def)
    show ?thesis
    proof (cases "first_failure w (Suc (writes f)) (length cs)")
      case first: None
      then show ?thesis using Cons [of ?f] step by (simp add: first_failure_Suc None)
    next
      case (Some k)
      then have "k - writes f = Suc (k - Suc (writes f))" using first_failureD by fastforce
      then show ?thesis using Cons [of ?f] step Some by (simp add: first_failure_Suc None)
    qed
  qed
qed

text \<open>The writes of \<open>JSON\<close> for some items.\<close>

definition json_writes :: "bool \<Rightarrow> gvalue list \<Rightarrow> string list" where
  "json_writes h items =
     [CHR ''['', LF] # map (\<lambda>x. TAB # x @ [CHR '','', LF]) (encodings h None items) @ [[CHR '']'', LF]]"

lemma json_values_writes:
  "json_values w h f items = write_all w f (map (\<lambda>x. TAB # x @ [CHR '','', LF]) (encodings h None items))"
  by (induction items arbitrary: f) (simp_all add: marshal_line split: option.split prod.split)

lemma JSON_Export_writes:
  assumes "open_error w (DefaultString name ''out.json'') = None"
  shows "JSON_Export w old name h items =
    map_prod (\<lambda>f. Some (contents f)) id
      (write_all w \<lparr>contents = previous old (DefaultString name ''out.json''), writes = 0\<rparr> (json_writes h items))"
  using assms
  by (simp add: JSON_Export_def json_writes_def open_append_def previous_def write_all_append json_values_writes
      split: prod.split option.split)

text \<open>C35: \<open>Export\<close> of \<open>JSON\<close> returns an error exactly when the file cannot be opened or one of its writes fails:
  an opening bracket, one write for each item that can be encoded, a closing bracket. When the file
  cannot be opened, nothing is written. The first write that fails is the last: its error is returned, and the
  file has got the writes before it and what the failed one has written.\<close>

theorem json_errors:
  "case open_error w (DefaultString name ''out.json'') of
     Some e \<Rightarrow> JSON_Export w old name h items = (None, Some (''output file creation error: '' @ e))
   | None \<Rightarrow>
       (case find (\<lambda>k. write_error w k \<noteq> None) [0..<length (encodings h None items) + 2] of
          None \<Rightarrow> snd (JSON_Export w old name h items) = None
        | Some k \<Rightarrow> \<exists>n e. write_error w k = Some (n, e) \<and> JSON_Export w old name h items =
            (Some (previous old (DefaultString name ''out.json'') @ concat (take k (json_writes h items))
               @ take n (json_writes h items ! k)), Some (''file write error: '' @ e)))"
proof (cases "open_error w (DefaultString name ''out.json'')")
  case None
  let ?f = "\<lparr>contents = previous old (DefaultString name ''out.json''), writes = 0\<rparr>"
  have n: "length (json_writes h items) = length (encodings h None items) + 2" by (simp add: json_writes_def)
  show ?thesis
    using write_all_first_failure [of w ?f "json_writes h items"] None JSON_Export_writes [OF None, of old h items]
    by (auto simp: n first_failure_def write_failed_def simp del: upt_Suc split: option.splits)
next
  case (Some e)
  then show ?thesis by (simp add: JSON_Export_def open_append_def)
qed

text \<open>The second write fails after three bytes.\<close>

definition disk_full :: os where
  "disk_full = \<lparr>open_error = (\<lambda>name. None),
     write_error = (\<lambda>n. if n = 1 then Some (3, ''no space left on device'') else None)\<rparr>"

theorem json_errors_witness:
  "JSON_Export disk_full (\<lambda>name. None) [] False [key_value, key_value] =
     (Some [CHR ''['', LF, TAB, CHR ''{'', QUOTE], Some ''file write error: no space left on device'')"
  using json_errors [where w = disk_full and name = "[]" and old = "\<lambda>name. None" and h = False
      and items = "[key_value, key_value]"]
  by (simp add: disk_full_def previous_def json_writes_def encode_key_value upt_rec)

section \<open>JSONLine and errors\<close>

lemma json_lines_broken: "json_lines w h lay True f items = f"
  by (induction items) auto

lemma json_lines_prefix:
  "\<exists>p. contents (json_lines w h lay False f items) = contents f @ p
     \<and> prefix p (concat (map (\<lambda>x. x @ [LF]) (encodings h lay items)))"
proof (induction items arbitrary: f)
  case (Cons v items)
  show ?case
  proof (cases "encode h lay 0 v")
    case None
    then show ?thesis using Cons by simp
  next
    case (Some x)
    obtain f1 e where w: "file_write w (x @ [LF]) f = (f1, e)" by force
    from file_write_prefix [OF w] obtain p where
      p: "contents f1 = contents f @ p" "prefix p (x @ [LF])" "e = None \<longrightarrow> p = x @ [LF]" by blast
    show ?thesis
    proof (cases e)
      case None
      obtain q where "contents (json_lines w h lay False f1 items) = contents f1 @ q"
        "prefix q (concat (map (\<lambda>x. x @ [LF]) (encodings h lay items)))"
        using Cons.IH [of f1] by blast
      then show ?thesis using w p None Some by (intro exI [of _ "x @ [LF] @ q"]) simp
    next
      case (Some e')
      have "prefix p ((x @ [LF]) @ concat (map (\<lambda>x. x @ [LF]) (encodings h lay items)))"
        using p(2) by (rule prefix_prefix)
      then show ?thesis using w p(1) Some \<open>encode h lay 0 v = _\<close>
        by (intro exI [of _ p]) (simp add: json_lines_broken)
    qed
  qed
qed simp

text \<open>Once its file is open, \<open>Export\<close> of \<open>JSONLine\<close> never returns an error: a failed write is only
  logged, and what comes after it is lost without an error.\<close>

theorem json_lines_swallows_errors:
  assumes "open_error w (DefaultString (FileName e) ''out.json'') = None"
  shows "\<exists>p. JSONLine_Export w old e items =
      (Some (previous old (DefaultString (FileName e) ''out.json'') @ p), None)
    \<and> prefix p (concat (map (\<lambda>x. x @ [LF]) (encodings (EscapeHTML e) (line_layout e) items)))"
proof -
  let ?f = "\<lparr>contents = previous old (DefaultString (FileName e) ''out.json''), writes = 0\<rparr>"
  obtain p where "contents (json_lines w (EscapeHTML e) (line_layout e) False ?f items) = contents ?f @ p"
    "prefix p (concat (map (\<lambda>x. x @ [LF]) (encodings (EscapeHTML e) (line_layout e) items)))"
    using json_lines_prefix by blast
  then show ?thesis using assms
    by (simp add: JSONLine_Export_def open_append_def previous_def)
qed

theorem json_lines_swallows_errors_witness:
  "\<exists>p. JSONLine_Export disk_full (\<lambda>name. None) lines_config [GNil, GNil, GNil] = (Some p, None)
    \<and> prefix p (''null'' @ [LF] @ ''null'' @ [LF] @ ''null'' @ [LF])"
  using json_lines_swallows_errors [of disk_full lines_config "\<lambda>name. None" "[GNil, GNil, GNil]"]
  by (simp add: disk_full_def lines_config_def line_layout_def previous_def)

section \<open>Go maps have no order\<close>

text \<open>Sorting by distinct keys gives the same list for every order of the entries.\<close>

lemma sort_key_perm:
  fixes xs ys :: "(string \<times> 'v) list"
  assumes "mset xs = mset ys" and "distinct (map fst xs)"
  shows "sort_key fst xs = sort_key fst ys"
proof (rule sort_key_inj_key_eq)
  show "mset xs = mset (sort_key fst ys)" using assms(1) by simp
  show "inj_on fst (set xs)" using assms(2) by (simp add: distinct_map)
qed simp

lemma encode_fields_map:
  "encode_fields h lay d kvs =
     (if \<forall>kv\<in>set kvs. encode h lay d (snd kv) \<noteq> None
      then Some (map (\<lambda>kv. (fst kv, the (encode h lay d (snd kv)))) kvs) else None)"
proof (induction kvs)
  case (Cons kv kvs)
  obtain k v where "kv = (k, v)" by force
  then show ?case using Cons by (cases "encode h lay d v") simp_all
qed simp

lemma sprint_fields_map: "sprint_fields kvs = map (\<lambda>kv. (fst kv, sprint (snd kv))) kvs"
  by (induction kvs) auto

text \<open>What is written for a map does not depend on the order in which Go iterates over it: neither the
  JSON encoding, nor the CSV record, nor the text of \<open>fmt.Sprint\<close>.\<close>

theorem map_order_irrelevant:
  assumes "mset kvs = mset kvs'" and "distinct (map fst kvs)"
  shows "encode h lay d (GMap kvs) = encode h lay d (GMap kvs')
    \<and> csv_values (GMap kvs) = csv_values (GMap kvs') \<and> sprint (GMap kvs) = sprint (GMap kvs')"
proof (intro conjI)
  have keys: "sort_key fst (map (\<lambda>kv. (fst kv, f (snd kv))) kvs) =
      sort_key fst (map (\<lambda>kv. (fst kv, f (snd kv))) kvs')" for f :: "gvalue \<Rightarrow> string"
    using assms by (intro sort_key_perm) (simp_all add: comp_def)
  have set: "set kvs = set kvs'" using assms(1) by (rule mset_eq_setD)
  show "encode h lay d (GMap kvs) = encode h lay d (GMap kvs')"
    using keys [of "\<lambda>v. the (encode h lay (d + 1) v)"] set by (simp add: encode_fields_map)
  show "csv_values (GMap kvs) = csv_values (GMap kvs')"
    using assms(1) by (auto simp: csv_values_def intro!: properties_for_sort)
  show "sprint (GMap kvs) = sprint (GMap kvs')"
    using keys [of sprint] by (simp add: sprint_fields_map)
qed

theorem map_order_irrelevant_witness:
  "csv_values (GMap [(''a'', GString ''2''), (''b'', GString ''1'')]) =
   csv_values (GMap [(''b'', GString ''1''), (''a'', GString ''2'')])"
  using map_order_irrelevant [of "[(''a'', GString ''2''), (''b'', GString ''1'')]"
    "[(''b'', GString ''1''), (''a'', GString ''2'')]"] by simp

section \<open>CSV\<close>

text \<open>A reader of CSV (RFC 4180) to compare with: fields in quotes with doubled quotes, records ended by
  a line feed.\<close>

fun read_quoted :: "string \<Rightarrow> (string \<times> string) option" where
  "read_quoted [] = None"
| "read_quoted (c # cs) =
     (if c = QUOTE then
        (case cs of
           [] \<Rightarrow> Some ([], [])
         | d # ds \<Rightarrow>
             if d = QUOTE then map_option (apfst ((#) QUOTE)) (read_quoted ds) else Some ([], cs))
      else map_option (apfst ((#) c)) (read_quoted cs))"

definition read_field :: "char \<Rightarrow> string \<Rightarrow> (string \<times> string) option" where
  "read_field comma s =
     (case s of
        [] \<Rightarrow> Some ([], [])
      | c # cs \<Rightarrow>
          if c = QUOTE then read_quoted cs
          else Some (takeWhile (\<lambda>c. c \<noteq> comma \<and> c \<noteq> LF) s, dropWhile (\<lambda>c. c \<noteq> comma \<and> c \<noteq> LF) s))"

fun read_record :: "nat \<Rightarrow> char \<Rightarrow> string \<Rightarrow> (string list \<times> string) option" where
  "read_record 0 comma s = None"
| "read_record (Suc n) comma s =
     (case read_field comma s of
        None \<Rightarrow> None
      | Some (f, []) \<Rightarrow> Some ([f], [])
      | Some (f, c # cs) \<Rightarrow>
          if c = LF then Some ([f], cs)
          else if c = comma then map_option (apfst ((#) f)) (read_record n comma cs) else None)"

fun read_records :: "nat \<Rightarrow> char \<Rightarrow> string \<Rightarrow> string list list option" where
  "read_records n comma [] = Some []"
| "read_records 0 comma (c # cs) = None"
| "read_records (Suc n) comma s =
     (case read_record (length s) comma s of
        None \<Rightarrow> None
      | Some (r, rest) \<Rightarrow> map_option ((#) r) (read_records n comma rest))"

definition csv_read :: "char \<Rightarrow> string \<Rightarrow> string list list option" where
  "csv_read comma s = read_records (length s) comma s"

lemma read_quoted_bytes:
  "c \<noteq> QUOTE \<Longrightarrow> read_quoted (quoted_bytes False f @ QUOTE # c # cs) = Some (f, c # cs)"
  by (induction "False" f rule: quoted_bytes.induct) auto

lemma read_csv_field:
  assumes "validDelim comma" and "c \<in> {comma, LF}"
  shows "read_field comma (csv_field comma False f @ c # cs) = Some (f, c # cs)"
proof (cases "fieldNeedsQuotes comma f")
  case True
  then show ?thesis using assms
    by (auto simp: csv_field_def read_field_def validDelim_def read_quoted_bytes)
next
  case False
  then have plain: "\<forall>x\<in>set f. x \<noteq> comma \<and> x \<noteq> LF" and quote: "QUOTE \<notin> set f"
    by (auto simp: fieldNeedsQuotes_def split: if_splits)
  have "c \<noteq> QUOTE" using assms by (auto simp: validDelim_def)
  moreover have "takeWhile (\<lambda>x. x \<noteq> comma \<and> x \<noteq> LF) (f @ c # cs) = f"
    "dropWhile (\<lambda>x. x \<noteq> comma \<and> x \<noteq> LF) (f @ c # cs) = c # cs"
    using plain assms(2) by (auto simp: takeWhile_append2 dropWhile_append2)
  ultimately show ?thesis using False quote
    by (cases f) (auto simp: csv_field_def read_field_def)
qed

lemma read_csv_record:
  assumes "validDelim comma" and "row \<noteq> []" and "length row \<le> n"
  shows "read_record n comma (join_with [comma] (map (csv_field comma False) row) @ LF # rest) =
    Some (row, rest)"
  using assms(2,3)
proof (induction row arbitrary: n)
  case (Cons f row)
  then obtain m where n: "n = Suc m" by (cases n) auto
  have "comma \<noteq> LF" using assms(1) by (simp add: validDelim_def)
  show ?case
  proof (cases row)
    case Nil
    then show ?thesis using read_csv_field [OF assms(1), of LF f rest] by (simp add: n)
  next
    case (Cons g row')
    let ?more = "join_with [comma] (map (csv_field comma False) row) @ LF # rest"
    have "read_record m comma ?more = Some (row, rest)"
      using Cons.IH [of m] Cons.prems Cons by (simp add: n)
    then show ?thesis
      using read_csv_field [OF assms(1), of comma f ?more] Cons \<open>comma \<noteq> LF\<close> by (simp add: n)
  qed
qed simp


lemma read_csv_rows:
  assumes "validDelim comma" and "[] \<notin> set rows" and "length rows \<le> n"
  shows "read_records n comma (concat (map (\<lambda>row. join_with [comma] (map (csv_field comma False) row) @ [LF]) rows)) =
    Some rows"
  using assms(2,3)
proof (induction rows arbitrary: n)
  case (Cons row rows)
  let ?text = "\<lambda>row. join_with [comma] (map (csv_field comma False) row)"
  let ?rest = "concat (map (\<lambda>row. ?text row @ [LF]) rows)"
  obtain m where n: "n = Suc m" using Cons.prems(2) by (cases n) auto
  have long: "length xs \<le> length (join_with [comma] xs) + 1" for xs :: "string list"
    by (induction "[comma]" xs rule: join_with.induct) auto
  have row: "row \<noteq> []" "length row \<le> length (?text row @ LF # ?rest)"
    using Cons.prems(1) long [of "map (csv_field comma False) row"] by auto
  obtain c cs where s: "?text row @ LF # ?rest = c # cs" by (cases "?text row") auto
  have "read_record (length (c # cs)) comma (c # cs) = Some (row, ?rest)"
    using read_csv_record [OF assms(1) row, of ?rest] by (simp only: s)
  moreover have "read_records m comma ?rest = Some rows" using Cons by (simp add: n)
  ultimately show ?case using s by (simp add: n)
qed simp

definition csv_comma :: "csv_exporter \<Rightarrow> char" where
  "csv_comma e = char_of (DefaultRune (byte (Comma e)) (byte (CHR '','')))"

lemma csv_read_back:
  assumes "os_ok w" and "validDelim (csv_comma e)" and "\<not> UseCRLF e"
    and "\<forall>item\<in>set items. csv_values item \<noteq> []"
  shows "\<exists>out. CSV_Export w old e items =
      (Some (previous old (DefaultString (FileName' e) ''out.csv'') @ out), None)
    \<and> csv_read (csv_comma e) out = Some (map csv_values items)"
proof -
  let ?line = "\<lambda>row. join_with [csv_comma e] (map (csv_field (csv_comma e) False) row) @ [LF]"
  let ?out = "concat (map ?line (map csv_values items))"
  have "length xs \<le> length (concat (map ?line xs))" for xs
    by (induction xs) auto
  from this [of "map csv_values items"]
  have "csv_read (csv_comma e) ?out = Some (map csv_values items)"
    using assms(2,4) unfolding csv_read_def by (intro read_csv_rows) auto
  moreover have "CSV_Export w old e items =
      (Some (previous old (DefaultString (FileName' e) ''out.csv'') @ ?out), None)"
    using assms(1-3)
    by (simp add: CSV_Export_def open_ok csv_write_def csv_comma_def Let_def comp_def)
  ultimately show ?thesis by blast
qed

text \<open>C37: A CSV file can be read back: with a valid delimiter and line feeds, and when every item has at
  least one value, a CSV reader gets exactly the values of the items from what the exporter appended,
  whatever delimiters, quotes and line breaks the values have in them.\<close>

theorem csv_roundtrip:
  assumes "os_ok w" and "validDelim (csv_comma e)" and "\<not> UseCRLF e"
    and "\<forall>item\<in>set items. csv_values item \<noteq> []"
  shows "\<exists>out. CSV_Export w old e items =
      (Some (previous old (DefaultString (FileName' e) ''out.csv'') @ out), None)
    \<and> csv_read (csv_comma e) out = Some (map csv_values items)"
  using csv_read_back [OF assms] .

definition semicolons :: csv_exporter where
  "semicolons = \<lparr>FileName' = [], Comma = CHR '';'', UseCRLF = False\<rparr>"

definition awkward :: "gvalue list" where
  "awkward = [GSlice [GString ''a;b'', GString [QUOTE, LF]],
     GMap [(''k1'', GString ''v1''), (''k2'', GNil)]]"

theorem csv_roundtrip_witness:
  "\<exists>out. CSV_Export healthy (\<lambda>name. None) semicolons awkward = (Some out, None)
    \<and> csv_read (CHR '';'') out = Some [[''a;b'', [QUOTE, LF]], [''<nil>'', ''v1'']]"
proof -
  have comma: "csv_comma semicolons = CHR '';''" by code_simp
  have rows: "map csv_values awkward = [[''a;b'', [QUOTE, LF]], [''<nil>'', ''v1'']]" by code_simp
  have "validDelim (CHR '';'')" by code_simp
  moreover have "\<forall>item\<in>set awkward. csv_values item \<noteq> []" by code_simp
  ultimately show ?thesis
    using csv_roundtrip [of healthy semicolons awkward "\<lambda>name. None"] rows
    by (simp add: comma previous_def) (simp add: semicolons_def)
qed

lemma char_44: "char_of (44 :: int) = CHR '',''"
  by code_simp

text \<open>Only slices and maps have values for CSV: any other item, a struct or the body of a response as
  a string, becomes an empty line, and no error is returned.\<close>

theorem csv_blank_line:
  "(case item of GSlice vs \<Rightarrow> True | GMap kvs \<Rightarrow> True
      | _ \<Rightarrow> csv_write (CHR '','') False (csv_values item) = Some [LF])
   \<and> CSV_Export healthy (\<lambda>name. None) \<lparr>FileName' = [], Comma = CHR 0x00, UseCRLF = False\<rparr>
        [GString ''text'', GStruct [(''Name'', GString ''n'')]] = (Some [LF, LF], None)"
proof
  show "case item of GSlice vs \<Rightarrow> True | GMap kvs \<Rightarrow> True
      | _ \<Rightarrow> csv_write (CHR '','') False (csv_values item) = Some [LF]"
    by (cases item) (simp_all add: csv_write_def csv_values_def validDelim_def)
  have "csv_write (CHR '','') False [] = Some [LF]" by code_simp
  then show "CSV_Export healthy (\<lambda>name. None) \<lparr>FileName' = [], Comma = CHR 0x00, UseCRLF = False\<rparr>
        [GString ''text'', GStruct [(''Name'', GString ''n'')]] = (Some [LF, LF], None)"
    by (simp add: CSV_Export_def open_ok previous_def csv_values_def DefaultRune_def char_44)
qed

end
