(* ===== verification/Json_Reading.thy ===== *)
theory Json_Reading
  imports Exporters_Laws
begin

text \<open>
  Reading back what the JSON encoder writes: a reader of JSON (without blanks between the tokens), and
  the proof that it inverts the encoding of every value whose strings are valid UTF-8, up to the things
  JSON does not keep: the order of a map and the difference between structs and maps.
\<close>

section \<open>The reader\<close>

definition hex_val :: "char \<Rightarrow> int option" where
  "hex_val c =
     (let b = byte c in
      if 48 \<le> b \<and> b \<le> 57 then Some (b - 48)
      else if 97 \<le> b \<and> b \<le> 102 then Some (b - 87)
      else if 65 \<le> b \<and> b \<le> 70 then Some (b - 55) else None)"

definition hex4 :: "char \<Rightarrow> char \<Rightarrow> char \<Rightarrow> char \<Rightarrow> int option" where
  "hex4 a b c d =
     (case (hex_val a, hex_val b, hex_val c, hex_val d) of
        (Some w, Some x, Some y, Some z) \<Rightarrow> Some (4096 * w + 256 * x + 16 * y + z)
      | _ \<Rightarrow> None)"

text \<open>UTF-8 of a code point below \<open>0x10000\<close>.\<close>

definition utf8 :: "int \<Rightarrow> string" where
  "utf8 n =
     (if n < 0x80 then [char_of n]
      else if n < 0x800 then [char_of (0xC0 + n div 64), char_of (0x80 + n mod 64)]
      else [char_of (0xE0 + n div 4096), char_of (0x80 + n div 64 mod 64), char_of (0x80 + n mod 64)])"

definition unescape :: "char \<Rightarrow> char option" where
  "unescape c =
     (if c = QUOTE \<or> c = BACKSLASH \<or> c = CHR ''/'' then Some c
      else if c = CHR ''n'' then Some LF else if c = CHR ''r'' then Some CR
      else if c = CHR ''t'' then Some TAB else if c = CHR ''b'' then Some (CHR 0x08)
      else if c = CHR ''f'' then Some (CHR 0x0C) else None)"

text \<open>A string after its opening quote: the contents and what follows the closing quote.\<close>

fun read_string :: "string \<Rightarrow> (string \<times> string) option" where
  "read_string [] = None"
| "read_string (c # cs) =
     (if c = QUOTE then Some ([], cs)
      else if c = BACKSLASH then
        (case cs of
           [] \<Rightarrow> None
         | d # ds \<Rightarrow>
             if d = CHR ''u'' then
               (case ds of
                  w # x # y # z # rest \<Rightarrow>
                    (case hex4 w x y z of None \<Rightarrow> None
                     | Some n \<Rightarrow> map_option (apfst ((@) (utf8 n))) (read_string rest))
                | _ \<Rightarrow> None)
             else
               (case unescape d of None \<Rightarrow> None
                | Some e \<Rightarrow> map_option (apfst ((#) e)) (read_string ds)))
      else if byte c < 0x20 then None
      else map_option (apfst ((#) c)) (read_string cs))"

definition read_digits :: "string \<Rightarrow> (int \<times> string) option" where
  "read_digits s =
     (case takeWhile is_digit s of [] \<Rightarrow> None | ds \<Rightarrow> Some (atou ds, dropWhile is_digit s))"

definition read_int :: "string \<Rightarrow> (int \<times> string) option" where
  "read_int s =
     (case s of [] \<Rightarrow> None
      | c # cs \<Rightarrow> if c = CHR ''-'' then map_option (apfst uminus) (read_digits cs) else read_digits s)"

fun read_value :: "nat \<Rightarrow> string \<Rightarrow> (gvalue \<times> string) option"
  and read_elems :: "nat \<Rightarrow> string \<Rightarrow> (gvalue list \<times> string) option"
  and read_members :: "nat \<Rightarrow> string \<Rightarrow> ((string \<times> gvalue) list \<times> string) option" where
  "read_value 0 s = None"
| "read_value (Suc n) s =
     (case s of
        [] \<Rightarrow> None
      | c # cs \<Rightarrow>
          if c = QUOTE then map_option (apfst GString) (read_string cs)
          else if c = CHR ''['' then
            (if has_prefix cs '']'' then Some (GSlice [], tl cs)
             else map_option (apfst GSlice) (read_elems n cs))
          else if c = CHR ''{'' then
            (if has_prefix cs ''}'' then Some (GMap [], tl cs)
             else map_option (apfst GMap) (read_members n cs))
          else if has_prefix s ''null'' then Some (GNil, drop 4 s)
          else if has_prefix s ''true'' then Some (GBool True, drop 4 s)
          else if has_prefix s ''false'' then Some (GBool False, drop 5 s)
          else map_option (apfst GInt) (read_int s))"
| "read_elems 0 s = None"
| "read_elems (Suc n) s =
     (case read_value n s of
        Some (v, c # rest) \<Rightarrow>
          if c = CHR '','' then map_option (apfst ((#) v)) (read_elems n rest)
          else if c = CHR '']'' then Some ([v], rest) else None
      | _ \<Rightarrow> None)"
| "read_members 0 s = None"
| "read_members (Suc n) s =
     (if \<not> has_prefix s [QUOTE] then None
      else
        case read_string (tl s) of
          Some (k, c # s') \<Rightarrow>
            if c \<noteq> CHR '':'' then None
            else
              (case read_value n s' of
                 Some (v, d # rest) \<Rightarrow>
                   if d = CHR '','' then map_option (apfst ((#) (k, v))) (read_members n rest)
                   else if d = CHR ''}'' then Some ([(k, v)], rest) else None
               | _ \<Rightarrow> None)
        | _ \<Rightarrow> None)"

definition json_read :: "string \<Rightarrow> gvalue option" where
  "json_read s =
     (case read_value (length s) s of Some (v, []) \<Rightarrow> Some v | _ \<Rightarrow> None)"

section \<open>Strings\<close>

fun valid_utf8 :: "string \<Rightarrow> bool" where
  "valid_utf8 [] \<longleftrightarrow> True"
| "valid_utf8 (c # cs) \<longleftrightarrow> 0 < rune_len (c # cs) \<and> valid_utf8 (drop (rune_len (c # cs) - 1) cs)"

lemma escaped_char:
  "byte c < 128 \<Longrightarrow> (escape_char h c = [c] \<and> c \<noteq> QUOTE \<and> c \<noteq> BACKSLASH \<and> \<not> byte c < 32)
    \<or> (\<exists>d. escape_char h c = [BACKSLASH, d] \<and> d \<noteq> CHR ''u'' \<and> unescape d = Some c)
    \<or> (\<exists>y z. escape_char h c = [BACKSLASH, CHR ''u'', CHR ''0'', CHR ''0'', y, z]
         \<and> hex4 (CHR ''0'') (CHR ''0'') y z = Some (byte c) \<and> utf8 (byte c) = [c])"
proof -
  have all: "\<forall>h c. byte c < 128 \<longrightarrow>
      (escape_char h c = [c] \<and> c \<noteq> QUOTE \<and> c \<noteq> BACKSLASH \<and> \<not> byte c < 32)
    \<or> (\<exists>d. escape_char h c = [BACKSLASH, d] \<and> d \<noteq> CHR ''u'' \<and> unescape d = Some c)
    \<or> (case escape_char h c of [b, u, w, x, y, z] \<Rightarrow>
         b = BACKSLASH \<and> u = CHR ''u'' \<and> w = CHR ''0'' \<and> x = CHR ''0''
         \<and> hex4 (CHR ''0'') (CHR ''0'') y z = Some (byte c) \<and> utf8 (byte c) = [c] | _ \<Rightarrow> False)"
    by code_simp
  assume "byte c < 128"
  with all [rule_format, of c h] show ?thesis
    by (auto split: list.splits)
qed

lemma read_escaped_char:
  assumes "byte c < 128"
  shows "read_string (escape_char h c @ t) = map_option (apfst ((#) c)) (read_string t)"
  using escaped_char [OF assms, of h]
proof (elim disjE exE conjE)
  fix d assume "escape_char h c = [BACKSLASH, d]" "d \<noteq> CHR ''u''" "unescape d = Some c"
  then show ?thesis by simp
next
  fix y z assume "escape_char h c = [BACKSLASH, CHR ''u'', CHR ''0'', CHR ''0'', y, z]"
    "hex4 (CHR ''0'') (CHR ''0'') y z = Some (byte c)" "utf8 (byte c) = [c]"
  then show ?thesis by (cases "read_string t") auto
qed simp

lemma read_high_bytes:
  "\<forall>b\<in>set xs. 128 \<le> byte b \<Longrightarrow> read_string (xs @ t) = map_option (apfst ((@) xs)) (read_string t)"
proof (induction xs)
  case Nil
  then show ?case by (cases "read_string t") auto
next
  case (Cons b xs)
  then have "b \<noteq> QUOTE" "b \<noteq> BACKSLASH" "\<not> byte b < 32" by auto
  with Cons show ?case by (cases "read_string t") auto
qed

lemma read_separators:
  "read_string (BACKSLASH # ''u2028'' @ t) = map_option (apfst ((@) [CHR 0xE2, CHR 0x80, CHR 0xA8])) (read_string t)"
  "read_string (BACKSLASH # ''u2029'' @ t) = map_option (apfst ((@) [CHR 0xE2, CHR 0x80, CHR 0xA9])) (read_string t)"
proof -
  have "hex4 (CHR ''2'') (CHR ''0'') (CHR ''2'') (CHR ''8'') = Some 0x2028"
    "hex4 (CHR ''2'') (CHR ''0'') (CHR ''2'') (CHR ''9'') = Some 0x2029"
    "utf8 0x2028 = [CHR 0xE2, CHR 0x80, CHR 0xA8]" "utf8 0x2029 = [CHR 0xE2, CHR 0x80, CHR 0xA9]"
    by code_simp+
  then show "read_string (BACKSLASH # ''u2028'' @ t) = map_option (apfst ((@) [CHR 0xE2, CHR 0x80, CHR 0xA8])) (read_string t)"
    "read_string (BACKSLASH # ''u2029'' @ t) = map_option (apfst ((@) [CHR 0xE2, CHR 0x80, CHR 0xA9])) (read_string t)"
    by simp_all
qed

lemma rune_len_ascii: "byte c < 128 \<Longrightarrow> rune_len (c # cs) = 1"
  by (simp add: rune_len_def Let_def)

lemma read_escaped:
  "valid_utf8 s \<Longrightarrow> read_string (json_escape h s @ t) = map_option (apfst ((@) s)) (read_string t)"
proof (induction h s rule: json_escape.induct)
  case (1 h)
  then show ?case by (cases "read_string t") auto
next
  case (2 h c cs)
  show ?case
  proof (cases "byte c < 128")
    case True
    then show ?thesis using 2(1) 2(6)
      by (cases "read_string t") (auto simp: read_escaped_char rune_len_ascii)
  next
    case False
    define k where "k = rune_len (c # cs)"
    have k: "0 < k" and valid: "valid_utf8 (drop (k - 1) cs)" using 2(6) by (simp_all add: k_def)
    have high: "\<forall>b\<in>set (take k (c # cs)). 128 \<le> byte b" using high_bytes [of c cs] False by (simp add: k_def)
    have IH: "read_string (json_escape h (drop (k - 1) cs) @ t) =
        map_option (apfst ((@) (drop (k - 1) cs))) (read_string t)"
      using 2(3-5) [OF _ refl] False k valid unfolding k_def by auto
    have split: "take k (c # cs) @ drop (k - 1) cs = c # cs" using k by (cases k) simp_all
    have "read_string (json_escape h (c # cs) @ t) =
        map_option (apfst ((@) (take k (c # cs)))) (read_string (json_escape h (drop (k - 1) cs) @ t))"
    proof -
      consider "take k (c # cs) = [CHR 0xE2, CHR 0x80, CHR 0xA8]"
        | "take k (c # cs) = [CHR 0xE2, CHR 0x80, CHR 0xA9]"
        | "take k (c # cs) \<noteq> [CHR 0xE2, CHR 0x80, CHR 0xA8]" "take k (c # cs) \<noteq> [CHR 0xE2, CHR 0x80, CHR 0xA9]"
        by blast
      then show ?thesis
      proof cases
        case 1
        then have "json_escape h (c # cs) = BACKSLASH # ''u2028'' @ json_escape h (drop (k - 1) cs)"
          using False k by (simp add: k_def Let_def)
        then show ?thesis using 1 read_separators(1) by (simp only: append.simps append_assoc)
      next
        case 2
        then have "json_escape h (c # cs) = BACKSLASH # ''u2029'' @ json_escape h (drop (k - 1) cs)"
          using False k by (simp add: k_def Let_def)
        then show ?thesis using 2 read_separators(2) by (simp only: append.simps append_assoc)
      next
        case 3
        then have "json_escape h (c # cs) = take k (c # cs) @ json_escape h (drop (k - 1) cs)"
          using False k by (simp add: k_def Let_def)
        then show ?thesis using read_high_bytes [OF high] by simp
      qed
    qed
    with IH split show ?thesis
      by (cases "read_string t") auto
  qed
qed

lemma read_json_quote: "valid_utf8 s \<Longrightarrow> read_string (json_escape h s @ QUOTE # rest) = Some (s, rest)"
  by (simp add: read_escaped)

section \<open>Numbers\<close>

lemma digit_not_minus: "is_digit c \<Longrightarrow> c \<noteq> CHR ''-''"
  by (auto simp: is_digit_def)

lemma read_utoa:
  assumes "0 \<le> n" and "rest = [] \<or> \<not> is_digit (hd rest)"
  shows "read_digits (utoa n @ rest) = Some (n, rest)"
proof -
  have "takeWhile is_digit (utoa n @ rest) = utoa n" "dropWhile is_digit (utoa n @ rest) = rest"
    using utoa_digits [OF assms(1)] assms(2)
    by (auto simp: takeWhile_append2 dropWhile_append2 takeWhile_eq_Nil_iff) (cases rest; simp)+
  moreover obtain c cs where "utoa n = c # cs" by (cases "utoa n") auto
  ultimately show ?thesis using atou_utoa [OF assms(1)]
    by (simp add: read_digits_def)
qed

lemma read_itoa:
  assumes "rest = [] \<or> \<not> is_digit (hd rest)"
  shows "read_int (itoa n @ rest) = Some (n, rest)"
proof (cases "n < 0")
  case True
  then show ?thesis using read_utoa [of "- n", OF _ assms] by (simp add: read_int_def itoa_def)
next
  case False
  obtain c cs where u: "utoa n = c # cs" by (cases "utoa n") auto
  then have "c \<noteq> CHR ''-''" using utoa_digits [of n] False digit_not_minus by auto
  then show ?thesis using read_utoa [of n, OF _ assms] False u by (simp add: read_int_def itoa_def)
qed

section \<open>Values\<close>

text \<open>What JSON keeps of a value.\<close>

fun json_norm :: "gvalue \<Rightarrow> gvalue"
  and norm_list :: "gvalue list \<Rightarrow> gvalue list"
  and norm_fields :: "(string \<times> gvalue) list \<Rightarrow> (string \<times> gvalue) list" where
  "json_norm (GSlice vs) = GSlice (norm_list vs)"
| "json_norm (GMap kvs) = GMap (sort_key fst (norm_fields kvs))"
| "json_norm (GStruct kvs) = GMap (norm_fields kvs)"
| "json_norm v = v"
| "norm_list [] = []"
| "norm_list (v # vs) = json_norm v # norm_list vs"
| "norm_fields [] = []"
| "norm_fields ((k, v) # kvs) = (k, json_norm v) # norm_fields kvs"

text \<open>The strings in a value are valid UTF-8.\<close>

fun utf8_value :: "gvalue \<Rightarrow> bool"
  and utf8_list :: "gvalue list \<Rightarrow> bool"
  and utf8_fields :: "(string \<times> gvalue) list \<Rightarrow> bool" where
  "utf8_value (GString s) \<longleftrightarrow> valid_utf8 s"
| "utf8_value (GSlice vs) \<longleftrightarrow> utf8_list vs"
| "utf8_value (GMap kvs) \<longleftrightarrow> utf8_fields kvs"
| "utf8_value (GStruct kvs) \<longleftrightarrow> utf8_fields kvs"
| "utf8_value v \<longleftrightarrow> True"
| "utf8_list [] \<longleftrightarrow> True"
| "utf8_list (v # vs) \<longleftrightarrow> utf8_value v \<and> utf8_list vs"
| "utf8_fields [] \<longleftrightarrow> True"
| "utf8_fields ((k, v) # kvs) \<longleftrightarrow> valid_utf8 k \<and> utf8_value v \<and> utf8_fields kvs"

text \<open>A text that reads as a value, whatever follows it, with as much fuel as it is long.\<close>

definition stops :: "string \<Rightarrow> bool" where
  "stops rest \<longleftrightarrow> rest = [] \<or> \<not> is_digit (hd rest)"

definition reads :: "string \<Rightarrow> gvalue \<Rightarrow> bool" where
  "reads x v \<longleftrightarrow> x \<noteq> [] \<and> hd x \<noteq> CHR '']'' \<and>
     (\<forall>n rest. length x \<le> n \<longrightarrow> stops rest \<longrightarrow> read_value n (x @ rest) = Some (v, rest))"

lemma stops_separator [simp]: "stops (CHR '','' # s)" "stops (CHR '']'' # s)" "stops (CHR ''}'' # s)" "stops []"
  by (simp_all add: stops_def is_digit_def)

lemma reads_elems:
  "xs \<noteq> [] \<Longrightarrow> list_all2 reads xs vs \<Longrightarrow> length (join_with '','' xs) < n \<Longrightarrow>
   read_elems n (join_with '','' xs @ CHR '']'' # rest) = Some (vs, rest)"
proof (induction "'',''" xs arbitrary: vs n rest rule: join_with.induct)
  case (2 x)
  then obtain v m where "vs = [v]" "reads x v" "n = Suc m"
    by (cases n) (auto simp: list_all2_Cons1)
  then show ?case using 2 by (simp add: reads_def)
next
  case (3 x y xs)
  then obtain v ws m where v: "vs = v # ws" "reads x v" "list_all2 reads (y # xs) ws" "n = Suc m"
    by (cases n) (auto simp: list_all2_Cons1)
  then have "read_elems m (join_with '','' (y # xs) @ CHR '']'' # rest) = Some (ws, rest)"
    using 3 by (intro 3(1)) simp_all
  then show ?case using v 3(4) by (simp add: reads_def)
qed simp

lemma read_member:
  assumes "valid_utf8 k" and "reads x v" and "length x \<le> n" and "d = CHR '','' \<or> d = CHR ''}''"
  shows "read_members (Suc n) (member h None (k, x) @ d # s) =
    (if d = CHR '','' then map_option (apfst ((#) (k, v))) (read_members n s) else Some ([(k, v)], s))"
proof -
  have "stops (d # s)" using assms(4) by auto
  then have "read_value n (x @ d # s) = Some (v, d # s)" using assms(2,3) by (simp add: reads_def)
  then show ?thesis using assms(4) read_json_quote [OF assms(1), of h "CHR '':'' # x @ d # s"]
    by (auto simp: member_def json_quote_def colon_def has_prefix_def)
qed

lemma length_member: "length x < length (member h None (k, x))"
  by (simp add: member_def json_quote_def colon_def)

lemma reads_members:
  "zs \<noteq> [] \<Longrightarrow> list_all2 (\<lambda>z kv. fst z = fst kv \<and> valid_utf8 (fst z) \<and> reads (snd z) (snd kv)) zs kvs \<Longrightarrow>
   length (join_with '','' (map (member h None) zs)) < n \<Longrightarrow>
   read_members n (join_with '','' (map (member h None) zs) @ CHR ''}'' # rest) = Some (kvs, rest)"
proof (induction zs arbitrary: kvs n rest)
  case (Cons z zs)
  obtain k x where z: "z = (k, x)" by force
  obtain v ws m where v: "kvs = (k, v) # ws" "valid_utf8 k" "reads x v" "n = Suc m"
    "list_all2 (\<lambda>z kv. fst z = fst kv \<and> valid_utf8 (fst z) \<and> reads (snd z) (snd kv)) zs ws"
    using Cons.prems z by (cases n) (auto simp: list_all2_Cons1)
  show ?case
  proof (cases zs)
    case Nil
    then have "length x \<le> m" using Cons.prems(3) length_member [of x h k] by (simp add: z v)
    then show ?thesis using v Nil by (simp add: z read_member del: read_members.simps)
  next
    case (Cons z' zs')
    let ?more = "join_with '','' (map (member h None) zs)"
    have join: "join_with '','' (map (member h None) (z # zs)) = member h None z @ CHR '','' # ?more"
      by (simp add: Cons)
    then have len: "length x \<le> m" "length ?more < m"
      using Cons.prems(3) length_member [of x h k] by (simp_all add: z v)
    have "read_members m (?more @ CHR ''}'' # rest) = Some (ws, rest)"
      using Cons.IH [OF _ v(5) len(2)] Cons by simp
    then show ?thesis using v len(1) unfolding join by (simp add: z read_member del: read_members.simps)
  qed
qed simp

section \<open>The encoder is inverted\<close>

lemma list_all2_sort:
  fixes xs :: "(string \<times> 'a) list" and ys :: "(string \<times> 'b) list"
  assumes "list_all2 P xs ys" and key: "\<And>x y. P x y \<Longrightarrow> fst x = fst y"
  shows "list_all2 P (sort_key fst xs) (sort_key fst ys)"
proof -
  have "list_all2 P (insort_key fst x us) (insort_key fst y vs)" if "P x y" "list_all2 P us vs" for x y us vs
    using that(2)
  proof (induction us vs rule: list_all2_induct)
    case (Cons u us v vs)
    then show ?case using key [OF that(1)] key [OF Cons(1)] that(1) by simp
  qed (use that(1) in simp)
  with assms(1) show ?thesis by (induction xs ys rule: list_all2_induct) simp_all
qed

lemma reads_leaf:
  assumes "x \<noteq> []" and "hd x \<noteq> CHR '']''" and "\<And>n rest. stops rest \<Longrightarrow> read_value (Suc n) (x @ rest) = Some (v, rest)"
  shows "reads x v"
  unfolding reads_def
proof (intro conjI allI impI assms(1,2))
  fix n rest assume "length x \<le> n" "stops rest"
  then show "read_value n (x @ rest) = Some (v, rest)" using assms by (cases n) auto
qed


lemma reads_bracket:
  assumes "list_all2 reads xs vs"
  shows "reads (bracket None d (CHR ''['') (CHR '']'') xs) (GSlice vs)"
proof (cases "xs = []")
  case True
  then show ?thesis using assms by (intro reads_leaf) (simp_all add: bracket_def has_prefix_def)
next
  case False
  let ?j = "join_with '','' xs"
  have b: "bracket None d (CHR ''['') (CHR '']'') xs = CHR ''['' # ?j @ [CHR '']'']"
    using False by (simp add: bracket_def new_line_def)
  obtain x xs' where xs: "xs = x # xs'" using False by (cases xs) auto
  then have "x \<noteq> []" "hd x \<noteq> CHR '']''" using assms by (auto simp: list_all2_Cons1 reads_def)
  then have j: "\<not> has_prefix (?j @ s) '']''" for s
    using xs by (cases xs'; cases x) (auto simp: has_prefix_def)
  show ?thesis unfolding reads_def b
  proof (intro conjI allI impI)
    fix n rest assume n: "length (CHR ''['' # ?j @ [CHR '']'']) \<le> n" and "stops rest"
    then obtain m where m: "n = Suc m" "length ?j < m" by (cases n) auto
    then show "read_value n ((CHR ''['' # ?j @ [CHR '']'']) @ rest) = Some (GSlice vs, rest)"
      using reads_elems [OF False assms m(2), of rest] j by simp
  qed simp_all
qed

lemma reads_braces:
  assumes "list_all2 (\<lambda>z kv. fst z = fst kv \<and> valid_utf8 (fst z) \<and> reads (snd z) (snd kv)) zs kvs"
  shows "reads (bracket None d (CHR ''{'') (CHR ''}'') (map (member h None) zs)) (GMap kvs)"
proof (cases "zs = []")
  case True
  then show ?thesis using assms by (intro reads_leaf) (simp_all add: bracket_def has_prefix_def)
next
  case False
  let ?j = "join_with '','' (map (member h None) zs)"
  have b: "bracket None d (CHR ''{'') (CHR ''}'') (map (member h None) zs) = CHR ''{'' # ?j @ [CHR ''}'']"
    using False by (simp add: bracket_def new_line_def)
  have j: "\<not> has_prefix (?j @ s) ''}''" for s
    using False by (cases zs; cases "tl zs") (auto simp: has_prefix_def member_def json_quote_def)
  show ?thesis unfolding reads_def b
  proof (intro conjI allI impI)
    fix n rest assume n: "length (CHR ''{'' # ?j @ [CHR ''}'']) \<le> n" and "stops rest"
    then obtain m where m: "n = Suc m" "length ?j < m" by (cases n) auto
    then show "read_value n ((CHR ''{'' # ?j @ [CHR ''}'']) @ rest) = Some (GMap kvs, rest)"
      using reads_members [OF False assms m(2), of rest] j by simp
  qed simp_all
qed

lemma itoa_head: "\<exists>c cs. itoa n = c # cs \<and> (c = CHR ''-'' \<or> is_digit c)"
proof (cases "n < 0")
  case False
  obtain c cs where "utoa n = c # cs" by (cases "utoa n") auto
  then show ?thesis using utoa_digits [of n] False by (auto simp: itoa_def)
qed (simp add: itoa_def)

lemma reads_int: "reads (itoa n) (GInt n)"
proof -
  obtain c cs where c: "itoa n = c # cs" "c = CHR ''-'' \<or> is_digit c" using itoa_head by blast
  then have "c \<noteq> QUOTE" "c \<noteq> CHR ''[''" "c \<noteq> CHR '']''" "c \<noteq> CHR ''{''" "c \<noteq> CHR ''n''" "c \<noteq> CHR ''t''" "c \<noteq> CHR ''f''"
    by (auto simp: is_digit_def)
  then show ?thesis using c(1) read_itoa [of _ n]
    by (intro reads_leaf) (simp_all add: has_prefix_def stops_def)
qed

lemma reads_string: "valid_utf8 s \<Longrightarrow> reads (json_quote h s) (GString s)"
  by (intro reads_leaf) (simp_all add: json_quote_def read_json_quote)

lemma encode_reads:
  "encode h lay d v = Some x \<Longrightarrow> lay = None \<Longrightarrow> utf8_value v \<Longrightarrow> reads x (json_norm v)"
  "encode_list h lay d vs = Some xs \<Longrightarrow> lay = None \<Longrightarrow> utf8_list vs \<Longrightarrow> list_all2 reads xs (norm_list vs)"
  "encode_fields h lay d kvs = Some zs \<Longrightarrow> lay = None \<Longrightarrow> utf8_fields kvs \<Longrightarrow>
     list_all2 (\<lambda>z kv. fst z = fst kv \<and> valid_utf8 (fst z) \<and> reads (snd z) (snd kv)) zs (norm_fields kvs)"
proof (induction h lay d v and h lay d vs and h lay d kvs arbitrary: x and xs and zs
    rule: encode_encode_list_encode_fields.induct)
  case (1 h lay d)
  then show ?case by (auto intro!: reads_leaf simp: has_prefix_def)
next
  case (2 h lay d b)
  then show ?case by (cases b) (auto intro!: reads_leaf simp: has_prefix_def)
next
  case (3 h lay d n)
  then show ?case by (auto intro: reads_int)
next
  case (4 h lay d s)
  then show ?case by (auto intro: reads_string)
next
  case (5 h lay d vs)
  then show ?case by (auto intro: reads_bracket)
next
  case (6 h lay d kvs)
  then show ?case by (auto intro!: reads_braces list_all2_sort)
next
  case (7 h lay d kvs)
  then show ?case by (auto intro: reads_braces)
next
  case (10 h lay d v vs)
  then show ?case by (fastforce split: option.splits)
next
  case (12 h lay d k v kvs)
  then show ?case by (fastforce split: option.splits)
qed simp_all

lemma read_encoded:
  assumes "encode h None 0 v = Some x" and "utf8_value v"
  shows "json_read x = Some (json_norm v)"
proof -
  have "reads x (json_norm v)" using encode_reads(1) [OF assms(1) refl assms(2)] .
  then have "read_value (length x) (x @ []) = Some (json_norm v, [])"
    unfolding reads_def by (metis order_refl stops_separator(4))
  then show ?thesis by (simp add: json_read_def)
qed

section \<open>Lines\<close>

text \<open>The values \<open>encoding/json\<close> supports: no channel anywhere inside.\<close>

fun plain :: "gvalue \<Rightarrow> bool"
  and plain_list :: "gvalue list \<Rightarrow> bool"
  and plain_fields :: "(string \<times> gvalue) list \<Rightarrow> bool" where
  "plain (GSlice vs) \<longleftrightarrow> plain_list vs"
| "plain (GMap kvs) \<longleftrightarrow> plain_fields kvs"
| "plain (GStruct kvs) \<longleftrightarrow> plain_fields kvs"
| "plain (GChan a) \<longleftrightarrow> False"
| "plain v \<longleftrightarrow> True"
| "plain_list [] \<longleftrightarrow> True"
| "plain_list (v # vs) \<longleftrightarrow> plain v \<and> plain_list vs"
| "plain_fields [] \<longleftrightarrow> True"
| "plain_fields ((k, v) # kvs) \<longleftrightarrow> plain v \<and> plain_fields kvs"

lemma encode_plain:
  "encode h lay d v \<noteq> None \<longleftrightarrow> plain v"
  "encode_list h lay d vs \<noteq> None \<longleftrightarrow> plain_list vs"
  "encode_fields h lay d kvs \<noteq> None \<longleftrightarrow> plain_fields kvs"
  by (induction h lay d v and h lay d vs and h lay d kvs rule: encode_encode_list_encode_fields.induct)
    (auto split: option.splits)

lemma read_encodings:
  "list_all utf8_value items \<Longrightarrow>
   map json_read (encodings h None items) = map (\<lambda>v. Some (json_norm v)) (filter plain items)"
proof (induction items)
  case (Cons v items)
  then show ?case using encode_plain(1) [of h None 0 v] read_encoded [of h v]
    by (cases "encode h None 0 v") simp_all
qed simp

lemma json_lines_read:
  assumes "os_ok w" and "Prefix e = []" and "Indent e = []" and "list_all utf8_value items"
  shows "\<exists>out. JSONLine_Export w old e items =
      (Some (previous old (DefaultString (FileName e) ''out.json'') @ out), None)
    \<and> map json_read (butlast (split_on LF out)) = map (\<lambda>v. Some (json_norm v)) (filter plain items)"
proof -
  have "\<forall>x\<in>set (encodings (EscapeHTML e) None items). LF \<notin> set x" by (rule encodings_no_LF)
  then show ?thesis
    using assms read_encodings [of items "EscapeHTML e"]
    by (simp add: JSONLine_Export_def open_ok json_lines_ok line_layout_def split_lines)
qed

text \<open>C34: A \<open>JSONLine\<close> file without \<open>Prefix\<close> and \<open>Indent\<close> can be read back: its lines, read as JSON one by
  one, are the exported items in order, less those that contain a channel, when their strings are
  valid UTF-8. Maps come back in the order of their keys and structs as maps.\<close>

theorem json_lines_read_back:
  assumes "os_ok w" and "Prefix e = []" and "Indent e = []" and "list_all utf8_value items"
  shows "\<exists>out. JSONLine_Export w old e items =
      (Some (previous old (DefaultString (FileName e) ''out.json'') @ out), None)
    \<and> map json_read (butlast (split_on LF out)) = map (\<lambda>v. Some (json_norm v)) (filter plain items)"
  using json_lines_read [OF assms] .

theorem json_lines_read_back_witness:
  "\<exists>out. JSONLine_Export healthy (\<lambda>name. Some ''old'') lines_config
      [GMap [(''b'', GString [CHR ''<'', LF, QUOTE]), (''a'', GInt (-12))], GChan ''0xc000'', GSlice [GBool True, GNil]]
        = (Some (''old'' @ out), None)
    \<and> map json_read (butlast (split_on LF out)) =
        [Some (GMap [(''a'', GInt (-12)), (''b'', GString [CHR ''<'', LF, QUOTE])]), Some (GSlice [GBool True, GNil])]"
proof -
  have "CHR ''a'' < CHR ''b''" by code_simp
  moreover have "list_all utf8_value
      [GMap [(''b'', GString [CHR ''<'', LF, QUOTE]), (''a'', GInt (-12))], GChan ''0xc000'', GSlice [GBool True, GNil]]"
    by code_simp
  ultimately show ?thesis
    using json_lines_read_back [of healthy lines_config _ "\<lambda>name. Some ''old''"]
    by (fastforce simp: lines_config_def previous_def)
qed

end
