(* ===== verification/Scraping.thy ===== *)
theory Scraping
  imports Fanout_Laws Json_Reading
begin

text \<open>
  The exporters of \<open>export/\<close> at the end of the channels of \<open>startExporters\<close>: what the files
  contain when \<open>Start\<close> returns, and what one file that cannot be written does to the scraper. Each
  exporter writes to a file of its own.
\<close>

datatype exporter_config =
    ToJSONLine json_line_exporter
  | ToJSON string bool
  | ToCSV csv_exporter
  | ToPrettyPrint

text \<open>Whether \<open>Export\<close> has returned an error once it has received the items \<open>xs\<close>.\<close>

definition has_failed :: "os \<Rightarrow> exporter_config \<Rightarrow> gvalue list \<Rightarrow> bool" where
  "has_failed w cfg xs =
     (case cfg of
        ToJSONLine e \<Rightarrow> open_error w (DefaultString (FileName e) ''out.json'') \<noteq> None
      | ToJSON name h \<Rightarrow>
          (case open_append w (\<lambda>n. None) (DefaultString name ''out.json'') of
             Inl err \<Rightarrow> True
           | Inr f \<Rightarrow>
               (case file_write w [CHR ''['', LF] f of
                  (f1, Some e) \<Rightarrow> True
                | (f1, None) \<Rightarrow> snd (json_values w h f1 xs) \<noteq> None))
      | ToCSV e \<Rightarrow> open_error w (DefaultString (FileName' e) ''out.csv'') \<noteq> None
      | ToPrettyPrint \<Rightarrow> False)"

text \<open>The text an exporter adds to its file, or prints, for the items it got.\<close>

definition exported_text :: "os \<Rightarrow> exporter_config \<Rightarrow> gvalue list \<Rightarrow> string option" where
  "exported_text w cfg xs =
     (case cfg of
        ToJSONLine e \<Rightarrow> fst (JSONLine_Export w (\<lambda>n. None) e xs)
      | ToJSON name h \<Rightarrow> fst (JSON_Export w (\<lambda>n. None) name h xs)
      | ToCSV e \<Rightarrow> fst (CSV_Export w (\<lambda>n. None) e xs)
      | ToPrettyPrint \<Rightarrow> Some (PrettyPrint_Export xs))"

definition exporter_fails :: "os \<Rightarrow> exporter_config list \<Rightarrow> nat \<Rightarrow> gvalue list \<Rightarrow> bool" where
  "exporter_fails w cfgs i xs = (i < length cfgs \<and> has_failed w (cfgs ! i) xs)"

lemma healthy_never_fails: "os_ok w \<Longrightarrow> \<not> has_failed w cfg xs"
  using json_values_ok [of w]
  by (cases cfg) (simp_all add: has_failed_def open_ok write_ok, simp_all add: os_ok_def)

lemma exporter_fails_healthy: "os_ok w \<Longrightarrow> \<not> exporter_fails w cfgs i xs"
  by (simp add: exporter_fails_def healthy_never_fails)

text \<open>
  What can be read from the text of an exporter, in terms of the items it got: the values of the lines of a
  compact \<open>JSONLine\<close> file, the records of a CSV file, what is printed.
\<close>

definition reads_back :: "exporter_config \<Rightarrow> string \<Rightarrow> gvalue list \<Rightarrow> bool" where
  "reads_back cfg out xs =
     (case cfg of
        ToJSONLine e \<Rightarrow> map json_read (butlast (split_on LF out)) = map (\<lambda>v. Some (json_norm v)) (filter plain xs)
      | ToJSON name h \<Rightarrow> True
      | ToCSV e \<Rightarrow> csv_read (csv_comma e) out = Some (map csv_values xs)
      | ToPrettyPrint \<Rightarrow> out = PrettyPrint_Export xs)"

text \<open>What the readers need: valid UTF-8 and no layout; a valid delimiter, line feeds, no empty records.\<close>

definition readable :: "exporter_config \<Rightarrow> gvalue list \<Rightarrow> bool" where
  "readable cfg xs =
     (case cfg of
        ToJSONLine e \<Rightarrow> Prefix e = [] \<and> Indent e = [] \<and> list_all utf8_value xs
      | ToJSON name h \<Rightarrow> True
      | ToCSV e \<Rightarrow> validDelim (csv_comma e) \<and> \<not> UseCRLF e \<and> list_all (\<lambda>x. csv_values x \<noteq> []) xs
      | ToPrettyPrint \<Rightarrow> True)"

lemma exported_reads_back:
  assumes "os_ok w" and "readable cfg xs"
  shows "\<exists>out. exported_text w cfg xs = Some out \<and> reads_back cfg out xs"
proof (cases cfg)
  case (ToJSONLine e)
  then show ?thesis using json_lines_read [of w e xs "\<lambda>n. None"] assms
    by (auto simp: exported_text_def reads_back_def readable_def previous_def)
next
  case (ToJSON name h)
  then show ?thesis using json_export_ok [OF assms(1), of "\<lambda>n. None" name h xs]
    by (simp add: exported_text_def reads_back_def)
next
  case (ToCSV e)
  then show ?thesis using csv_read_back [of w e xs "\<lambda>n. None"] assms
    by (auto simp: exported_text_def reads_back_def readable_def previous_def list_all_iff)
qed (simp add: exported_text_def reads_back_def)

lemma readable_mset: "mset xs = mset ys \<Longrightarrow> readable cfg xs = readable cfg ys"
  by (cases cfg) (auto simp: readable_def list_all_iff dest: mset_eq_setD)

text \<open>C31: On a working file system \<open>Start\<close> returns, however the goroutines are scheduled, and then
  there is one list of the exported items, a permutation of what all callbacks exported, such that every
  exporter has exported exactly that list, in that order, and it can be read back from the files: the lines of
  a compact \<open>JSONLine\<close> file are its items, as JSON keeps them, less those that contain a channel, when
  their strings are valid UTF-8; the records of a CSV file are the values of its items, when the delimiter is
  valid and every item has a value.\<close>

theorem everything_is_exported:
  assumes "os_ok w" and "fan_run (exporter_fails w cfgs) as (startExporters (length cfgs) cbs) = Some s"
    and "\<And>a. fan_act (exporter_fails w cfgs) a s = None"
  shows "main s = ScrapingFinished \<and> mset (sent s) = mset (concat cbs)
    \<and> (\<forall>i<length cfgs. got (exporters s ! i) = sent s
        \<and> (readable (cfgs ! i) (concat cbs) \<longrightarrow>
             (\<exists>out. exported_text w (cfgs ! i) (got (exporters s ! i)) = Some out \<and> reads_back (cfgs ! i) out (sent s))))"
proof -
  have r: "reachable (fan_step (exporter_fails w cfgs)) (startExporters (length cfgs) cbs) s"
    by (rule fan_run_init [OF assms(2)])
  have main: "main s = ScrapingFinished"
    using fan_progress [OF r] exporter_fails_healthy [OF assms(1)] assms(3) by fastforce
  have "got (exporters s ! j) = sent s" if "j < length cfgs" for j
    using finished_exporter_complete [OF r main that] exporter_fails_healthy [OF assms(1)] by simp
  moreover have "\<exists>out. exported_text w (cfgs ! i) (sent s) = Some out \<and> reads_back (cfgs ! i) out (sent s)"
    if "readable (cfgs ! i) (concat cbs)" for i
    using exported_reads_back [OF assms(1)] that readable_mset [OF finished_items [OF r main]] by blast
  ultimately show ?thesis using main finished_items [OF r main] by simp
qed

definition two_files :: "exporter_config list" where
  "two_files = [ToJSONLine lines_config, ToCSV semicolons]"

definition two_callbacks :: "gvalue list list" where
  "two_callbacks = [[GSlice [GInt 1], GSlice [GInt 2]], [GSlice [GInt 3]]]"

text \<open>The run of \<open>full_run\<close> with these exporters.\<close>

lemma full_run_files:
  "\<exists>s. fan_run (exporter_fails healthy two_files) full_run (startExporters 2 two_callbacks) = Some s
     \<and> callbacks s = [[], []] \<and> dispatcher s = Stopped \<and> main s = ScrapingFinished
     \<and> map status (exporters s) = [Returned, Returned]
     \<and> sent s = [GSlice [GInt 1], GSlice [GInt 3], GSlice [GInt 2]]"
  by (simp add: full_run_def two_callbacks_def fan_simps exporter_fails_healthy numeral_2_eq_2)

theorem everything_is_exported_witness:
  "\<exists>s out out'. fan_run (exporter_fails healthy two_files) full_run (startExporters 2 two_callbacks) = Some s
     \<and> exported_text healthy (two_files ! 0) (got (exporters s ! 0)) = Some out
     \<and> map json_read (butlast (split_on LF out)) =
         [Some (GSlice [GInt 1]), Some (GSlice [GInt 3]), Some (GSlice [GInt 2])]
     \<and> exported_text healthy (two_files ! 1) (got (exporters s ! 1)) = Some out'
     \<and> csv_read (CHR '';'') out' = Some [[''1''], [''3''], [''2'']]"
proof -
  obtain s where s: "fan_run (exporter_fails healthy two_files) full_run (startExporters 2 two_callbacks) = Some s"
    and e: "callbacks s = [[], []]" "dispatcher s = Stopped" "main s = ScrapingFinished"
      "map status (exporters s) = [Returned, Returned]"
    and sent: "sent s = [GSlice [GInt 1], GSlice [GInt 3], GSlice [GInt 2]]"
    using full_run_files by (elim exE conjE) (rule that)
  have stuck: "fan_act (exporter_fails healthy two_files) a s = None" for a by (rule ended_stuck [OF e])
  have len: "length two_files = 2" by (simp add: two_files_def)
  have r: "readable (two_files ! 0) (concat two_callbacks)" "readable (two_files ! 1) (concat two_callbacks)"
    by code_simp+
  have comma: "csv_comma semicolons = CHR '';''" by code_simp
  have vals: "map csv_values [GSlice [GInt 1], GSlice [GInt 3], GSlice [GInt 2]] = [[''1''], [''3''], [''2'']]"
    by code_simp
  note x = everything_is_exported [OF healthy_ok s [folded len] stuck, unfolded len]
  from x r obtain out out' where out: "exported_text healthy (two_files ! 0) (got (exporters s ! 0)) = Some out"
      "reads_back (two_files ! 0) out (sent s)"
    and out': "exported_text healthy (two_files ! 1) (got (exporters s ! 1)) = Some out'"
      "reads_back (two_files ! 1) out' (sent s)"
    by (metis one_less_numeral_iff semiring_norm(76) zero_less_numeral)
  then show ?thesis using s sent vals by (auto simp: reads_back_def two_files_def comma)
qed

section \<open>A file that cannot be opened\<close>

text \<open>An exporter that fails at once never receives.\<close>

interpretation dead: invariant "fan_step fails" "startExporters n cbs"
  "\<lambda>s. i < n \<and> fails i [] \<longrightarrow>
     i < length (exporters s) \<and> status (exporters s ! i) \<noteq> Ready \<and> got (exporters s ! i) = []"
proof unfold_locales
  fix s s'
  let ?I = "\<lambda>s. i < n \<and> fails i [] \<longrightarrow>
     i < length (exporters s) \<and> status (exporters s ! i) \<noteq> Ready \<and> got (exporters s ! i) = []"
  assume "fan_step fails s s'" and I: "?I s"
  then obtain a where "fan_act fails a s = Some s'" by (auto simp: fan_step_def)
  then show "?I s'"
    using I by (cases rule: actE)
      (auto simp: exporters_set return_exporter_def nth_list_update split: if_splits)
qed (simp add: startExporters_def)

text \<open>C32: If the file of one exporter cannot be opened and there are three items to export, \<open>Start\<close> never
  returns, however the goroutines are scheduled: the exporter's goroutine ends, the dispatcher waits for
  it, and a callback waits for the dispatcher.\<close>

theorem unopenable_file_hangs_start:
  assumes "i < length cfgs" and "has_failed w (cfgs ! i) []" and "3 \<le> length (concat cbs)"
    and "fan_run (exporter_fails w cfgs) as (startExporters (length cfgs) cbs) = Some s"
  shows "main s = WaitRequests"
proof -
  let ?f = "exporter_fails w cfgs"
  have r: "reachable (fan_step ?f) (startExporters (length cfgs) cbs) s"
    by (rule fan_run_init [OF assms(4)])
  have "?f i []" using assms(1,2) by (simp add: exporter_fails_def)
  then have "got (exporters s ! i) = []" using dead.always [OF r, of i] assms(1) by simp
  then have "sent s = in_hand (dispatcher s) i @ buffer s" using sent_split [OF r assms(1)] by simp
  moreover have F: "finishing cbs s" using fan.always [OF r] by simp
  ultimately have "length (sent s) \<le> 2"
    using in_hand_length [of "dispatcher s" i] by (simp add: finishing_def)
  moreover have "mset (sent s) + mset (concat (callbacks s)) = mset (concat cbs)"
    using F by (simp add: finishing_def)
  then have "length (sent s) + length (concat (callbacks s)) = length (concat cbs)"
    by (metis size_mset size_union)
  ultimately have "0 < length (concat (callbacks s))" using assms(3) by linarith
  then have "concat (callbacks s) \<noteq> []" by (rule length_greater_0_conv [THEN iffD1])
  then show ?thesis using finishing_closed(2) [OF F] by blast
qed

definition read_only :: os where
  "read_only = \<lparr>open_error = (\<lambda>name. Some ''permission denied''), write_error = (\<lambda>n. None)\<rparr>"

theorem unopenable_file_hangs_start_witness:
  "\<exists>s. fan_run (exporter_fails read_only two_files) [Produce 0, Dispatch, Exporter 0, Produce 1]
     (startExporters 2 two_callbacks) = Some s \<and> main s = WaitRequests"
proof -
  obtain s where s: "fan_run (exporter_fails read_only two_files) [Produce 0, Dispatch, Exporter 0, Produce 1]
     (startExporters 2 two_callbacks) = Some s"
    by (simp add: fan_simps two_callbacks_def exporter_fails_def has_failed_def two_files_def
        read_only_def open_append_def numeral_2_eq_2)
  have "has_failed read_only (two_files ! 0) []"
    by (simp add: has_failed_def two_files_def read_only_def open_append_def)
  moreover have "length two_files = 2" "3 \<le> length (concat two_callbacks)"
    by (simp_all add: two_files_def two_callbacks_def)
  ultimately have "main s = WaitRequests"
    using unopenable_file_hangs_start [of 0 two_files read_only two_callbacks, OF _ _ _ s [folded \<open>length two_files = 2\<close>]]
    by simp
  with s show ?thesis by blast
qed

end
