(* ===== verification/Map_Order.thy ===== *)
theory Map_Order
  imports Exporters_Laws
begin

text \<open>
  Go maps have no order, and an item may hold maps inside slices, structs and other maps: whatever order
  the iteration over each of them takes, the exporters write the same.
\<close>

section \<open>Equal up to the order of maps\<close>

text \<open>Two lists of entries for the same Go value when each map may be listed in any order.\<close>

inductive same_value :: "gvalue \<Rightarrow> gvalue \<Rightarrow> bool" where
  same_refl: "same_value v v"
| same_slice: "list_all2 same_value vs ws \<Longrightarrow> same_value (GSlice vs) (GSlice ws)"
| same_struct: "list_all2 (\<lambda>x y. fst x = fst y \<and> same_value (snd x) (snd y)) kvs kws \<Longrightarrow>
    same_value (GStruct kvs) (GStruct kws)"
| same_map: "list_all2 (\<lambda>x y. fst x = fst y \<and> same_value (snd x) (snd y)) kvs kws \<Longrightarrow>
    distinct (map fst kvs) \<Longrightarrow> mset kws = mset kws' \<Longrightarrow> same_value (GMap kvs) (GMap kws')"

lemma same_entries_keys:
  "list_all2 (\<lambda>x y. fst x = fst y \<and> P (snd x) (snd y)) kvs kws \<Longrightarrow> map fst kvs = map fst kws"
  by (induction rule: list_all2_induct) simp_all

lemma encode_list_same:
  "list_all2 (\<lambda>v w. encode h lay d v = encode h lay d w) vs ws \<Longrightarrow>
   encode_list h lay d vs = encode_list h lay d ws"
  by (induction rule: list_all2_induct) (simp_all split: option.split)

lemma encode_fields_same:
  "list_all2 (\<lambda>x y. fst x = fst y \<and> encode h lay d (snd x) = encode h lay d (snd y)) kvs kws \<Longrightarrow>
   encode_fields h lay d kvs = encode_fields h lay d kws"
proof (induction rule: list_all2_induct)
  case (Cons x kvs y kws)
  then show ?case by (cases x; cases y) (simp split: option.split)
qed simp

lemma sprint_list_same:
  "list_all2 (\<lambda>v w. sprint v = sprint w) vs ws \<Longrightarrow> sprint_list vs = sprint_list ws"
  by (induction rule: list_all2_induct) simp_all

lemma sprint_fields_same:
  "list_all2 (\<lambda>x y. fst x = fst y \<and> sprint (snd x) = sprint (snd y)) kvs kws \<Longrightarrow>
   sprint_fields kvs = sprint_fields kws"
  by (induction rule: list_all2_induct) auto

lemma same_encode: "same_value v w \<Longrightarrow> (\<forall>h lay d. encode h lay d v = encode h lay d w) \<and> sprint v = sprint w"
proof (induction rule: same_value.induct)
  case (same_slice vs ws)
  have "encode_list h lay d vs = encode_list h lay d ws" for h lay d
    by (rule encode_list_same, rule list_all2_mono [OF same_slice]) blast
  moreover have "sprint_list vs = sprint_list ws"
    by (rule sprint_list_same, rule list_all2_mono [OF same_slice]) blast
  ultimately show ?case by simp
next
  case (same_struct kvs kws)
  have "encode_fields h lay d kvs = encode_fields h lay d kws" for h lay d
    by (rule encode_fields_same, rule list_all2_mono [OF same_struct]) blast
  moreover have "sprint_fields kvs = sprint_fields kws"
    by (rule sprint_fields_same, rule list_all2_mono [OF same_struct]) blast
  ultimately show ?case by simp
next
  case (same_map kvs kws kws')
  have "encode_fields h lay d kvs = encode_fields h lay d kws" for h lay d
    by (rule encode_fields_same, rule list_all2_mono [OF same_map(1)]) blast
  moreover have "sprint_fields kvs = sprint_fields kws"
    by (rule sprint_fields_same, rule list_all2_mono [OF same_map(1)]) blast
  moreover have "distinct (map fst kws)"
    using same_map(2) same_entries_keys [OF same_map(1)] by simp
  note perm = map_order_irrelevant [OF same_map(3) this]
  moreover have "encode h lay d (GMap kws) = encode h lay d (GMap kws')" "sprint (GMap kws) = sprint (GMap kws')"
    for h lay d using perm by blast+
  ultimately show ?case by simp
qed simp

lemma same_csv: "same_value v w \<Longrightarrow> csv_values v = csv_values w"
proof (induction rule: same_value.cases)
  case (same_slice vs ws)
  then have "list_all2 (\<lambda>v w. sprint v = sprint w) vs ws"
    by (auto elim!: list_all2_mono dest: same_encode)
  then have "map sprint vs = map sprint ws" by (induction rule: list_all2_induct) simp_all
  then show ?case using same_slice by (simp add: csv_values_def)
next
  case (same_map kvs kws kws')
  have "list_all2 (\<lambda>x y. sprint (snd x) = sprint (snd y)) kvs kws"
    using same_map(3) by (rule list_all2_mono) (auto dest: same_encode)
  then have "map (\<lambda>x. sprint (snd x)) kvs = map (\<lambda>x. sprint (snd x)) kws"
    by (induction rule: list_all2_induct) simp_all
  moreover have "sort (map (\<lambda>x. sprint (snd x)) kws) = sort (map (\<lambda>x. sprint (snd x)) kws')"
    using same_map(5) by (auto intro!: properties_for_sort)
  ultimately show ?case using same_map by (simp add: csv_values_def)
qed (simp_all add: csv_values_def)

section \<open>The exporters\<close>

lemma same_json_lines: "list_all2 same_value vs ws \<Longrightarrow> json_lines w h lay b f vs = json_lines w h lay b f ws"
  by (induction arbitrary: b f rule: list_all2_induct) (auto dest!: same_encode split: option.splits)

lemma same_json_values: "list_all2 same_value vs ws \<Longrightarrow> json_values w h f vs = json_values w h f ws"
proof (induction arbitrary: f rule: list_all2_induct)
  case (Cons v vs v' vs')
  then have "jsonMarshalLine v h = jsonMarshalLine v' h" by (simp add: marshal_line same_encode)
  then show ?case using Cons.IH by (simp split: option.split prod.split)
qed simp

lemma same_concat_map: "list_all2 same_value vs ws \<Longrightarrow> (\<And>v w. same_value v w \<Longrightarrow> g v = g w) \<Longrightarrow>
  concat (map g vs) = concat (map g ws)"
  by (induction rule: list_all2_induct) auto

text \<open>C36: The exported files do not depend on the order in which Go iterates over maps: if two lists of
  items agree up to the order of the entries of maps, at any depth, then every exporter writes the
  same bytes for both and returns the same error, whatever the file system does.\<close>

theorem exports_ignore_map_order:
  assumes "list_all2 same_value items items'"
  shows "JSONLine_Export w old lines_cfg items = JSONLine_Export w old lines_cfg items'
    \<and> JSON_Export w old name h items = JSON_Export w old name h items'
    \<and> CSV_Export w old csv_cfg items = CSV_Export w old csv_cfg items'
    \<and> PrettyPrint_Export items = PrettyPrint_Export items'"
proof -
  have "concat (map (\<lambda>res. case csv_write c crlf (csv_values res) of None \<Rightarrow> [] | Some line \<Rightarrow> line) items) =
      concat (map (\<lambda>res. case csv_write c crlf (csv_values res) of None \<Rightarrow> [] | Some line \<Rightarrow> line) items')" for c crlf
    by (rule same_concat_map [OF assms]) (simp add: same_csv)
  moreover have "PrettyPrint_Export items = PrettyPrint_Export items'"
    unfolding PrettyPrint_Export_def by (rule same_concat_map [OF assms]) (simp add: same_encode)
  ultimately show ?thesis
    by (simp add: JSONLine_Export_def JSON_Export_def CSV_Export_def Let_def
        same_json_lines [OF assms] same_json_values [OF assms] cong: sum.case_cong prod.case_cong option.case_cong)
qed

theorem exports_ignore_map_order_witness:
  "CSV_Export healthy (\<lambda>n. None) \<lparr>FileName' = [], Comma = CHR 0x00, UseCRLF = False\<rparr>
     [GMap [(''a'', GString ''2''), (''b'', GMap [(''x'', GNil), (''y'', GInt 1)])]] =
   CSV_Export healthy (\<lambda>n. None) \<lparr>FileName' = [], Comma = CHR 0x00, UseCRLF = False\<rparr>
     [GMap [(''b'', GMap [(''y'', GInt 1), (''x'', GNil)]), (''a'', GString ''2'')]]"
proof -
  let ?m = "GMap [(''x'', GNil), (''y'', GInt 1)]" and ?m' = "GMap [(''y'', GInt 1), (''x'', GNil)]"
  have "same_value ?m ?m'"
    by (rule same_map [where kws = "[(''x'', GNil), (''y'', GInt 1)]"]) (simp_all add: same_refl)
  then have "same_value (GMap [(''a'', GString ''2''), (''b'', ?m)]) (GMap [(''b'', ?m'), (''a'', GString ''2'')])"
    by (intro same_map [where kws = "[(''a'', GString ''2''), (''b'', ?m')]"]) (simp_all add: same_refl)
  then show ?thesis using exports_ignore_map_order by simp
qed

end
