(* ===== verification/Cached_Reading.thy ===== *)
theory Cached_Reading
  imports Transport_Laws Client
begin

text \<open>
  The client reads bodies through \<open>io.LimitReader\<close> (\<open>MaxBodySize\<close>), and under the RFC 2616 policy the
  cache stores a page only when its body is read to EOF. This theory runs the reads of both on one body:
  \<open>io.ReadAll\<close> over \<open>io.LimitReader\<close> over \<open>cachingReadCloser\<close> over a body that gives at most as many
  bytes as it is asked for.
\<close>

section \<open>The readers\<close>

text \<open>
  A body of which \<open>rest\<close> is left, and which then ends with \<open>fin\<close>. Go allows a reader to report EOF
  with the last bytes or with a further read; \<open>eager\<close> says which one this body does.
\<close>

definition source_Read :: "bool \<Rightarrow> read_end \<Rightarrow> nat \<Rightarrow> string \<Rightarrow> (string \<times> read_end option) \<times> string" where
  "source_Read eager fin m rest =
     (if rest = [] then (([], Some fin), [])
      else ((take m rest, if eager \<and> fin = EOF \<and> length rest \<le> m then Some EOF else None), drop m rest))"

record body_reader =
  rest :: string
  seen :: string
  left :: int

text \<open>\<open>LimitedReader.Read\<close> with a buffer of \<open>m\<close> bytes; \<open>left\<close> is its \<open>N\<close>, \<open>seen\<close> the buffer of the
  \<open>cachingReadCloser\<close> below.\<close>

definition limited_Read ::
  "'s cache_impl \<Rightarrow> string \<times> http_response \<Rightarrow> bool \<Rightarrow> read_end \<Rightarrow> nat \<Rightarrow> body_reader \<Rightarrow> 's \<Rightarrow>
   (string \<times> read_end option) \<times> body_reader \<times> 's" where
  "limited_Read c p eager fin m r s =
     (if left r \<le> 0 then (([], Some EOF), r, s)
      else
        (let (result, rest') = source_Read eager fin (min m (nat (left r))) (rest r);
             (out, cr, s') = caching_Read c p \<lparr>R = [result], buf = seen r\<rparr> s
         in (out, \<lparr>rest = rest', seen = buf cr, left = left r - int (length (fst out))\<rparr>, s')))"

lemma limited_Read_cases:
  "limited_Read c p eager fin m r s =
     (if left r \<le> 0 then (([], Some EOF), r, s)
      else if rest r = [] then (([], Some fin), r, if fin = EOF then onEOF c p (seen r) s else s)
      else
        (let k = min m (nat (left r));
             eof = (eager \<and> fin = EOF \<and> length (rest r) \<le> k)
         in ((take k (rest r), if eof then Some EOF else None),
             \<lparr>rest = drop k (rest r), seen = seen r @ take k (rest r),
               left = left r - int (length (take k (rest r)))\<rparr>,
             if eof then onEOF c p (seen r @ take k (rest r)) s else s)))"
  by (simp add: limited_Read_def source_Read_def caching_Read_def Let_def)

text \<open>\<open>io.ReadAll\<close>, with buffers of any positive sizes: the bytes, how the reading ended, the cache.\<close>

function read_all ::
  "(nat \<Rightarrow> nat) \<Rightarrow> 's cache_impl \<Rightarrow> string \<times> http_response \<Rightarrow> bool \<Rightarrow> read_end \<Rightarrow> body_reader \<Rightarrow> 's \<Rightarrow>
   string \<times> read_end \<times> 's" where
  "read_all bufs c p eager fin r s =
     (case limited_Read c p eager fin (Suc (bufs (length (seen r)))) r s of
        ((bytes, Some e), r', s') \<Rightarrow> (bytes, e, s')
      | ((bytes, None), r', s') \<Rightarrow>
          (case read_all bufs c p eager fin r' s' of (bytes', e, s'') \<Rightarrow> (bytes @ bytes', e, s'')))"
  by pat_completeness auto
termination
  by (relation "measure (\<lambda>(bufs, c, p, eager, fin, r, s). length (rest r))")
    (auto simp: limited_Read_cases Let_def split: if_splits)

declare read_all.simps [simp del]

text \<open>Whether the reads of a body through a limit see its EOF.\<close>

definition sees_EOF :: "bool \<Rightarrow> read_end \<Rightarrow> string \<Rightarrow> int \<Rightarrow> bool" where
  "sees_EOF eager fin body limit \<longleftrightarrow> fin = EOF \<and> 0 < limit
     \<and> (int (length body) < limit \<or> eager \<and> int (length body) = limit)"

lemma take_rest:
  assumes "k \<le> nat n"
  shows "take k xs @ take (nat (n - int (length (take k xs)))) (drop k xs) = take (nat n) xs"
proof (cases "k \<le> length xs")
  case True
  moreover have "nat (n - int k) = nat n - k" by (simp add: nat_diff_distrib)
  ultimately show ?thesis using take_add [of k "nat n - k" xs] assms by (simp add: min_def)
qed (use assms in simp)

lemma read_all_result:
  "read_all bufs c p eager fin r s =
     (take (nat (left r)) (rest r),
      if fin = ReadError \<and> int (length (rest r)) < left r then ReadError else EOF,
      if sees_EOF eager fin (rest r) (left r) then onEOF c p (seen r @ rest r) s else s)"
proof (induction bufs c p eager fin r s rule: read_all.induct)
  case (1 bufs c p eager fin r s)
  let ?k = "min (Suc (bufs (length (seen r)))) (nat (left r))"
  consider "left r \<le> 0" | "0 < left r" "rest r = []" | "0 < left r" "rest r \<noteq> []" by linarith
  then show ?case
  proof cases
    case 1
    then show ?thesis by (subst read_all.simps) (simp add: limited_Read_cases sees_EOF_def)
  next
    case 2
    then show ?thesis
      by (cases fin) (subst read_all.simps, simp add: limited_Read_cases sees_EOF_def)+
  next
    case 3
    show ?thesis
    proof (cases "eager \<and> fin = EOF \<and> length (rest r) \<le> ?k")
      case True
      then show ?thesis using 3
        by (subst read_all.simps) (auto simp: limited_Read_cases sees_EOF_def Let_def)
    next
      case False
      let ?r = "\<lparr>rest = drop ?k (rest r), seen = seen r @ take ?k (rest r),
          left = left r - int (length (take ?k (rest r)))\<rparr>"
      have step: "limited_Read c p eager fin (Suc (bufs (length (seen r)))) r s = ((take ?k (rest r), None), ?r, s)"
        using 3 False by (auto simp: limited_Read_cases Let_def)
      note IH = 1 [OF step [symmetric] refl refl refl]
      have out: "take ?k (rest r) @ take (nat (left ?r)) (rest ?r) = take (nat (left r)) (rest r)"
        using take_rest [of ?k "left r" "rest r"] by simp
      have "sees_EOF eager fin (rest ?r) (left ?r) = sees_EOF eager fin (rest r) (left r)"
        using 3 False by (auto simp: sees_EOF_def)
      then show ?thesis using 3 IH step out
        by (subst read_all.simps) auto
    qed
  qed
qed

text \<open>The pure readers of \<open>doRequestClient\<close> agree with these reads.\<close>

lemma read_all_LimitReader:
  "ReadAll (LimitReader (body, fin = ReadError) limit) =
     (case read_all bufs c p eager fin \<lparr>rest = body, seen = [], left = limit\<rparr> s of
        (out, e, s') \<Rightarrow> if e = EOF then Some out else None)"
  by (simp add: read_all_result ReadAll_def LimitReader_def)

text \<open>C11: Reading the body of a cacheable page through \<open>MaxBodySize\<close> gives its first \<open>MaxBodySize\<close> bytes, in
  whatever pieces they arrive, and stores the page exactly when the end of the body was seen: when
  the body is shorter than the limit, or as long and its reader reports EOF with the last bytes.
  Then the whole page is stored; else no entry of the cache changes.\<close>

theorem limited_read_stores_iff_EOF:
  assumes "caching c slot"
    and "DumpResponse ''GET'' (resp\<lparr>Body := body, BodyErr := False\<rparr>) = Some stored"
  shows "case read_all bufs c (key, resp) eager fin \<lparr>rest = body, seen = [], left = limit\<rparr> s of
    (out, e, s') \<Rightarrow>
      out = take (nat limit) body
      \<and> e = (if fin = ReadError \<and> int (length body) < limit then ReadError else EOF)
      \<and> (\<forall>k. Get c s' k =
            (if sees_EOF eager fin body limit \<and> slot k = slot key then (stored, True) else Get c s k))"
  using caching.onEOF_get [OF assms(1)] assms(2) by (simp add: read_all_result)

theorem limited_read_stores_iff_EOF_witness:
  "\<exists>s' stored. read_all (\<lambda>n. 0) memory_impl (''k'', example_page) False EOF
      \<lparr>rest = ''hi'', seen = [], left = 3\<rparr> memory_New = (''hi'', EOF, s') \<and> memory_Get s' ''k'' = (stored, True)
    \<and> (\<exists>s''. read_all (\<lambda>n. 0) memory_impl (''k'', example_page) False EOF
      \<lparr>rest = ''hi'', seen = [], left = 2\<rparr> memory_New = (''hi'', EOF, s'') \<and> \<not> snd (memory_Get s'' ''k''))"
proof -
  have "example_page\<lparr>Body := ''hi'', BodyErr := False\<rparr> = example_page"
    by (simp add: example_page_def mk_response_def)
  moreover obtain b where "DumpResponse ''GET'' example_page = Some b"
    using example_page_facts(5) by blast
  ultimately have *: "DumpResponse ''GET'' (example_page\<lparr>Body := ''hi'', BodyErr := False\<rparr>) = Some b" by simp
  have "\<not> snd (memory_Get memory_New ''k'')" by (simp add: memory_New_def memory_Get_def)
  then show ?thesis
    using limited_read_stores_iff_EOF [OF mc.caching_axioms *, where bufs = "\<lambda>n. 0" and key = "''k''" and eager = False
        and fin = EOF and limit = 3 and s = memory_New]
      limited_read_stores_iff_EOF [OF mc.caching_axioms *, where bufs = "\<lambda>n. 0" and key = "''k''" and eager = False
        and fin = EOF and limit = 2 and s = memory_New]
    by (auto simp: sees_EOF_def split: prod.splits)
qed

section \<open>Fetching a page through the cache\<close>

text \<open>
  A request as \<open>doRequestClient\<close> makes it when nothing redirects it and its body is not decoded:
  \<open>RoundTrip\<close>, then reading the body up to \<open>limit\<close>. The result is the body, if there was no error.
\<close>

definition fetch_page ::
  "timer \<Rightarrow> transport \<Rightarrow> 's cache_impl \<Rightarrow> ('e, 'w) round_tripper \<Rightarrow> (nat \<Rightarrow> nat) \<Rightarrow> bool \<Rightarrow> int \<Rightarrow>
   http_request \<Rightarrow> 's \<times> 'w \<Rightarrow> string option \<times> 's \<times> 'w" where
  "fetch_page clk t c rt bufs eager limit req sw =
     (case RoundTrip clk t c rt req (fst sw) (snd sw) of
        (Inl err, s, w) \<Rightarrow> (None, s, w)
      | (Inr (resp, None), s, w) \<Rightarrow> (ReadAll (LimitReader (Body resp, BodyErr resp) limit), s, w)
      | (Inr (resp, Some p), s, w) \<Rightarrow>
          (case read_all bufs c p eager (if BodyErr resp then ReadError else EOF)
             \<lparr>rest = Body resp, seen = [], left = limit\<rparr> s of
             (out, e, s') \<Rightarrow> (if e = EOF then Some out else None, s', w)))"

fun fetch_pages ::
  "nat \<Rightarrow> timer \<Rightarrow> transport \<Rightarrow> 's cache_impl \<Rightarrow> ('e, 'w) round_tripper \<Rightarrow> (nat \<Rightarrow> nat) \<Rightarrow> bool \<Rightarrow> int \<Rightarrow>
   http_request \<Rightarrow> 's \<times> 'w \<Rightarrow> string option list \<times> 's \<times> 'w" where
  "fetch_pages 0 clk t c rt bufs eager limit req sw = ([], sw)"
| "fetch_pages (Suc n) clk t c rt bufs eager limit req sw =
     (let (page, sw') = fetch_page clk t c rt bufs eager limit req sw;
          (pages, sw'') = fetch_pages n clk t c rt bufs eager limit req sw'
      in (page # pages, sw''))"

context caching
begin

lemma large_page_not_stored:
  assumes "Policy t = RFC2616" and "cacheable req" and "Method req = ''GET''"
    and "\<not> has_directive (parseCacheControl (ReqHeader req)) ''only-if-cached''"
    and "\<forall>r. lookup_cached c s req \<noteq> Cached r"
    and "answer req = Inr resp" and "\<not> BodyErr resp" and "limit < int (length (Body resp))"
  shows "\<exists>s'. fetch_page clk t c (logged answer) bufs eager limit req (s, log) =
      (Some (take (nat limit) (Body resp)), s', log @ [req]) \<and> (\<forall>r. lookup_cached c s' req \<noteq> Cached r)"
proof (cases "canStore (parseCacheControl (ReqHeader req)) (parseCacheControl (Header resp))")
  case True
  then have "RoundTrip clk t c (logged answer) req s log =
      (Inr (record_vary req resp, Some (cacheKey req, record_vary req resp)), s, log @ [req])"
    using RFC_miss [OF assms(5,4), of clk t "logged answer" log] assms(1,2,3,6)
    by (simp add: RoundTrip_def finish_def logged_def Let_def)
  then show ?thesis using assms(5,7,8)
    by (simp add: fetch_page_def read_all_result sees_EOF_def)
next
  case False
  let ?s = "Delete c s (cacheKey req)"
  have "RoundTrip clk t c (logged answer) req s log = (Inr (resp, None), ?s, log @ [req])"
    using RFC_miss [OF assms(5,4), of clk t "logged answer" log] assms(1,2,6) False
    by (simp add: RoundTrip_def finish_refused logged_def Let_def)
  moreover have "lookup_cached c ?s req \<noteq> Cached r" for r
    using get_del_same [of "cacheKey req" "cacheKey req" s]
    by (auto simp: lookup_cached_def CachedResponse_def Let_def split: prod.splits)
  ultimately show ?thesis using assms(7)
    by (simp add: fetch_page_def ReadAll_def LimitReader_def)
qed

end

text \<open>C14: Under the RFC 2616 policy a page longer than \<open>MaxBodySize\<close> is never served from the cache, whatever
  its headers allow: every one of \<open>n\<close> requests goes to the network, and each returns the first
  \<open>MaxBodySize\<close> bytes.\<close>

theorem large_page_always_refetched:
  assumes "caching c slot" and "Policy t = RFC2616" and "cacheable req" and "Method req = ''GET''"
    and "\<not> has_directive (parseCacheControl (ReqHeader req)) ''only-if-cached''"
    and "\<forall>r. lookup_cached c s req \<noteq> Cached r"
    and "answer req = Inr resp" and "\<not> BodyErr resp" and "limit < int (length (Body resp))"
  shows "\<exists>s'. fetch_pages n clk t c (logged answer) bufs eager limit req (s, log) =
    (replicate n (Some (take (nat limit) (Body resp))), s', log @ replicate n req)"
  using assms(6)
proof (induction n arbitrary: s log)
  case (Suc n)
  obtain s1 where "fetch_page clk t c (logged answer) bufs eager limit req (s, log) =
      (Some (take (nat limit) (Body resp)), s1, log @ [req])" and "\<forall>r. lookup_cached c s1 req \<noteq> Cached r"
    using caching.large_page_not_stored [where answer = answer and s = s and limit = limit] assms(1-5,7-9) Suc.prems
    by metis
  with Suc.IH [of s1 "log @ [req]"] show ?case by auto
qed simp

theorem large_page_always_refetched_witness:
  "\<exists>s'. fetch_pages 3 (fakeClock 0) NewTransport memory_impl
      (logged (\<lambda>q. Inr example_page :: string + http_response)) (\<lambda>n. 511) True 1 example_get (memory_New, []) =
    ([Some ''h'', Some ''h'', Some ''h''], s', [example_get, example_get, example_get])"
  using large_page_always_refetched [OF mc.caching_axioms, of NewTransport example_get memory_New
      "\<lambda>q. Inr example_page :: string + http_response" example_page 1 3 "fakeClock 0" "\<lambda>n. 511" True "[]"]
    example_page_facts by (simp add: NewTransport_def numeral_3_eq_3)

end
