(* ===== verification/Crawl.thy ===== *)
theory Crawl
  imports Engine
begin

text \<open>
  A whole crawl: \<open>Start\<close> issues a GET for every start URL, and the callback issues one for every link
  of a page, as the callbacks of the repository's examples do. A request is first waiting (its
  goroutine has been started but has not run yet), then, if the middlewares let it pass, in flight,
  and then handled by the client, the response middlewares and the callback. Goroutines take these
  two steps in any order. \<open>acquireSem\<close> and \<open>releaseSem\<close> are left out here: with them there are fewer runs,
  and a run may get stuck, see Limited_Crawl.
\<close>

section \<open>State\<close>

text \<open>
  The part of the world the network acts on, the requests waiting and in flight, and the URLs of the
  pages the callback was called for, in order. The maps of the middlewares and the trace are those
  of \<open>mw_state\<close>.
\<close>

record ('n, 'act) crawl_world =
  net :: 'n
  waiting :: "'act request list"
  flying :: "'act request list"
  parsed :: "string list"

definition drop_nth :: "nat \<Rightarrow> 'a list \<Rightarrow> 'a list" where
  "drop_nth i xs = take i xs @ drop (Suc i) xs"

text \<open>\<open>Get\<close>: a goroutine for the request, or a log line for a URL that is not valid.\<close>

definition spawn_Get ::
  "(string \<Rightarrow> string \<Rightarrow> string \<Rightarrow> 'e + http_request) \<Rightarrow> ('cache, 'proxy, 'act, 'm, 'x) geziyor \<Rightarrow>
   string \<Rightarrow> ('rd, ('n, 'act) crawl_world) mw_state \<Rightarrow> ('rd, ('n, 'act) crawl_world) mw_state" where
  "spawn_Get http_New g u s =
     (case geziyor_Get http_New g u of
        Inl err \<Rightarrow> emit (Log ''Request creating error'') s
      | Inr (Spawn req) \<Rightarrow> s\<lparr>world := (world s)\<lparr>waiting := waiting (world s) @ [req]\<rparr>\<rparr>
      | Inr _ \<Rightarrow> s)"

text \<open>The callback: it follows the links of a page, which are found by the user's code.\<close>

definition parse_page ::
  "(string \<Rightarrow> string \<Rightarrow> string list) \<Rightarrow> (string \<Rightarrow> string \<Rightarrow> string \<Rightarrow> 'e + http_request) \<Rightarrow>
   ('cache, 'proxy, 'act, 'm, 'x) geziyor \<Rightarrow> ('act, 'doc) response \<Rightarrow>
   ('rd, ('n, 'act) crawl_world) mw_state \<Rightarrow> bool \<times> ('rd, ('n, 'act) crawl_world) mw_state" where
  "parse_page links http_New g resp s =
     (let u = URLString (URL (HTTP (Req resp)));
          s1 = s\<lparr>world := (world s)\<lparr>parsed := parsed (world s) @ [u]\<rparr>\<rparr>
      in (False, fold (spawn_Get http_New g) (links u (RBody resp)) s1))"

section \<open>Steps\<close>

datatype crawl_action = Begin nat | Complete nat

text \<open>The result says whether the step ends the program, which a panic does when it cannot be counted.\<close>

definition crawl_step ::
  "('e, ('n, 'act) crawl_world, 'act, 'proxy, 'rd, 'doc, 'm) env \<Rightarrow>
   ('cache, 'proxy, 'act, 'm, 'x) geziyor \<Rightarrow> (string \<Rightarrow> string \<Rightarrow> string list) \<Rightarrow> crawl_action \<Rightarrow>
   ('rd, ('n, 'act) crawl_world) mw_state \<Rightarrow> (bool \<times> ('rd, ('n, 'act) crawl_world) mw_state) option" where
  "crawl_step env g links a s =
     (case a of
        Begin i \<Rightarrow>
          if i < length (waiting (world s)) then
            (let s1 = s\<lparr>world := (world s)\<lparr>waiting := drop_nth i (waiting (world s))\<rparr>\<rparr>
             in case run_req env (snd (base (Client' g))) (reqMiddlewares g) (waiting (world s) ! i) s1 of
                  (Passed, r, s2) \<Rightarrow>
                    Some (False, s2\<lparr>world := (world s2)\<lparr>flying := flying (world s2) @ [r]\<rparr>\<rparr>)
                | (WasCancelled, r, s2) \<Rightarrow> Some (recoverMe g (Stopped :: 'e do_end, s2))
                | (ChainPanic, r, s2) \<Rightarrow> Some (recoverMe g (DoPanic :: 'e do_end, s2)))
          else None
      | Complete i \<Rightarrow>
          if i < length (flying (world s)) then
            (let s1 = s\<lparr>world := (world s)\<lparr>flying := drop_nth i (flying (world s))\<rparr>\<rparr>
             in Some (recoverMe g
                  (do_client env g (Some (parse_page links (newRequest env) g)) (flying (world s) ! i) s1)))
          else None)"

text \<open>A run that takes the given steps without the program ending.\<close>

fun crawl_run ::
  "('e, ('n, 'act) crawl_world, 'act, 'proxy, 'rd, 'doc, 'm) env \<Rightarrow>
   ('cache, 'proxy, 'act, 'm, 'x) geziyor \<Rightarrow> (string \<Rightarrow> string \<Rightarrow> string list) \<Rightarrow> crawl_action list \<Rightarrow>
   ('rd, ('n, 'act) crawl_world) mw_state \<Rightarrow> ('rd, ('n, 'act) crawl_world) mw_state option" where
  "crawl_run env g links [] s = Some s"
| "crawl_run env g links (a # as) s =
     (case crawl_step env g links a s of
        Some (False, s') \<Rightarrow> crawl_run env g links as s' | _ \<Rightarrow> None)"

text \<open>\<open>Start\<close> with start URLs, before the first goroutine runs.\<close>

definition crawl_start ::
  "(string \<Rightarrow> string \<Rightarrow> string \<Rightarrow> 'e + http_request) \<Rightarrow> ('cache, 'proxy, 'act, 'm, 'x) geziyor \<Rightarrow> 'n \<Rightarrow>
   ('rd, ('n, 'act) crawl_world) mw_state" where
  "crawl_start http_New g w =
     fold (spawn_Get http_New g) (StartURLs (Opt g))
       (mw_init \<lparr>net = w, waiting = [], flying = [], parsed = []\<rparr>)"

section \<open>Reference: the pages of a site that can be reached\<close>

definition host_allowed :: "('cache, 'proxy, 'act, 'm, 'x) options \<Rightarrow> string \<Rightarrow> bool" where
  "host_allowed opt h \<longleftrightarrow> AllowedDomains opt = [] \<or> h \<in> set (AllowedDomains opt)"

text \<open>What a list of links leads to: the URLs, as requests spell them, on hosts that are allowed.\<close>

definition targets ::
  "(string \<Rightarrow> string \<Rightarrow> string \<Rightarrow> 'e + http_request) \<Rightarrow> ('cache, 'proxy, 'act, 'm, 'x) options \<Rightarrow>
   string list \<Rightarrow> string set" where
  "targets http_New opt us =
     {URLString (URL q) | u q. u \<in> set us \<and> http_New ''GET'' u [] = Inr q \<and> host_allowed opt (RHost q)}"

text \<open>\<open>page k\<close> is the body the client returns for the URL \<open>k\<close>, if it does not fail.\<close>

inductive_set reachable_urls ::
  "(string \<Rightarrow> string \<Rightarrow> string \<Rightarrow> 'e + http_request) \<Rightarrow> ('cache, 'proxy, 'act, 'm, 'x) options \<Rightarrow>
   (string \<Rightarrow> string option) \<Rightarrow> (string \<Rightarrow> string \<Rightarrow> string list) \<Rightarrow> string set"
  for http_New opt page links where
  start: "k \<in> targets http_New opt (StartURLs opt) \<Longrightarrow> k \<in> reachable_urls http_New opt page links"
| link: "k \<in> reachable_urls http_New opt page links \<Longrightarrow> page k = Some body \<Longrightarrow>
    k' \<in> targets http_New opt (links k body) \<Longrightarrow> k' \<in> reachable_urls http_New opt page links"

text \<open>
  A GET without the headers that matter to the cache and to the decoding of its response, and two responses
  that the client reads the same page from.
\<close>

definition plain_get :: "http_request \<Rightarrow> bool" where
  "plain_get q \<longleftrightarrow> Method q = ''GET'' \<and> cacheable q \<and> header_get (ReqHeader q) ''Content-Type'' = []"

definition same_page :: "http_response \<Rightarrow> http_response \<Rightarrow> bool" where
  "same_page r r' \<longleftrightarrow> StatusCode r' = StatusCode r \<and> Body r' = Body r \<and> BodyErr r' = BodyErr r
     \<and> (0 < ContentLength r' \<longleftrightarrow> 0 < ContentLength r)"

text \<open>
  What a crawl needs of the network, with the client's transport: while its state is \<open>good\<close>, which it stays,
  what it answers to a GET of a URL among \<open>urls\<close> depends on the URL only; it is an error or the page the
  \<open>site\<close> has there. It leaves the rest of the world alone, and the caller's request but for its body and
  cookies. \<open>fetched\<close> are the URLs it has been asked for.
\<close>

locale steady_net =
  fixes outside :: "('e, ('n, 'act) crawl_world, 'act) external"
    and site :: "string \<Rightarrow> http_response option"
    and urls :: "string set"
    and good :: "'n \<Rightarrow> bool"
    and fetched :: "'n \<Rightarrow> string set"
  assumes fetch: "plain_get q \<Longrightarrow> URLString (URL q) \<in> urls \<Longrightarrow> good (net w) \<Longrightarrow>
    \<exists>result q' n'. http_do outside q w = (result, q', w\<lparr>net := n'\<rparr>) \<and> good n'
      \<and> insert (URLString (URL q)) (fetched (net w)) \<subseteq> fetched n' \<and> plain_get q' \<and> URL q' = URL q
      \<and> (case site (URLString (URL q)) of
           None \<Rightarrow> \<exists>err. result = Inl err
         | Some page \<Rightarrow> \<exists>resp answered. result = Inr (resp, answered) \<and> same_page page resp \<and> Method answered = ''GET'')"

text \<open>The body \<open>doRequestClient\<close> reads from the response: limited and decoded.\<close>

definition blank_request :: "'act request" where
  "blank_request = \<lparr>HTTP = mk_request ''GET'' [] [] [], Meta = [], Synchronized = False, Rendered = False,
     Encoding = [], Cancelled = False, Actions = [], retryCounter = 0\<rparr>"

definition site_page ::
  "('e, 'w, 'act) external \<Rightarrow> ('act, 'proxy) client_options \<Rightarrow> (string \<Rightarrow> http_response option) \<Rightarrow>
   string \<Rightarrow> string option" where
  "site_page outside copt site k =
     (case site k of
        None \<Rightarrow> None
      | Some resp \<Rightarrow>
          (case decode_body outside copt blank_request resp ''GET''
                  (LimitReader (Body resp, BodyErr resp) (MaxBodySize copt)) of
             Inl err \<Rightarrow> None | Inr reader \<Rightarrow> ReadAll reader))"

text \<open>\<open>http.NewRequest\<close> gives a request with the method it is told and without headers.\<close>

definition makes_gets :: "(string \<Rightarrow> string \<Rightarrow> string \<Rightarrow> 'e + http_request) \<Rightarrow> bool" where
  "makes_gets http_New \<longleftrightarrow>
     (\<forall>u q. http_New ''GET'' u [] = Inr q \<longrightarrow> Method q = ''GET'' \<and> ReqHeader q = [])"

end
