(* ===== verification/Crawl_Laws.thy ===== *)
theory Crawl_Laws
  imports Crawl Engine_Laws "HOL-Library.Multiset"
begin

text \<open>
  What a crawl visits: exactly the URLs that can be reached from the start URLs over allowed hosts, each
  once, in every interleaving of the goroutines; and how long it may take.
\<close>

section \<open>Taking an element out of a list\<close>

lemma drop_nth_mset: "i < length xs \<Longrightarrow> mset xs = add_mset (xs ! i) (mset (drop_nth i xs))"
  by (subst id_take_nth_drop [of i xs]) (simp_all add: drop_nth_def)

lemma drop_nth_set: "i < length xs \<Longrightarrow> set xs = insert (xs ! i) (set (drop_nth i xs))"
  using arg_cong [OF drop_nth_mset, of i xs set_mset] by simp

lemma drop_nth_subset: "set (drop_nth i xs) \<subseteq> set xs"
  by (auto simp: drop_nth_def dest: in_set_takeD in_set_dropD)

lemma drop_nth_length: "i < length xs \<Longrightarrow> Suc (length (drop_nth i xs)) = length xs"
  by (simp add: drop_nth_def)

lemma drop_nth_sum:
  fixes f :: "'a \<Rightarrow> nat"
  assumes "i < length xs"
  shows "sum_list (map f xs) = f (xs ! i) + sum_list (map f (drop_nth i xs))"
proof -
  have "sum_list (map f xs) = sum_mset (image_mset f (mset xs))" by (simp add: sum_mset_sum_list [symmetric])
  also have "\<dots> = f (xs ! i) + sum_mset (image_mset f (mset (drop_nth i xs)))"
    by (simp add: drop_nth_mset [OF assms])
  finally show ?thesis by (simp add: sum_mset_sum_list [symmetric])
qed

lemma drop_nth_distinct:
  assumes "i < length xs"
  shows "distinct (map f xs @ ys) \<longleftrightarrow> distinct (map f (drop_nth i xs) @ ys @ [f (xs ! i)])"
  by (rule mset_eq_imp_distinct_iff) (simp add: drop_nth_mset [OF assms])

section \<open>The parts of a step\<close>

text \<open>A GET that the client handles itself and whose response is decoded by its own header.\<close>

definition ready :: "'act request \<Rightarrow> bool" where
  "ready r \<longleftrightarrow> plain_get (HTTP r) \<and> \<not> Cancelled r \<and> \<not> Rendered r \<and> Encoding r = []"

text \<open>A scraper with the standard middlewares, without robots rules, delays at random and repeats.\<close>

definition standard_scraper ::
  "('e, 'w, 'act, 'proxy, 'rd, 'doc, 'm) env \<Rightarrow> ('cache, 'proxy, 'act, 'm, 'x) options \<Rightarrow>
   ('cache, 'proxy, 'act, 'm, 'x) geziyor \<Rightarrow> bool" where
  "standard_scraper env opt g \<longleftrightarrow>
     NewGeziyor opt = Some g \<and> MetricsType opt \<in> {0, 1, 2} \<and> \<not> URLRevisitEnabled opt
     \<and> \<not> RequestDelayRandomize opt \<and> RobotsTxtDisabled opt
     \<and> RequestMiddlewares opt = [] \<and> ResponseMiddlewares opt = [] \<and> ErrorFunc env = None
     \<and> makes_gets (newRequest env)"

text \<open>Such a scraper on a steady network that has an answer for every URL that can be reached.\<close>

definition crawl_setting ::
  "('e, ('n, 'act) crawl_world, 'act, 'proxy, 'rd, 'doc, 'm) env \<Rightarrow>
   ('cache, 'proxy, 'act, 'm, 'x) options \<Rightarrow> ('cache, 'proxy, 'act, 'm, 'x) geziyor \<Rightarrow>
   (string \<Rightarrow> string \<Rightarrow> string list) \<Rightarrow> (string \<Rightarrow> http_response option) \<Rightarrow> string set \<Rightarrow> ('n \<Rightarrow> bool) \<Rightarrow>
   ('n \<Rightarrow> string set) \<Rightarrow> bool" where
  "crawl_setting env opt g links site urls good fetched \<longleftrightarrow>
     standard_scraper env opt g \<and> steady_net (ext env) site urls good fetched
     \<and> reachable_urls (newRequest env) opt (site_page (ext env) (snd (base (Client' g))) site) links \<subseteq> urls"

abbreviation scraper_options_of ::
  "('cache, 'proxy, 'act, 'm, 'x) geziyor \<Rightarrow> ('act, 'proxy) client_options" where
  "scraper_options_of g \<equiv> snd (base (Client' g))"

abbreviation page_of ::
  "('e, ('n, 'act) crawl_world, 'act, 'proxy, 'rd, 'doc, 'm) env \<Rightarrow>
   ('cache, 'proxy, 'act, 'm, 'x) geziyor \<Rightarrow> (string \<Rightarrow> http_response option) \<Rightarrow> string \<Rightarrow> string option" where
  "page_of env g site \<equiv> site_page (ext env) (scraper_options_of g) site"

lemma metrics_known: "mt \<in> {0, 1, 2} \<Longrightarrow> \<exists>m. NewMetrics mt = Some m"
  by (auto simp: NewMetrics_def Discard_def Prometheus_def ExpVar_def)

lemma decode_body_ready:
  "ready r \<Longrightarrow> same_page page resp \<Longrightarrow>
   decode_body outside copt r resp meth reader = decode_body outside copt blank_request page meth reader"
  by (simp add: decode_body_def ready_def plain_get_def same_page_def blank_request_def Let_def header_get_def
      header_values_def)

context steady_net
begin

text \<open>What one attempt and what \<open>DoRequest\<close> with its retries do, for a URL that the network has an answer for.\<close>

lemma send_ready:
  fixes out :: "('e, ('act, 'doc) response) outcome"
  assumes "ready r" and "url_of r \<in> urls" and "good (net w)" and "send outside copt r w = (out, r', w')"
  shows "ready r' \<and> url_of r' = url_of r
    \<and> (\<exists>n. w' = w\<lparr>net := n\<rparr> \<and> good n \<and> insert (url_of r) (fetched (net w)) \<subseteq> fetched n)
    \<and> (case site_page outside copt site (url_of r) of
         None \<Rightarrow> \<exists>err. out = Failed err
       | Some body \<Rightarrow> \<exists>resp. out = Returned resp \<and> RBody resp = body \<and> url_of (Req resp) = url_of r)"
proof -
  have GET: "plain_get (HTTP r)" using assms(1) by (simp add: ready_def)
  obtain result q' n where run: "http_do outside (HTTP r) w = (result, q', w\<lparr>net := n\<rparr>)"
    and q': "plain_get q'" "URL q' = URL (HTTP r)"
    and n: "good n" "insert (url_of r) (fetched (net w)) \<subseteq> fetched n"
    and result: "case site (url_of r) of None \<Rightarrow> \<exists>err. result = Inl err
      | Some page \<Rightarrow> \<exists>resp answered. result = Inr (resp, answered) \<and> same_page page resp \<and> Method answered = ''GET''"
    using fetch [OF GET assms(2,3)] by (elim exE conjE) (rule that)
  let ?r = "r\<lparr>HTTP := q'\<rparr>"
  have ready: "ready ?r" "url_of ?r = url_of r" using assms(1) q' by (simp_all add: ready_def)
  have out: "(out, r', w') = doRequestClient outside copt r w"
    using assms(1,4) by (simp add: send_def ready_def)
  show ?thesis
  proof (cases "site (url_of r)")
    case None
    then show ?thesis using out run result ready n
      by (auto simp: doRequestClient_def site_page_def)
  next
    case (Some page)
    then obtain resp answered where res: "result = Inr (resp, answered)" "same_page page resp" "Method answered = ''GET''"
      using result by auto
    then have "Body resp = Body page" "BodyErr resp = BodyErr page" by (simp_all add: same_page_def)
    then show ?thesis using out run ready Some n res
      by (auto simp: doRequestClient_def site_page_def decode_body_ready [OF ready(1) res(2)] Let_def
          split: sum.splits option.splits)
  qed
qed

lemma fetch_ready:
  fixes out :: "('e, ('act, 'doc) response) outcome"
  assumes "DoRequest outside copt r w = (out, r', w')" and "ready r" and "url_of r \<in> urls" and "good (net w)"
  shows "(\<exists>n. w' = w\<lparr>net := n\<rparr> \<and> good n \<and> insert (url_of r) (fetched (net w)) \<subseteq> fetched n)
    \<and> (case site_page outside copt site (url_of r) of
         None \<Rightarrow> \<exists>err. out = Failed err
       | Some body \<Rightarrow> \<exists>resp. out = Returned resp \<and> RBody resp = body \<and> url_of (Req resp) = url_of r)"
  using assms
proof (induction rule: DoRequest_run_induct)
  case (last req w o1 r1 w1)
  then show ?case using send_ready by blast
next
  case (retry req w o1 r1 w1 out req' w')
  from send_ready [OF retry(4-6,1)] obtain n where
    *: "ready r1" "url_of r1 = url_of req" "w1 = w\<lparr>net := n\<rparr>" "good n"
      "insert (url_of req) (fetched (net w)) \<subseteq> fetched n" by blast
  then have "ready (r1\<lparr>retryCounter := retryCounter r1 + 1\<rparr>)" by (simp add: ready_def)
  from retry(3) [OF this] * retry(5) show ?case
    by (cases "site_page outside copt site (url_of req)") auto
qed

end

text \<open>The response middlewares of a standard scraper never panic and keep the body.\<close>

lemma some_trace [simp]: "\<exists>t. s\<lparr>trace := x\<rparr> = s\<lparr>trace := t\<rparr>"
  by (rule exI, rule refl)

lemma standard_res_chain:
  "\<exists>resp' t. run_res env [ParseHTMLMW d, LogStatsMW l, MetricsResMW (Some m)] resp s = (False, resp', s\<lparr>trace := t\<rparr>)
     \<and> RBody resp' = RBody resp \<and> Req resp' = Req resp"
  by (simp add: apply_res_def ParseHTML_ProcessResponse_def LogStats_ProcessResponse_def
      Metrics_ProcessResponse_def emit_def split: sum.split)

lemma plain_keys:
  "CanonicalHeaderKey ''Content-Type'' = ''Content-Type''" "CanonicalHeaderKey ''range'' = ''Range''"
  "CanonicalHeaderKey ''Accept'' \<noteq> ''Content-Type''" "CanonicalHeaderKey ''Accept'' \<noteq> ''Range''"
  "CanonicalHeaderKey ''Accept-Charset'' \<noteq> ''Content-Type''" "CanonicalHeaderKey ''Accept-Charset'' \<noteq> ''Range''"
  "CanonicalHeaderKey ''Accept-Language'' \<noteq> ''Content-Type''" "CanonicalHeaderKey ''Accept-Language'' \<noteq> ''Range''"
  "CanonicalHeaderKey ''User-Agent'' \<noteq> ''Content-Type''" "CanonicalHeaderKey ''User-Agent'' \<noteq> ''Range''"
  by code_simp+

lemma set_default_ready:
  "ready r \<Longrightarrow> CanonicalHeaderKey k \<noteq> ''Content-Type'' \<Longrightarrow> CanonicalHeaderKey k \<noteq> ''Range'' \<Longrightarrow>
   ready (set_default k v r)"
  "url_of (set_default k v r) = url_of r"
  by (auto simp: ready_def plain_get_def cacheable_def set_default_get plain_keys) (simp_all add: set_default_def)

lemma headers_ready:
  assumes "ready r"
  shows "\<exists>r'. Headers_ProcessRequest ua r s = (False, r', s) \<and> ready r' \<and> url_of r' = url_of r"
  using assms by (simp add: Headers_ProcessRequest_def Let_def set_default_ready plain_keys)

lemma standard_req_chain:
  assumes "crawl_setting env opt g links site urls good fetched" and "ready q"
  shows "\<exists>q' s'. run_req env (scraper_options_of g) (reqMiddlewares g) q s =
      (if host_allowed opt (RHost (HTTP q)) \<and> url_of q \<notin> set (visitedURLs s) then Passed else WasCancelled, q', s')
    \<and> world s' = world s
    \<and> (if host_allowed opt (RHost (HTTP q)) \<and> url_of q \<notin> set (visitedURLs s)
       then visitedURLs s' = url_of q # visitedURLs s \<and> ready q' \<and> url_of q' = url_of q
       else visitedURLs s' = visitedURLs s)"
proof -
  note set = assms(1) [unfolded crawl_setting_def standard_scraper_def]
  obtain m where m: "NewMetrics (MetricsType opt) = Some m" using metrics_known set by blast
  have "NewGeziyor opt = Some g" using set by blast
  note sel = NewGeziyor_sel [OF this]
  have q: "is_GET q" "\<not> Cancelled q" using assms(2) by (simp_all add: ready_def plain_get_def)
  show ?thesis
  proof (cases "host_allowed opt (RHost (HTTP q))")
    case False
    then show ?thesis
      by (auto simp: sel(2) apply_req_def AllowedDomains_ProcessRequest_def host_allowed_def Cancel_def
          LoadOrStore_def emit_def Let_def)
  next
    case True
    then have allowed: "AllowedDomains_ProcessRequest (AllowedDomains opt) q s = (False, q, s)"
      by (auto simp: AllowedDomains_ProcessRequest_def host_allowed_def)
    show ?thesis
    proof (cases "url_of q \<in> set (visitedURLs s)")
      case dup: True
      then show ?thesis using set q True
        by (simp add: sel(2) apply_req_def allowed DuplicateRequests_ProcessRequest_def Cancel_def
            LoadOrStore_def emit_def Let_def)
    next
      case new: False
      obtain q' where q': "Headers_ProcessRequest (UserAgent (default_options opt)) q
          (s\<lparr>visitedURLs := url_of q # visitedURLs s\<rparr>) = (False, q', s\<lparr>visitedURLs := url_of q # visitedURLs s\<rparr>)"
        "ready q'" "url_of q' = url_of q"
        using headers_ready [OF assms(2)] by blast
      then have "\<not> Cancelled q'" by (simp add: ready_def)
      then show ?thesis using set q q' True new
        by (simp add: sel(2) apply_req_def allowed DuplicateRequests_ProcessRequest_def m
            LoadOrStore_def emit_def Let_def Delay_ProcessRequest_def NewDelay_def
            Metrics_ProcessRequest_def RobotsTxt_ProcessRequest_def)
    qed
  qed
qed

text \<open>The requests that following links puts into the pool.\<close>

definition requests_of ::
  "(string \<Rightarrow> string \<Rightarrow> string \<Rightarrow> 'e + http_request) \<Rightarrow> string list \<Rightarrow> 'act request list" where
  "requests_of http_New us = List.map_filter (\<lambda>u.
     case NewRequest http_New ''GET'' u [] of Inl err \<Rightarrow> None | Inr req \<Rightarrow> Some req) us"

lemma requests_of_Nil [simp]: "requests_of http_New [] = []"
  by (simp add: requests_of_def map_filter_simps)

lemma length_requests_of: "length (requests_of http_New us) \<le> length us"
  by (induction us) (auto simp: requests_of_def map_filter_simps split: sum.split)

lemma requests_of_ready:
  assumes "makes_gets http_New" and "q \<in> set (requests_of http_New us)"
  shows "ready q \<and> (\<exists>u\<in>set us. http_New ''GET'' u [] = Inr (HTTP q))"
  using assms
  by (auto simp: requests_of_def map_filter_def NewRequest_def ready_def plain_get_def cacheable_def makes_gets_def
      header_get_def header_values_def split: sum.splits)

lemma NewRequest_Inr:
  "http_New meth u body = Inr q \<Longrightarrow> \<exists>r. NewRequest http_New meth u body = Inr (r :: 'act request) \<and> HTTP r = q"
  "NewRequest http_New meth u body = Inr r \<Longrightarrow> http_New meth u body = Inr (HTTP r)"
  by (auto simp: NewRequest_def split: sum.splits)

lemma requests_of_iff: "q \<in> set (requests_of http_New us) \<longleftrightarrow> (\<exists>u\<in>set us. NewRequest http_New ''GET'' u [] = Inr q)"
  by (induction us) (auto simp: requests_of_def map_filter_simps split: sum.splits)

lemma targets_iff:
  "k \<in> targets http_New opt us \<longleftrightarrow>
     (\<exists>q :: 'act request. q \<in> set (requests_of http_New us) \<and> host_allowed opt (RHost (HTTP q)) \<and> k = url_of q)"
proof
  assume "k \<in> targets http_New opt us"
  then obtain u q where u: "u \<in> set us" and q: "http_New ''GET'' u [] = Inr q" "host_allowed opt (RHost q)"
    "k = URLString (URL q)" by (auto simp: targets_def)
  obtain r :: "'act request" where "NewRequest http_New ''GET'' u [] = Inr r" "HTTP r = q"
    using NewRequest_Inr(1) [of http_New, OF q(1)] by blast
  then show "\<exists>q :: 'act request. q \<in> set (requests_of http_New us) \<and> host_allowed opt (RHost (HTTP q)) \<and> k = url_of q"
    using u q by (intro exI [of _ r]) (auto simp: requests_of_iff)
next
  assume "\<exists>q :: 'act request. q \<in> set (requests_of http_New us) \<and> host_allowed opt (RHost (HTTP q)) \<and> k = url_of q"
  then obtain q :: "'act request" and u where "u \<in> set us" "NewRequest http_New ''GET'' u [] = Inr q"
    "host_allowed opt (RHost (HTTP q))" "k = url_of q" by (auto simp: requests_of_iff)
  then show "k \<in> targets http_New opt us"
    using NewRequest_Inr(2) [of http_New _ u "[]" q] by (auto simp: targets_def)
qed

lemma spawn_Gets:
  fixes s :: "('rd, ('n, 'act) crawl_world) mw_state"
  assumes "shutdown g = False"
  shows "\<exists>t. fold (spawn_Get http_New g) us s =
    s\<lparr>trace := t, world := (world s)\<lparr>waiting := waiting (world s) @ requests_of http_New us\<rparr>\<rparr>"
proof (induction us arbitrary: s)
  case Nil
  show ?case by (rule exI [of _ "trace s"]) simp
next
  case (Cons u us)
  have "\<exists>t. spawn_Get http_New g u s =
      s\<lparr>trace := t, world := (world s)\<lparr>waiting := waiting (world s) @ requests_of http_New [u]\<rparr>\<rparr>"
    using assms
    by (auto simp: spawn_Get_def geziyor_Get_def issue_def Do_def NewRequest_def requests_of_def map_filter_def
        emit_def split: sum.split intro: exI [of _ "trace s"])
  then obtain t where t: "spawn_Get http_New g u s =
      s\<lparr>trace := t, world := (world s)\<lparr>waiting := waiting (world s) @ requests_of http_New [u]\<rparr>\<rparr>" by blast
  have "requests_of http_New (u # us) = (requests_of http_New [u] @ requests_of http_New us :: 'act request list)"
    by (simp add: requests_of_def map_filter_def)
  moreover obtain t' where "fold (spawn_Get http_New g) us (spawn_Get http_New g u s) =
      (spawn_Get http_New g u s)\<lparr>trace := t', world := (world (spawn_Get http_New g u s))\<lparr>waiting :=
        waiting (world (spawn_Get http_New g u s)) @ requests_of http_New us\<rparr>\<rparr>"
    using Cons.IH by blast
  ultimately show ?case using t by (intro exI [of _ t']) simp
qed

section \<open>Steps\<close>

text \<open>What a step does to the visited URLs and the pools.\<close>

lemma begin_step:
  assumes set: "crawl_setting env opt g links site urls good fetched" and i: "i < length (waiting (world s))"
    and ready: "ready (waiting (world s) ! i)"
  defines "q \<equiv> waiting (world s) ! i"
  shows "\<exists>s'. crawl_step env g links (Begin i) s = Some (False, s')
    \<and> waiting (world s') = drop_nth i (waiting (world s)) \<and> parsed (world s') = parsed (world s)
    \<and> net (world s') = net (world s)
    \<and> (if host_allowed opt (RHost (HTTP q)) \<and> url_of q \<notin> set (visitedURLs s)
       then visitedURLs s' = url_of q # visitedURLs s
         \<and> (\<exists>r. ready r \<and> url_of r = url_of q \<and> flying (world s') = flying (world s) @ [r])
       else visitedURLs s' = visitedURLs s \<and> flying (world s') = flying (world s))"
proof -
  let ?s1 = "s\<lparr>world := (world s)\<lparr>waiting := drop_nth i (waiting (world s))\<rparr>\<rparr>"
  have g: "NewGeziyor opt = Some g" using set by (simp add: crawl_setting_def standard_scraper_def)
  from standard_req_chain [OF set ready, of ?s1, folded q_def] obtain q' s2 where
    "run_req env (scraper_options_of g) (reqMiddlewares g) q ?s1 =
      (if host_allowed opt (RHost (HTTP q)) \<and> url_of q \<notin> set (visitedURLs s) then Passed else WasCancelled, q', s2)"
    "world s2 = world ?s1"
    "if host_allowed opt (RHost (HTTP q)) \<and> url_of q \<notin> set (visitedURLs s)
     then visitedURLs s2 = url_of q # visitedURLs s \<and> ready q' \<and> url_of q' = url_of q
     else visitedURLs s2 = visitedURLs s" by auto
  then show ?thesis using i
    by (auto simp: crawl_step_def q_def [symmetric] recoverMe_def)
qed

lemma complete_step:
  fixes env :: "('e, ('n, 'act) crawl_world, 'act, 'proxy, 'rd, 'doc, 'm) env"
  assumes set: "crawl_setting env opt g links site urls good fetched" and i: "i < length (flying (world s))"
    and ready: "ready (flying (world s) ! i)"
  defines "k \<equiv> url_of (flying (world s) ! i)"
  assumes k: "k \<in> urls" and good: "good (net (world s))"
  shows "\<exists>s'. crawl_step env g links (Complete i) s = Some (False, s')
    \<and> good (net (world s')) \<and> insert k (fetched (net (world s))) \<subseteq> fetched (net (world s'))
    \<and> visitedURLs s' = visitedURLs s \<and> flying (world s') = drop_nth i (flying (world s))
    \<and> (case page_of env g site k of
         None \<Rightarrow> waiting (world s') = waiting (world s) \<and> parsed (world s') = parsed (world s)
       | Some body \<Rightarrow> waiting (world s') = waiting (world s) @ requests_of (newRequest env) (links k body)
           \<and> parsed (world s') = parsed (world s) @ [k])"
proof -
  let ?r = "flying (world s) ! i" and ?copt = "scraper_options_of g"
  let ?s1 = "s\<lparr>world := (world s)\<lparr>flying := drop_nth i (flying (world s))\<rparr>\<rparr>"
  note set' = set [unfolded crawl_setting_def standard_scraper_def]
  have g: "NewGeziyor opt = Some g" using set' by blast
  note sel = NewGeziyor_sel [OF g]
  obtain m where m: "NewMetrics (MetricsType opt) = Some m" using metrics_known set' by blast
  obtain out :: "('e, ('act, 'doc) response) outcome" and r' w' where dr: "DoRequest (ext env) ?copt ?r (world ?s1) = (out, r', w')"
    by (metis surj_pair)
  have st: "steady_net (ext env) site urls good fetched" using set' by blast
  have good1: "good (net (world ?s1))" using good by simp
  note fr = steady_net.fetch_ready [OF st dr ready, folded k_def, OF k good1]
  then obtain n where w': "w' = (world ?s1)\<lparr>net := n\<rparr>" and n: "good n" "insert k (fetched (net (world s))) \<subseteq> fetched n"
    by auto
  note result = fr [THEN conjunct2]
  show ?thesis
  proof (cases "page_of env g site k")
    case None
    then obtain err where "out = Failed err" using result by auto
    then show ?thesis using i dr w' set' None n
      by (simp add: crawl_step_def do_client_def recoverMe_def emit_def)
  next
    case (Some body)
    then obtain resp where resp: "out = Returned resp" "RBody resp = body" "url_of (Req resp) = k"
      using result by auto
    have mws: "resMiddlewares g = [ParseHTMLMW (ParseHTMLDisabled (default_options opt)),
        LogStatsMW (LogDisabled (default_options opt)), MetricsResMW (Some m)]"
      using set' by (simp add: sel(3) m)
    obtain resp' t where chain: "run_res env (resMiddlewares g) resp (?s1\<lparr>world := w'\<rparr>) =
 (False, resp', ?s1\<lparr>world := w', trace := t\<rparr>)"
      and resp': "RBody resp' = RBody resp" "Req resp' = Req resp"
      using standard_res_chain [of env "ParseHTMLDisabled (default_options opt)" "LogDisabled (default_options opt)" m
          resp "?s1\<lparr>world := w'\<rparr>"] unfolding mws by blast
    let ?s2 = "?s1\<lparr>trace := t, world := w'\<lparr>parsed := parsed w' @ [k]\<rparr>\<rparr>"
    obtain t' where "fold (spawn_Get (newRequest env) g) (links k body) ?s2 =
        ?s2\<lparr>trace := t', world := (world ?s2)\<lparr>waiting := waiting (world ?s2) @ requests_of (newRequest env) (links k body)\<rparr>\<rparr>"
      using spawn_Gets [OF sel(7)] by blast
    then show ?thesis using i dr w' Some resp chain resp' n
      by (simp add: crawl_step_def do_client_def recoverMe_def parse_page_def Let_def)
  qed
qed

section \<open>Invariant\<close>

text \<open>The URLs that are visited, or will be by a waiting request.\<close>

definition allowed_urls :: "('cache, 'proxy, 'act, 'm, 'x) options \<Rightarrow> 'act request list \<Rightarrow> string set" where
  "allowed_urls opt qs = {url_of q | q. q \<in> set qs \<and> host_allowed opt (RHost (HTTP q))}"

lemma allowed_urls_simps [simp]:
  "allowed_urls opt [] = {}"
  "allowed_urls opt (qs @ qs') = allowed_urls opt qs \<union> allowed_urls opt qs'"
  by (auto simp: allowed_urls_def)

lemma allowed_urls_requests_of [simp]:
  "allowed_urls opt (requests_of http_New us :: 'act request list) = targets http_New opt us"
  by (rule set_eqI, subst targets_iff [where 'act = 'act]) (auto simp: allowed_urls_def)

lemma allowed_urls_drop_nth:
  "i < length qs \<Longrightarrow> allowed_urls opt qs = allowed_urls opt (drop_nth i qs)
     \<union> (if host_allowed opt (RHost (HTTP (qs ! i))) then {url_of (qs ! i)} else {})"
  using drop_nth_set [of i qs] by (auto simp: allowed_urls_def)

definition covered ::
  "('cache, 'proxy, 'act, 'm, 'x) options \<Rightarrow> ('rd, ('n, 'act) crawl_world) mw_state \<Rightarrow> string set" where
  "covered opt s = set (visitedURLs s) \<union> allowed_urls opt (waiting (world s))"

definition crawl_inv ::
  "(string \<Rightarrow> string \<Rightarrow> string \<Rightarrow> 'e + http_request) \<Rightarrow> ('cache, 'proxy, 'act, 'm, 'x) options \<Rightarrow>
   (string \<Rightarrow> string option) \<Rightarrow> (string \<Rightarrow> string \<Rightarrow> string list) \<Rightarrow> ('n \<Rightarrow> bool) \<Rightarrow> ('n \<Rightarrow> string set) \<Rightarrow>
   ('rd, ('n, 'act) crawl_world) mw_state \<Rightarrow> bool" where
  "crawl_inv http_New opt page links good fetched s \<longleftrightarrow>
     (\<forall>q\<in>set (waiting (world s)) \<union> set (flying (world s)). ready q)
   \<and> covered opt s \<subseteq> reachable_urls http_New opt page links
   \<and> distinct (map url_of (flying (world s)) @ parsed (world s))
   \<and> set (map url_of (flying (world s)) @ parsed (world s)) \<subseteq> set (visitedURLs s)
   \<and> (\<forall>k\<in>set (visitedURLs s). k \<in> url_of ` set (flying (world s)) \<or> k \<in> set (parsed (world s)) \<or> page k = None)
   \<and> (\<forall>k\<in>set (parsed (world s)). \<exists>body. page k = Some body \<and> targets http_New opt (links k body) \<subseteq> covered opt s)
   \<and> targets http_New opt (StartURLs opt) \<subseteq> covered opt s
   \<and> good (net (world s))
   \<and> set (visitedURLs s) \<subseteq> url_of ` set (flying (world s)) \<union> fetched (net (world s))"

lemma NewGeziyor_StartURLs: "NewGeziyor opt = Some g \<Longrightarrow> StartURLs (Opt g) = StartURLs opt"
  by (auto simp: NewGeziyor_def default_options_def Let_def split: if_splits)

lemma crawl_start_state:
  assumes "NewGeziyor opt = Some g"
    and "s = (crawl_start http_New g w :: ('rd, ('n, 'act) crawl_world) mw_state)"
  shows "visitedURLs s = []"
    "world s = \<lparr>net = w, waiting = requests_of http_New (StartURLs opt), flying = [], parsed = []\<rparr>"
proof -
  obtain t where "s = (mw_init \<lparr>net = w, waiting = [], flying = [], parsed = []\<rparr>)
      \<lparr>trace := t, world := \<lparr>net = w, waiting = requests_of http_New (StartURLs opt), flying = [], parsed = []\<rparr>\<rparr>"
    using spawn_Gets [OF NewGeziyor_sel(7) [OF assms(1)], of http_New "StartURLs opt"
        "mw_init \<lparr>net = w, waiting = [], flying = [], parsed = []\<rparr>"]
    by (auto simp: assms(2) crawl_start_def NewGeziyor_StartURLs [OF assms(1)] mw_init_def)
  then show "visitedURLs s = []"
    "world s = \<lparr>net = w, waiting = requests_of http_New (StartURLs opt), flying = [], parsed = []\<rparr>"
    by (simp_all add: mw_init_def)
qed

lemma start_inv:
  assumes "crawl_setting env opt g links site urls good fetched"
    and "good w"
  shows "crawl_inv (newRequest env) opt page links good fetched (crawl_start (newRequest env) g w)"
proof -
  have g: "NewGeziyor opt = Some g" and gets: "makes_gets (newRequest env)"
    using assms(1) by (simp_all add: crawl_setting_def standard_scraper_def)
  note st = crawl_start_state [OF g refl, of "newRequest env" w]
  have "covered opt (crawl_start (newRequest env) g w) = targets (newRequest env) opt (StartURLs opt)"
    by (simp add: covered_def st)
  then show ?thesis
    using assms(2) by (auto simp: crawl_inv_def st intro: reachable_urls.start dest: requests_of_ready [OF gets])
qed

lemma begin_inv:
  assumes set: "crawl_setting env opt g links site urls good fetched" and inv: "crawl_inv (newRequest env) opt (page_of env g site) links good fetched s"
    and i: "i < length (waiting (world s))" and step: "crawl_step env g links (Begin i) s = Some (c, s')"
  shows "\<not> c \<and> crawl_inv (newRequest env) opt (page_of env g site) links good fetched s'"
proof -
  let ?q = "waiting (world s) ! i"
  let ?new = "host_allowed opt (RHost (HTTP ?q)) \<and> url_of ?q \<notin> set (visitedURLs s)"
  note I = inv [unfolded crawl_inv_def]
  have "ready ?q" using I i nth_mem by blast
  from begin_step [OF set i this] step have c: "\<not> c"
    and W: "waiting (world s') = drop_nth i (waiting (world s))" and P: "parsed (world s') = parsed (world s)"
    and N: "net (world s') = net (world s)"
    and VF: "if ?new then visitedURLs s' = url_of ?q # visitedURLs s
         \<and> (\<exists>r. ready r \<and> url_of r = url_of ?q \<and> flying (world s') = flying (world s) @ [r])
       else visitedURLs s' = visitedURLs s \<and> flying (world s') = flying (world s)" by auto
  have cov: "covered opt s' = covered opt s"
    using VF allowed_urls_drop_nth [OF i, of opt] by (cases ?new) (auto simp: covered_def W)
  have W': "set (waiting (world s')) \<subseteq> set (waiting (world s))" using W drop_nth_subset by metis
  show ?thesis
  proof (cases ?new)
    case True
    then obtain r where r: "ready r" "url_of r = url_of ?q" "flying (world s') = flying (world s) @ [r]"
      and V: "visitedURLs s' = url_of ?q # visitedURLs s" using VF by auto
    then have "url_of ?q \<notin> set (map url_of (flying (world s)) @ parsed (world s))" using I True by blast
    then show ?thesis using I c r V W' unfolding crawl_inv_def cov P N
      by (auto simp: r(2))
  next
    case False
    then show ?thesis using I c VF W' unfolding crawl_inv_def cov P N by auto
  qed
qed

text \<open>What is in flight can be reached, so that the network has an answer for it.\<close>

lemma flying_url:
  assumes "crawl_setting env opt g links site urls good fetched"
    and "crawl_inv (newRequest env) opt (page_of env g site) links good fetched s"
    and "i < length (flying (world s))"
  shows "ready (flying (world s) ! i)" "url_of (flying (world s) ! i) \<in> set (visitedURLs s)"
    "url_of (flying (world s) ! i) \<in> urls" "good (net (world s))"
proof -
  note I = assms(2) [unfolded crawl_inv_def]
  show "ready (flying (world s) ! i)" "good (net (world s))" using I assms(3) nth_mem by blast+
  show v: "url_of (flying (world s) ! i) \<in> set (visitedURLs s)" using I assms(3) nth_mem by fastforce
  then show "url_of (flying (world s) ! i) \<in> urls"
    using I assms(1) unfolding covered_def crawl_setting_def by blast
qed

lemma complete_inv:
  assumes set: "crawl_setting env opt g links site urls good fetched" and inv: "crawl_inv (newRequest env) opt (page_of env g site) links good fetched s"
    and i: "i < length (flying (world s))" and step: "crawl_step env g links (Complete i) s = Some (c, s')"
  shows "\<not> c \<and> crawl_inv (newRequest env) opt (page_of env g site) links good fetched s'"
proof -
  let ?k = "url_of (flying (world s) ! i)"
  note I = inv [unfolded crawl_inv_def]
  have gets: "makes_gets (newRequest env)" using set by (simp add: crawl_setting_def standard_scraper_def)
  note fly = flying_url [OF set inv i]
  from complete_step [OF set i fly(1,3,4)] step have c: "\<not> c"
    and G: "good (net (world s'))" "insert ?k (fetched (net (world s))) \<subseteq> fetched (net (world s'))"
    and V: "visitedURLs s' = visitedURLs s" and F: "flying (world s') = drop_nth i (flying (world s))"
    and WP: "case page_of env g site ?k of
         None \<Rightarrow> waiting (world s') = waiting (world s) \<and> parsed (world s') = parsed (world s)
       | Some body \<Rightarrow> waiting (world s') = waiting (world s) @ requests_of (newRequest env) (links ?k body)
           \<and> parsed (world s') = parsed (world s) @ [?k]" by auto
  have F': "set (flying (world s')) \<subseteq> set (flying (world s))" using F drop_nth_subset by metis
  have Fk: "url_of ` set (flying (world s)) = insert ?k (url_of ` set (flying (world s')))"
    using drop_nth_set [OF i] F by auto
  have D: "distinct (map url_of (flying (world s')) @ parsed (world s) @ [?k])"
    using I drop_nth_distinct [OF i, of url_of "parsed (world s)"] F by simp
  note k = fly(2)
  have N: "set (visitedURLs s') \<subseteq> url_of ` set (flying (world s')) \<union> fetched (net (world s'))"
    using I Fk G(2) unfolding V by blast
  show ?thesis
  proof (cases "page_of env g site ?k")
    case None
    then have "waiting (world s') = waiting (world s)" "parsed (world s') = parsed (world s)" using WP by auto
    moreover from this have "covered opt s' = covered opt s" by (simp add: covered_def V)
    ultimately show ?thesis using I c V F' Fk D None G(1) N unfolding crawl_inv_def by auto
  next
    case (Some body)
    then have W: "waiting (world s') = waiting (world s) @ requests_of (newRequest env) (links ?k body)"
      and P: "parsed (world s') = parsed (world s) @ [?k]" using WP by auto
    have cov: "covered opt s' = covered opt s \<union> targets (newRequest env) opt (links ?k body)"
      by (auto simp: covered_def V W)
    have "?k \<in> reachable_urls (newRequest env) opt (page_of env g site) links"
      using I k by (auto simp: covered_def)
    from reachable_urls.link [OF this Some]
    have "covered opt s' \<subseteq> reachable_urls (newRequest env) opt (page_of env g site) links"
      using I cov by blast
    moreover have "\<forall>q\<in>set (waiting (world s')) \<union> set (flying (world s')). ready q"
      using I F' requests_of_ready [OF gets] by (auto simp: W)
    moreover have "\<forall>k\<in>set (parsed (world s')). \<exists>b. page_of env g site k = Some b
        \<and> targets (newRequest env) opt (links k b) \<subseteq> covered opt s'"
    proof
      fix k assume k: "k \<in> set (parsed (world s'))"
      show "\<exists>b. page_of env g site k = Some b \<and> targets (newRequest env) opt (links k b) \<subseteq> covered opt s'"
      proof (cases "k = ?k")
        case False
        then have "k \<in> set (parsed (world s))" using k P by simp
        then obtain b where "page_of env g site k = Some b" "targets (newRequest env) opt (links k b) \<subseteq> covered opt s"
          using I by blast
        then show ?thesis using cov by blast
      qed (use Some cov in blast)
    qed
    moreover have "targets (newRequest env) opt (StartURLs opt) \<subseteq> covered opt s'" using I cov by blast
    moreover have "distinct (map url_of (flying (world s')) @ parsed (world s'))" using D P by simp
    moreover have "set (map url_of (flying (world s')) @ parsed (world s')) \<subseteq> set (visitedURLs s')"
      using I Fk k by (auto simp: P V)
    moreover have "\<forall>k\<in>set (visitedURLs s'). k \<in> url_of ` set (flying (world s')) \<or>
        k \<in> set (parsed (world s')) \<or> page_of env g site k = None"
      using I Fk by (auto simp: P V)
    ultimately show ?thesis using c G(1) N unfolding crawl_inv_def by blast
  qed
qed

lemma step_inv:
  assumes set: "crawl_setting env opt g links site urls good fetched" and inv: "crawl_inv (newRequest env) opt (page_of env g site) links good fetched s"
    and step: "crawl_step env g links a s = Some (c, s')"
  shows "\<not> c \<and> crawl_inv (newRequest env) opt (page_of env g site) links good fetched s'"
proof (cases a)
  case (Begin i)
  then have "i < length (waiting (world s))" using step by (simp add: crawl_step_def split: if_splits)
  then show ?thesis using begin_inv [OF set inv] step Begin by blast
next
  case (Complete i)
  then have "i < length (flying (world s))" using step by (simp add: crawl_step_def split: if_splits)
  then show ?thesis using complete_inv [OF set inv] step Complete by blast
qed

lemma run_induct [consumes 1, case_names stop step]:
  assumes "crawl_run env g links as s = Some s'"
    and "\<And>s. P [] s s"
    and "\<And>a as s s1 s'. crawl_step env g links a s = Some (False, s1) \<Longrightarrow>
      crawl_run env g links as s1 = Some s' \<Longrightarrow> P as s1 s' \<Longrightarrow> P (a # as) s s'"
  shows "P as s s'"
  using assms(1)
proof (induction as arbitrary: s)
  case Nil
  then show ?case using assms(2) by simp
next
  case (Cons a as)
  then obtain s1 where "crawl_step env g links a s = Some (False, s1)" "crawl_run env g links as s1 = Some s'"
    by (auto split: option.splits bool.splits prod.splits)
  then show ?case using assms(3) Cons.IH by blast
qed

lemma run_inv:
  assumes "crawl_setting env opt g links site urls good fetched" and "crawl_run env g links as s = Some s'"
    and "crawl_inv (newRequest env) opt (page_of env g site) links good fetched s"
  shows "crawl_inv (newRequest env) opt (page_of env g site) links good fetched s'"
  using assms(2,3) by (induction rule: run_induct) (use step_inv [OF assms(1)] in blast)+

lemma reachable_covered:
  assumes "crawl_inv http_New opt page links good fetched s" and "waiting (world s) = []" and "flying (world s) = []"
  shows "reachable_urls http_New opt page links \<subseteq> set (visitedURLs s)"
proof
  have cov: "covered opt s = set (visitedURLs s)" using assms(2) by (simp add: covered_def)
  note I = assms(1) [unfolded crawl_inv_def cov assms(2,3)]
  fix k assume "k \<in> reachable_urls http_New opt page links"
  then show "k \<in> set (visitedURLs s)"
  proof induction
    case (start k)
    then show ?case using I by blast
  next
    case (link k body k')
    then have "k \<in> set (parsed (world s))" using I by auto
    then show ?case using I link(2,3) by force
  qed
qed

section \<open>Which pages are visited\<close>

lemma crawl_visits_all:
  assumes "crawl_setting env opt g links site urls good fetched" and "good w"
    and "crawl_run env g links as (crawl_start (newRequest env) g w) = Some s"
    and "waiting (world s) = []" and "flying (world s) = []"
  shows "set (visitedURLs s) = reachable_urls (newRequest env) opt (page_of env g site) links
    \<and> distinct (parsed (world s))
    \<and> set (parsed (world s)) =
        {k \<in> reachable_urls (newRequest env) opt (page_of env g site) links. page_of env g site k \<noteq> None}"
proof -
  have inv: "crawl_inv (newRequest env) opt (page_of env g site) links good fetched s"
    by (rule run_inv [OF assms(1,3) start_inv [OF assms(1,2)]])
  have cov: "covered opt s = set (visitedURLs s)" using assms(4) by (simp add: covered_def)
  note I = inv [unfolded crawl_inv_def cov assms(4,5)]
  have "set (visitedURLs s) = reachable_urls (newRequest env) opt (page_of env g site) links"
    using reachable_covered [OF inv assms(4,5)] I by blast
  moreover have "set (parsed (world s)) = {k \<in> set (visitedURLs s). page_of env g site k \<noteq> None}"
    using I by (auto simp del: not_None_eq)
  ultimately show ?thesis using I by simp
qed

text \<open>C1: A crawl that has no request left has visited exactly the URLs that can be reached from the start
  URLs by links over allowed hosts, and the callback was called exactly once for each of them whose
  page could be fetched, in whatever order the goroutines ran.\<close>

theorem crawl_visits_reachable:
  assumes "crawl_setting env opt g links site urls good fetched" and "good w"
    and "crawl_run env g links as (crawl_start (newRequest env) g w) = Some s"
    and "waiting (world s) = []" and "flying (world s) = []"
  shows "set (visitedURLs s) = reachable_urls (newRequest env) opt (page_of env g site) links
    \<and> distinct (parsed (world s))
    \<and> set (parsed (world s)) =
        {k \<in> reachable_urls (newRequest env) opt (page_of env g site) links. page_of env g site k \<noteq> None}"
  using assms by (rule crawl_visits_all)

text \<open>At the end every URL that can be reached has been asked for.\<close>

lemma crawl_fetches:
  assumes "crawl_setting env opt g links site urls good fetched" and "good w"
    and "crawl_run env g links as (crawl_start (newRequest env) g w) = Some s"
    and "waiting (world s) = []" and "flying (world s) = []"
  shows "good (net (world s)) \<and> reachable_urls (newRequest env) opt (page_of env g site) links \<subseteq> fetched (net (world s))"
proof -
  have inv: "crawl_inv (newRequest env) opt (page_of env g site) links good fetched s"
    by (rule run_inv [OF assms(1,3) start_inv [OF assms(1,2)]])
  then show ?thesis
    using reachable_covered [OF inv assms(4,5)] assms(5) unfolding crawl_inv_def by auto
qed

section \<open>How long it takes\<close>

definition link_count :: "(string \<Rightarrow> string option) \<Rightarrow> (string \<Rightarrow> string \<Rightarrow> string list) \<Rightarrow> string \<Rightarrow> nat" where
  "link_count page links k = (case page k of None \<Rightarrow> 0 | Some body \<Rightarrow> length (links k body))"

text \<open>Two steps for each waiting request, one for each in flight, and those for the links still to be found.\<close>

definition crawl_measure ::
  "(string \<Rightarrow> nat) \<Rightarrow> string set \<Rightarrow> ('rd, ('n, 'act) crawl_world) mw_state \<Rightarrow> nat" where
  "crawl_measure n U s = 2 * length (waiting (world s))
     + sum_list (map (\<lambda>r. 1 + 2 * n (url_of r)) (flying (world s)))
     + 2 * (\<Sum>k\<in>U - set (visitedURLs s). n k)"

lemma step_measure:
  assumes set: "crawl_setting env opt g links site urls good fetched" and inv: "crawl_inv (newRequest env) opt (page_of env g site) links good fetched s"
    and step: "crawl_step env g links a s = Some (c, s')"
    and n: "n = link_count (page_of env g site) links"
    and U: "U = reachable_urls (newRequest env) opt (page_of env g site) links" and fin: "finite U"
  shows "crawl_measure n U s' < crawl_measure n U s"
proof (cases a)
  case (Begin i)
  then have i: "i < length (waiting (world s))" using step by (simp add: crawl_step_def split: if_splits)
  let ?q = "waiting (world s) ! i"
  have "ready ?q" using inv i nth_mem unfolding crawl_inv_def by blast
  note st = begin_step [OF set i this]
  have W: "Suc (length (waiting (world s'))) = length (waiting (world s))"
    using st step drop_nth_length [OF i] Begin by auto
  show ?thesis
  proof (cases "host_allowed opt (RHost (HTTP ?q)) \<and> url_of ?q \<notin> set (visitedURLs s)")
    case True
    then obtain r where r: "url_of r = url_of ?q" "flying (world s') = flying (world s) @ [r]"
      and V: "visitedURLs s' = url_of ?q # visitedURLs s" using st step Begin by auto
    have "url_of ?q \<in> covered opt s"
      using True i by (auto simp: covered_def allowed_urls_def)
    then have "url_of ?q \<in> U - set (visitedURLs s)" using inv True unfolding crawl_inv_def U by blast
    then have "(\<Sum>k\<in>U - set (visitedURLs s). n k) = n (url_of ?q) + (\<Sum>k\<in>U - set (visitedURLs s'). n k)"
      using sum.remove [of "U - set (visitedURLs s)" "url_of ?q" n] fin
      by (simp add: V Diff_insert2 [symmetric] insert_Diff_if set_diff_eq) (metis Diff_insert list.simps(15))
    then show ?thesis using W r by (simp add: crawl_measure_def)
  next
    case False
    then have "visitedURLs s' = visitedURLs s" "flying (world s') = flying (world s)" using st step Begin by auto
    then show ?thesis using W by (simp add: crawl_measure_def)
  qed
next
  case (Complete i)
  then have i: "i < length (flying (world s))" using step by (simp add: crawl_step_def split: if_splits)
  let ?k = "url_of (flying (world s) ! i)"
  note st = complete_step [OF set i flying_url(1,3,4) [OF set inv i]]
  then have V: "visitedURLs s' = visitedURLs s" and F: "flying (world s') = drop_nth i (flying (world s))"
    using step Complete by auto
  have "length (waiting (world s')) \<le> length (waiting (world s)) + n ?k"
    using st step Complete length_requests_of [of "newRequest env"]
    by (auto simp: n link_count_def split: option.splits)
  then show ?thesis
    using drop_nth_sum [OF i, of "\<lambda>r. 1 + 2 * n (url_of r)"] by (simp add: crawl_measure_def V F)
qed

lemma run_measure:
  assumes "crawl_setting env opt g links site urls good fetched" and "crawl_run env g links as s = Some s'"
    and "crawl_inv (newRequest env) opt (page_of env g site) links good fetched s"
    and "U = reachable_urls (newRequest env) opt (page_of env g site) links" and "finite U"
  shows "length as + crawl_measure (link_count (page_of env g site) links) U s'
    \<le> crawl_measure (link_count (page_of env g site) links) U s"
  using assms(2,3)
proof (induction rule: run_induct)
  case (step a as s s1 s')
  then have "crawl_inv (newRequest env) opt (page_of env g site) links good fetched s1"
    using step_inv [OF assms(1)] by blast
  with step step_measure [OF assms(1) step(4,1) refl assms(4,5)] show ?case by fastforce
qed simp

lemma start_measure:
  assumes "NewGeziyor opt = Some g" and "s = crawl_start http_New g w"
  shows "crawl_measure n U s \<le> 2 * (length (StartURLs opt) + (\<Sum>k\<in>U. n k))"
  using length_requests_of [of http_New "StartURLs opt"]
  by (simp add: crawl_measure_def crawl_start_state [OF assms])

lemma step_enabled:
  assumes "crawl_setting env opt g links site urls good fetched" and "crawl_inv (newRequest env) opt (page_of env g site) links good fetched s"
    and "waiting (world s) \<noteq> [] \<or> flying (world s) \<noteq> []"
  shows "\<exists>a s'. crawl_step env g links a s = Some (False, s')"
proof -
  obtain a c s' where step: "crawl_step env g links a s = Some (c, s')"
  proof (cases "waiting (world s) = []")
    case True
    then have "0 < length (flying (world s))" using assms(3) by simp
    from complete_step [OF assms(1) this flying_url(1,3,4) [OF assms(1,2) this]] show ?thesis
      using that by blast
  next
    case False
    then have "0 < length (waiting (world s))" by simp
    moreover from this have "ready (waiting (world s) ! 0)" using assms(2) nth_mem unfolding crawl_inv_def by blast
    ultimately show ?thesis using begin_step [OF assms(1)] that by blast
  qed
  then show ?thesis using step_inv [OF assms(1,2) step] by auto
qed

text \<open>C3: Every crawl of a site with finitely many reachable URLs ends: a run has at most two steps for
  every start URL and every link of a reachable page.\<close>

theorem crawl_terminates:
  assumes "crawl_setting env opt g links site urls good fetched" and "good w"
    and "finite (reachable_urls (newRequest env) opt (page_of env g site) links)"
    and "crawl_run env g links as (crawl_start (newRequest env) g w) = Some s"
  shows "length as \<le> 2 * (length (StartURLs opt)
    + (\<Sum>k\<in>reachable_urls (newRequest env) opt (page_of env g site) links.
        link_count (page_of env g site) links k))"
proof -
  have "NewGeziyor opt = Some g" using assms(1) by (simp add: crawl_setting_def standard_scraper_def)
  from le_trans [OF run_measure [OF assms(1,4) start_inv [OF assms(1,2)] refl assms(3)] start_measure [OF this refl]]
  show ?thesis by linarith
qed

lemma crawl_run_append:
  "crawl_run env g links (as @ bs) s = Option.bind (crawl_run env g links as s) (crawl_run env g links bs)"
  by (induction as arbitrary: s) (auto split: option.split bool.split)

lemma crawl_completes_from:
  assumes "crawl_setting env opt g links site urls good fetched"
    and "finite (reachable_urls (newRequest env) opt (page_of env g site) links)"
    and "crawl_inv (newRequest env) opt (page_of env g site) links good fetched s"
  shows "\<exists>as s'. crawl_run env g links as s = Some s' \<and> waiting (world s') = [] \<and> flying (world s') = []"
  using assms(3)
proof (induction "crawl_measure (link_count (page_of env g site) links)
    (reachable_urls (newRequest env) opt (page_of env g site) links) s" arbitrary: s rule: less_induct)
  case less
  show ?case
  proof (cases "waiting (world s) = [] \<and> flying (world s) = []")
    case True
    then have "crawl_run env g links [] s = Some s" by simp
    then show ?thesis using True by blast
  next
    case False
    then obtain a s1 where step: "crawl_step env g links a s = Some (False, s1)"
      using step_enabled [OF assms(1) less.prems] by blast
    from less.hyps [OF step_measure [OF assms(1) less.prems step refl refl assms(2)]]
      step_inv [OF assms(1) less.prems step]
    obtain as s' where "crawl_run env g links as s1 = Some s'" "waiting (world s') = []" "flying (world s') = []"
      by blast
    then have "crawl_run env g links (a # as) s = Some s'" using step by simp
    then show ?thesis using \<open>waiting (world s') = []\<close> \<open>flying (world s') = []\<close> by blast
  qed
qed

text \<open>Scrapers that follow the same links reach the same URLs.\<close>

lemma reachable_urls_cong:
  assumes "\<And>us. targets new1 opt1 us = targets new2 opt2 us" and "StartURLs opt1 = StartURLs opt2"
  shows "reachable_urls new1 opt1 page links = reachable_urls new2 opt2 page links"
proof -
  have sub: "reachable_urls new opt page links \<subseteq> reachable_urls new' opt' page links"
    if "\<And>us. targets new opt us = targets new' opt' us" "StartURLs opt = StartURLs opt'"
    for new :: "string \<Rightarrow> string \<Rightarrow> string \<Rightarrow> 'u + http_request" and opt :: "('v1, 'v2, 'v3, 'v4, 'v5) options"
      and new' :: "string \<Rightarrow> string \<Rightarrow> string \<Rightarrow> 'u2 + http_request" and opt' :: "('x1, 'x2, 'x3, 'x4, 'x5) options"
  proof
    fix k assume "k \<in> reachable_urls new opt page links"
    then show "k \<in> reachable_urls new' opt' page links"
      by induction (auto simp: that intro: reachable_urls.intros)
  qed
  show ?thesis using sub [of new1 opt1 new2 opt2] sub [of new2 opt2 new1 opt1] assms by auto
qed

section \<open>A small site\<close>

text \<open>Three pages that link to each other, to a host that is not allowed, and to a page that is missing.\<close>

definition small_site :: "string \<Rightarrow> http_response option" where
  "small_site u =
     (if u = ''http://a/'' then Some (mk_response ''200 OK'' 200 [] ''1'')
      else if u = ''http://a/x'' then Some (mk_response ''200 OK'' 200 [] ''2'') else None)"

definition small_links :: "string \<Rightarrow> string \<Rightarrow> string list" where
  "small_links u body = (if body = ''1'' then [''/x'', ''/out'', ''bad'', ''/x'', ''/404''] else [''/''])"

definition small_request :: "string \<Rightarrow> string \<Rightarrow> string \<Rightarrow> string + http_request" where
  "small_request meth u body =
     (if u = ''bad'' then Inl ''invalid URL''
      else Inr (mk_request meth (if u = ''/out'' then ''b'' else ''a'') u []))"

definition small_env :: "(string, (unit, unit) crawl_world, unit, unit, unit, unit, unit) env" where
  "small_env =
     \<lparr>ext = \<lparr>http_do = (\<lambda>q w. ((case small_site (URLString (URL q)) of
             None \<Rightarrow> Inl ''not found'' | Some resp \<Rightarrow> Inr (resp, q)), q, w)),
        charset_Lookup = (\<lambda>e. None), charset_NewReader = (\<lambda>r ct. Inr r),
        chrome_Run = (\<lambda>a acts w. (Inl ''no chrome'', w)),
        url_Parse = (\<lambda>s. \<lparr>Scheme = ''http'', URLHost = [], Path = s, URLString = s\<rparr>)\<rparr>,
      newRequest = small_request, fromStatus = (\<lambda>c b. None), testAgent = (\<lambda>d p a. True),
      randIntn = (\<lambda>n. 0), newDocument = (\<lambda>b. Inr ()), customReq = (\<lambda>m r s. (False, r, s)),
      customRes = (\<lambda>m r s. (False, r, s)), ErrorFunc = None, ParseFunc = None,
      show_error = (\<lambda>e. ''error'')\<rparr>"

definition small_options :: "(unit, unit, unit, unit, unit) options" where
  "small_options = (example_opt 0)\<lparr>StartURLs := [''/''], MaxBodySize' := 100\<rparr>"

definition small_scraper :: "(unit, unit, unit, unit, unit) geziyor" where
  "small_scraper = the (NewGeziyor small_options)"

interpretation small: steady_net "ext small_env" small_site UNIV "\<lambda>n. True" "\<lambda>n. UNIV"
proof
  fix q and w :: "(unit, unit) crawl_world"
  assume "plain_get q"
  moreover have "w = w\<lparr>net := net w\<rparr>" by simp
  ultimately show "\<exists>result q' n'. http_do (ext small_env) q w = (result, q', w\<lparr>net := n'\<rparr>) \<and> True
      \<and> insert (URLString (URL q)) UNIV \<subseteq> UNIV \<and> plain_get q' \<and> URL q' = URL q
      \<and> (case small_site (URLString (URL q)) of
           None \<Rightarrow> \<exists>err. result = Inl err
         | Some page \<Rightarrow> \<exists>resp answered. result = Inr (resp, answered) \<and> same_page page resp \<and> Method answered = ''GET'')"
    by (auto simp: small_env_def plain_get_def same_page_def split: option.split)
qed

lemma small_setting:
  "crawl_setting small_env small_options small_scraper small_links small_site UNIV (\<lambda>n. True) (\<lambda>n. UNIV)"
proof -
  have "NewGeziyor small_options \<noteq> None" by (simp add: NewGeziyor_def Let_def small_options_def)
  then show ?thesis using small.steady_net_axioms
    by (auto simp: crawl_setting_def standard_scraper_def small_scraper_def makes_gets_def small_options_def
        example_opt_def small_env_def small_request_def split: if_splits)
qed

text \<open>Its pages, and what can be reached.\<close>

definition small_pages :: "string \<Rightarrow> string option" where
  "small_pages = [''http://a/'' \<mapsto> ''1'', ''http://a/x'' \<mapsto> ''2'']"

lemma small_pages_simps:
  "small_pages ''http://a/'' = Some ''1''" "small_pages ''http://a/x'' = Some ''2''"
  "small_pages ''http://a/404'' = None"
  by (simp_all add: small_pages_def)

lemma small_StartURLs: "StartURLs small_options = [''/'']"
  by (simp add: small_options_def)

lemma small_page: "page_of small_env small_scraper small_site = small_pages"
proof
  fix k
  obtain g where g: "NewGeziyor small_options = Some g" "small_scraper = g"
    using small_setting by (auto simp: crawl_setting_def standard_scraper_def)
  have "MaxBodySize (scraper_options_of small_scraper) = 100"
    "CharsetDetectDisabled (scraper_options_of small_scraper) = True"
    by (simp_all add: g NewGeziyor_sel [OF g(1)] new_client_def NewClient_def default_options_def
        small_options_def example_opt_def DefaultMaxBody_def Let_def)
  then show "page_of small_env small_scraper small_site k = small_pages k"
    by (simp add: site_page_def small_site_def decode_body_def blank_request_def LimitReader_def ReadAll_def small_pages_def)
qed

abbreviation small_reachable :: "string set" where
  "small_reachable \<equiv> reachable_urls small_request small_options small_pages small_links"

lemma small_targets:
  "targets small_request small_options us =
     {''http://a'' @ u | u. u \<in> set us \<and> u \<noteq> ''bad'' \<and> u \<noteq> ''/out''}"
  by (auto simp: targets_def small_request_def mk_request_def host_allowed_def small_options_def
      example_opt_def split: if_splits)

lemma small_reachable: "small_reachable = {''http://a/'', ''http://a/x'', ''http://a/404''}"
proof
  show "small_reachable \<subseteq> {''http://a/'', ''http://a/x'', ''http://a/404''}"
  proof
    fix k assume "k \<in> small_reachable"
    then show "k \<in> {''http://a/'', ''http://a/x'', ''http://a/404''}"
      by induction (auto simp: small_targets small_StartURLs small_links_def small_pages_simps split: if_splits)
  qed
  have start: "''http://a/'' \<in> small_reachable"
    by (rule reachable_urls.start) (simp add: small_targets small_StartURLs)
  then show "{''http://a/'', ''http://a/x'', ''http://a/404''} \<subseteq> small_reachable"
    by (auto intro!: reachable_urls.link [OF start, where body = "''1''"] simp: small_pages_simps small_targets small_links_def)
qed

lemma small_newRequest [simp]: "newRequest small_env = small_request"
  by (simp add: small_env_def)

theorem crawl_visits_reachable_witness:
  "\<exists>as s. crawl_run small_env small_scraper small_links as (crawl_start small_request small_scraper ()) = Some s
    \<and> set (visitedURLs s) = {''http://a/'', ''http://a/x'', ''http://a/404''}
    \<and> distinct (parsed (world s)) \<and> set (parsed (world s)) = {''http://a/'', ''http://a/x''}"
proof -
  have "finite small_reachable" by (simp add: small_reachable)
  then have "finite (reachable_urls (newRequest small_env) small_options (page_of small_env small_scraper small_site) small_links)"
    by (simp add: small_page)
  then obtain as s where run: "crawl_run small_env small_scraper small_links as
      (crawl_start (newRequest small_env) small_scraper ()) = Some s"
    "waiting (world s) = []" "flying (world s) = []"
    using crawl_completes_from [OF small_setting _ start_inv [OF small_setting TrueI]] by blast
  have "{k \<in> small_reachable. small_pages k \<noteq> None} = {''http://a/'', ''http://a/x''}"
    unfolding small_reachable by (auto simp: small_pages_simps)
  with crawl_visits_reachable [OF small_setting TrueI run]
  have "set (visitedURLs s) = {''http://a/'', ''http://a/x'', ''http://a/404''}
    \<and> distinct (parsed (world s)) \<and> set (parsed (world s)) = {''http://a/'', ''http://a/x''}"
    unfolding small_newRequest small_page small_reachable by presburger
  with run(1) show ?thesis unfolding small_newRequest by (intro exI conjI) (assumption, simp_all)
qed

theorem crawl_terminates_witness:
  "{as. crawl_run small_env small_scraper small_links as (crawl_start small_request small_scraper ()) \<noteq> None}
    \<subseteq> {as. length as \<le> 14}"
proof
  fix as
  assume "as \<in> {as. crawl_run small_env small_scraper small_links as (crawl_start small_request small_scraper ()) \<noteq> None}"
  then obtain s where "crawl_run small_env small_scraper small_links as
      (crawl_start (newRequest small_env) small_scraper ()) = Some s" by auto
  from crawl_terminates [OF small_setting TrueI _ this] show "as \<in> {as. length as \<le> 14}"
    by (simp add: small_reachable small_page link_count_def small_links_def small_StartURLs small_pages_simps)
qed

text \<open>One of its schedules: the missing page is asked for while another page is in flight.\<close>

definition small_schedule :: "crawl_action list" where
  "small_schedule = [Begin 0, Complete 0, Begin 1, Begin 0, Begin 1, Complete 1, Complete 0, Begin 0, Begin 0]"

lemma small_run:
  "map_option (\<lambda>s. (waiting (world s), flying (world s), parsed (world s), visitedURLs s))
     (crawl_run small_env small_scraper small_links small_schedule (crawl_start small_request small_scraper ()))
   = Some ([], [], [''http://a/'', ''http://a/x''], [''http://a/404'', ''http://a/x'', ''http://a/''])"
  by code_simp

end
