(* ===== verification/Http_Client.thy ===== *)
theory Http_Client
  imports Engine_Laws Transport_Laws
begin

text \<open>
  \<open>http.Client.Do\<close> of Go's library, which the client of the scraper embeds and \<open>doRequestClient\<close> calls:
  cookies, redirects, and \<open>CheckRedirect\<close> as \<open>NewGeziyor\<close> sets it. It is one more way to fill in the
  field \<open>http_do\<close> of \<open>external\<close>, over any transport.
\<close>

section \<open>The loop of requests\<close>

text \<open>
  The parts of \<open>net/http\<close> and \<open>net/url\<close> it rests on: the cookie jar, the resolution of a Location, the
  header of a redirected request (which cookies and sensitive headers it keeps, the referer), the
  copy of a body that can be sent again, and how much of a body a transport leaves unread.
\<close>

record ('e, 'j) net_http =
  jarCookies :: "'j \<Rightarrow> url \<Rightarrow> string list"
  jarSetCookies :: "'j \<Rightarrow> url \<Rightarrow> header \<Rightarrow> 'j"
  ParseRef :: "url \<Rightarrow> string \<Rightarrow> 'e + url"
  relativeRef :: "string \<Rightarrow> bool"
  redirectHeader :: "http_request list \<Rightarrow> http_response \<Rightarrow> url \<Rightarrow> header"
  GetBody :: "http_request \<Rightarrow> string option"
  bodyLeft :: "http_request \<Rightarrow> string"

definition AddCookie :: "header \<Rightarrow> string \<Rightarrow> header" where
  "AddCookie h c =
     (let old = header_get h ''Cookie''
      in header_set h ''Cookie'' (if old \<noteq> [] then old @ ''; '' @ c else c))"

text \<open>\<open>Client.send\<close>: the cookies of the jar go into the header of the request that is passed in.\<close>

definition client_send ::
  "('e, 'j) net_http \<Rightarrow> bool \<Rightarrow> ('e, 'w) round_tripper \<Rightarrow> http_request \<Rightarrow> 'j \<times> 'w \<Rightarrow>
   ('e + http_response) \<times> http_request \<times> 'j \<times> 'w" where
  "client_send nh useJar rt req jw =
     (let j = fst jw;
          req1 = (if useJar
                  then req\<lparr>ReqHeader := foldl AddCookie (ReqHeader req) (jarCookies nh j (URL req))\<rparr> else req);
          (answer, w') = rt req1 (snd jw);
          j' = (case answer of Inl err \<Rightarrow> j
                | Inr resp \<Rightarrow> if useJar then jarSetCookies nh j (URL req) (Header resp) else j)
      in (answer, req1\<lparr>ReqBody := bodyLeft nh req1\<rparr>, j', w'))"

text \<open>The method of the next request, whether there is one, and whether it has the body again.\<close>

definition redirectBehavior :: "string \<Rightarrow> int \<Rightarrow> bool \<Rightarrow> string \<times> bool \<times> bool" where
  "redirectBehavior reqMethod code resendable =
     (if code \<in> {301, 302, 303} then
        (if reqMethod \<noteq> ''GET'' \<and> reqMethod \<noteq> ''HEAD'' then ''GET'' else reqMethod, True, False)
      else if code \<in> {307, 308} then (reqMethod, resendable, True) else (reqMethod, False, False))"

datatype 'e do_error = SendError 'e | LocationError 'e | RedirectError string

text \<open>Without a handler of the user's, ten requests are the limit too.\<close>

definition check_redirect :: "int option \<Rightarrow> http_request list \<Rightarrow> string option" where
  "check_redirect limit = NewRedirectionHandler (case limit of None \<Rightarrow> 10 | Some n \<Rightarrow> n)"

text \<open>
  What the loop makes of a response: it is the answer, or its Location cannot be parsed, or another
  request is due. \<open>ireq\<close> is the request of the caller before it was sent, \<open>via\<close> the requests sent so far,
  of which \<open>req\<close> was the last.
\<close>

datatype 'e redirection = Final | BadLocation 'e | Follow http_request

definition redirection_of ::
  "('e, 'j) net_http \<Rightarrow> http_request \<Rightarrow> http_request list \<Rightarrow> http_request \<Rightarrow> http_response \<Rightarrow> 'e redirection" where
  "redirection_of nh ireq via req resp =
     (let (meth, shouldRedirect, includeBody) =
            redirectBehavior (Method req) (StatusCode resp) (GetBody nh ireq \<noteq> None \<or> ReqBody ireq = []);
          loc = header_get (Header resp) ''Location''
      in if \<not> shouldRedirect \<or> loc = [] then Final
         else (case ParseRef nh (URL req) loc of
                 Inl err \<Rightarrow> BadLocation err
               | Inr u \<Rightarrow> Follow
                   \<lparr>Method = meth, URL = u,
                    RHost = (if RHost req \<noteq> [] \<and> RHost req \<noteq> URLHost (URL req) \<and> relativeRef nh loc
                             then RHost req else []),
                    ReqHeader = redirectHeader nh via resp u,
                    ReqBody = (if includeBody
                               then (case GetBody nh ireq of None \<Rightarrow> [] | Some b \<Rightarrow> b) else [])\<rparr>))"

text \<open>The result is the answer with the request it belongs to, and all requests sent.\<close>

function http_loop ::
  "('e, 'j) net_http \<Rightarrow> int option \<Rightarrow> bool \<Rightarrow> ('e, 'w) round_tripper \<Rightarrow> http_request \<Rightarrow>
   http_request list \<Rightarrow> http_request \<Rightarrow> 'j \<times> 'w \<Rightarrow>
   ('e do_error + http_response \<times> http_request) \<times> http_request list \<times> 'j \<times> 'w" where
  "http_loop nh limit useJar rt ireq via req jw =
     (case client_send nh useJar rt req jw of (answer, req1, jw') \<Rightarrow>
        (let via' = via @ [req1]
         in case answer of
              Inl err \<Rightarrow> (Inl (SendError err), via', jw')
            | Inr resp \<Rightarrow>
                (case redirection_of nh ireq via' req resp of
                   Final \<Rightarrow> (Inr (resp, req1), via', jw')
                 | BadLocation err \<Rightarrow> (Inl (LocationError err), via', jw')
                 | Follow req2 \<Rightarrow>
                     (case check_redirect limit via' of
                        Some msg \<Rightarrow> (Inl (RedirectError msg), via', jw')
                      | None \<Rightarrow> http_loop nh limit useJar rt ireq via' req2 jw'))))"
  by pat_completeness auto
termination
  by (relation "measure (\<lambda>(nh, limit, useJar, rt, ireq, via, req, jw).
        nat ((case limit of None \<Rightarrow> 10 | Some n \<Rightarrow> n) - int (length via)))")
    (auto simp: check_redirect_def NewRedirectionHandler_def split: if_splits)

declare http_loop.simps [simp del]

text \<open>\<open>Client.Do\<close>: the answer, the caller's request as it is afterwards, and the jar and the network.\<close>

definition http_client_Do ::
  "('e, 'j) net_http \<Rightarrow> int option \<Rightarrow> bool \<Rightarrow> ('e, 'w) round_tripper \<Rightarrow> http_request \<Rightarrow> 'j \<times> 'w \<Rightarrow>
   ('e do_error + http_response \<times> http_request) \<times> http_request \<times> 'j \<times> 'w" where
  "http_client_Do nh limit useJar rt req jw =
     (case http_loop nh limit useJar rt req [] req jw of (result, via, jw') \<Rightarrow> (result, hd via, jw'))"

section \<open>How many requests are sent\<close>

abbreviation redirect_bound :: "int option \<Rightarrow> int" where
  "redirect_bound limit \<equiv> max 1 (case limit of None \<Rightarrow> 10 | Some n \<Rightarrow> n)"

definition counts_trips :: "('e, 'w) round_tripper \<Rightarrow> ('w \<Rightarrow> nat) \<Rightarrow> bool" where
  "counts_trips rt cnt \<longleftrightarrow> (\<forall>q w. cnt (snd (rt q w)) = Suc (cnt w))"

lemma client_send_counts:
  "counts_trips rt cnt \<Longrightarrow> client_send nh useJar rt req jw = (answer, req1, jw') \<Longrightarrow>
   cnt (snd jw') = Suc (cnt (snd jw))"
  by (cases "rt (if useJar
        then req\<lparr>ReqHeader := foldl AddCookie (ReqHeader req) (jarCookies nh (fst jw) (URL req))\<rparr> else req) (snd jw)")
    (auto simp: client_send_def counts_trips_def Let_def split: prod.splits, metis snd_conv)

text \<open>The induction over a finished run: one request at the end, or one that is redirected.\<close>

lemma redirection_code: "redirection_of nh ireq via req resp \<noteq> Final \<Longrightarrow> StatusCode resp \<in> {301, 302, 303, 307, 308}"
  by (auto simp: redirection_of_def redirectBehavior_def Let_def split: if_splits)

lemma http_loop_run_induct [consumes 1, case_names stop redirect]:
  assumes "http_loop nh limit useJar rt ireq via req jw = (result, via', jw')"
    and "\<And>via req jw answer req1 jw1 result. client_send nh useJar rt req jw = (answer, req1, jw1) \<Longrightarrow>
      (\<And>resp. answer = Inr resp \<Longrightarrow> StatusCode resp \<notin> {301, 302, 303, 307, 308} \<Longrightarrow> result = Inr (resp, req1)) \<Longrightarrow>
      P via req jw result (via @ [req1]) jw1"
    and "\<And>via req jw resp req1 jw1 req2 result via' jw'. client_send nh useJar rt req jw = (Inr resp, req1, jw1) \<Longrightarrow>
      redirection_of nh ireq (via @ [req1]) req resp = Follow req2 \<Longrightarrow> check_redirect limit (via @ [req1]) = None \<Longrightarrow>
      P (via @ [req1]) req2 jw1 result via' jw' \<Longrightarrow> P via req jw result via' jw'"
  shows "P via req jw result via' jw'"
  using assms(1)
proof (induction "nat ((case limit of None \<Rightarrow> 10 | Some n \<Rightarrow> n) - int (length via))"
    arbitrary: via req jw rule: less_induct)
  case less
  obtain answer req1 jw1 where send: "client_send nh useJar rt req jw = (answer, req1, jw1)"
    by (metis surj_pair)
  let ?via = "via @ [req1]"
  note run = less.prems [unfolded http_loop.simps [of _ _ _ _ _ via] send, simplified, unfolded Let_def]
  have measure: "nat ((case limit of None \<Rightarrow> 10 | Some n \<Rightarrow> n) - int (length ?via))
      < nat ((case limit of None \<Rightarrow> 10 | Some n \<Rightarrow> n) - int (length via))" if "check_redirect limit ?via = None"
    using that by (auto simp: check_redirect_def NewRedirectionHandler_def split: if_splits)
  show ?case
  proof (cases "\<exists>resp req2. answer = Inr resp \<and> redirection_of nh ireq ?via req resp = Follow req2
      \<and> check_redirect limit ?via = None")
    case True
    then obtain resp req2 where go: "answer = Inr resp" "redirection_of nh ireq ?via req resp = Follow req2"
      "check_redirect limit ?via = None" by blast
    then have "http_loop nh limit useJar rt ireq ?via req2 jw1 = (result, via', jw')" using run by simp
    from less.hyps [OF measure [OF go(3)] this] show ?thesis
      by (rule assms(3) [OF send [unfolded go(1)] go(2,3)])
  next
    case False
    then have "via' = ?via" "jw' = jw1"
      using run by (auto split: sum.splits redirection.splits option.splits)
    moreover have "result = Inr (resp, req1)" if "answer = Inr resp" "StatusCode resp \<notin> {301, 302, 303, 307, 308}" for resp
      using run that redirection_code [of nh ireq ?via req resp] by (auto split: redirection.splits)
    ultimately show ?thesis using assms(2) [OF send, of result via] by simp
  qed
qed

lemma http_loop_counts:
  assumes "http_loop nh limit useJar rt ireq via req jw = (result, via', jw')" and "counts_trips rt cnt"
    and "int (length via) < redirect_bound limit"
  shows "length via < length via' \<and> int (length via') \<le> redirect_bound limit
    \<and> cnt (snd jw') = cnt (snd jw) + (length via' - length via)"
  using assms(1,3)
proof (induction rule: http_loop_run_induct)
  case (stop via req jw answer req1 jw1 result)
  then show ?case using client_send_counts [OF assms(2) stop(1)] by simp
next
  case (redirect via req jw resp req1 jw1 req2 result via' jw')
  have "int (length (via @ [req1])) < redirect_bound limit"
    using redirect(3) by (auto simp: check_redirect_def NewRedirectionHandler_def split: if_splits)
  from redirect(4) [OF this] show ?case using client_send_counts [OF assms(2) redirect(1)] by auto
qed

lemma http_client_Do_counts:
  assumes "counts_trips rt cnt" and "http_client_Do nh limit useJar rt req jw = (result, req', jw')"
  shows "cnt (snd jw) < cnt (snd jw') \<and> int (cnt (snd jw')) \<le> int (cnt (snd jw)) + redirect_bound limit"
proof -
  obtain via where "http_loop nh limit useJar rt req [] req jw = (result, via, jw')"
    using assms(2) by (auto simp: http_client_Do_def split: prod.splits)
  from http_loop_counts [OF this assms(1)] show ?thesis by simp
qed

section \<open>Retries and redirects together\<close>

lemma send_http_client:
  assumes "http_do outside = http_client_Do nh limit useJar rt" and "counts_trips rt cnt" and "\<not> Rendered r"
    and "send outside copt r jw = (out, r', jw')"
  shows "\<not> Rendered r' \<and> int (cnt (snd jw')) \<le> int (cnt (snd jw)) + redirect_bound limit"
proof -
  obtain result q' jw1 where run: "http_do outside (HTTP r) jw = (result, q', jw1)" by (metis surj_pair)
  then have "jw' = jw1 \<and> \<not> Rendered r'"
    using assms(3,4) by (auto simp: send_def doRequestClient_def Let_def split: sum.splits option.splits)
  then show ?thesis using http_client_Do_counts [OF assms(2)] run assms(1) by metis
qed

text \<open>C17: A request of the scraper costs at most (retries + 1) times (redirect limit) exchanges on the
  network, where the limit is \<open>MaxRedirect\<close>, but at least 1, and 10 if it is not set.\<close>

theorem scraper_network_bound:
  assumes "NewGeziyor opt = Some g"
    and "http_do outside = http_client_Do nh (CheckRedirect (Client' g)) (Jar (Client' g)) rt"
    and "counts_trips rt cnt" and "\<not> Rendered r"
    and "DoRequest outside (snd (base (Client' g))) r jw = (out, r', jw')"
  shows "int (cnt (snd jw')) \<le> int (cnt (snd jw))
    + (1 + max 0 ((if RetryTimes' opt = 0 then 2 else RetryTimes' opt) - retryCounter r))
      * (if MaxRedirect opt = 0 then 10 else max 1 (MaxRedirect opt))"
proof -
  let ?copt = "snd (base (Client' g))" and ?bound = "redirect_bound (CheckRedirect (Client' g))"
  have "int (cnt (snd jw')) \<le> int (cnt (snd jw)) + (1 + (retryCounter r' - retryCounter r)) * ?bound
    \<and> retryCounter r \<le> retryCounter r' \<and> retryCounter r' \<le> max (retryCounter r) (RetryTimes ?copt)"
    using assms(5,4)
  proof (induction rule: DoRequest_run_induct)
    case (last r jw o1 r1 jw1)
    then show ?case using send_http_client [OF assms(2,3) last(3,1)] send_retryCounter [OF last(1)] by simp
  next
    case (retry r jw o1 r1 jw1 out r' jw')
    note send = send_http_client [OF assms(2,3) retry(4,1)]
    then have "\<not> Rendered (r1\<lparr>retryCounter := retryCounter r1 + 1\<rparr>)" by simp
    from retry(3) [OF this] send retry(2) send_retryCounter [OF retry(1)] show ?case
      by (auto simp: retries_def algebra_simps)
  qed
  moreover have "RetryTimes ?copt = (if RetryTimes' opt = 0 then 2 else RetryTimes' opt)"
    "?bound = (if MaxRedirect opt = 0 then 10 else max 1 (MaxRedirect opt))"
    by (simp_all add: NewGeziyor_sel(4) [OF assms(1)] new_client_def NewClient_def default_options_def
        DefaultRetryTimes_def Let_def)
  moreover have "(1 + (retryCounter r' - retryCounter r)) * ?bound
      \<le> (1 + max 0 (RetryTimes ?copt - retryCounter r)) * ?bound"
    using calculation(1) by (intro mult_right_mono) auto
  ultimately show ?thesis by simp
qed

section \<open>Cookies\<close>

text \<open>The Cookie header after the given cookies have been added to it, one after the other.\<close>

definition add_cookies :: "string \<Rightarrow> string list \<Rightarrow> string" where
  "add_cookies old cs = foldl (\<lambda>h c. if h \<noteq> [] then h @ ''; '' @ c else c) old cs"

lemma AddCookie_get: "header_get (AddCookie h c) ''Cookie'' = add_cookies (header_get h ''Cookie'') [c]"
  by (simp add: AddCookie_def add_cookies_def Let_def)

lemma AddCookies_get: "header_get (foldl AddCookie h cs) ''Cookie'' = add_cookies (header_get h ''Cookie'') cs"
  by (induction cs arbitrary: h) (simp_all add: AddCookie_get, simp_all add: add_cookies_def)

lemma add_cookies_append: "add_cookies (add_cookies old cs) cs' = add_cookies old (cs @ cs')"
  by (simp add: add_cookies_def)

text \<open>
  A network whose answers may depend on all it was sent before, and that never redirects; and the jar after
  the answers to the given requests.
\<close>

definition recorded ::
  "(http_request list \<Rightarrow> http_request \<Rightarrow> 'e + http_response) \<Rightarrow> ('e, http_request list) round_tripper" where
  "recorded answer req log = (answer log req, log @ [req])"

definition no_redirects :: "(http_request list \<Rightarrow> http_request \<Rightarrow> 'e + http_response) \<Rightarrow> bool" where
  "no_redirects answer \<longleftrightarrow>
     (\<forall>log q resp. answer log q = Inr resp \<longrightarrow> StatusCode resp \<notin> {301, 302, 303, 307, 308})"

definition jar_step ::
  "('e, 'j) net_http \<Rightarrow> (http_request list \<Rightarrow> http_request \<Rightarrow> 'e + http_response) \<Rightarrow> http_request list \<Rightarrow>
   'j \<Rightarrow> http_request \<Rightarrow> 'j" where
  "jar_step nh answer log j q =
     (case answer log q of Inl err \<Rightarrow> j | Inr resp \<Rightarrow> jarSetCookies nh j (URL q) (Header resp))"

fun jar_after ::
  "('e, 'j) net_http \<Rightarrow> (http_request list \<Rightarrow> http_request \<Rightarrow> 'e + http_response) \<Rightarrow> http_request list \<Rightarrow>
   'j \<Rightarrow> http_request list \<Rightarrow> 'j" where
  "jar_after nh answer log j [] = j"
| "jar_after nh answer log j (q # qs) = jar_after nh answer (log @ [q]) (jar_step nh answer log j q) qs"

definition with_cookies :: "('e, 'j) net_http \<Rightarrow> 'j \<Rightarrow> http_request \<Rightarrow> http_request" where
  "with_cookies nh j q = q\<lparr>ReqHeader := foldl AddCookie (ReqHeader q) (jarCookies nh j (URL q))\<rparr>"

lemma with_cookies_sel [simp]:
  "URL (with_cookies nh j q) = URL q"
  "header_get (ReqHeader (with_cookies nh j q)) ''Cookie'' =
     add_cookies (header_get (ReqHeader q) ''Cookie'') (jarCookies nh j (URL q))"
  by (simp_all add: with_cookies_def AddCookies_get)

lemma Do_without_redirects:
  assumes "no_redirects answer"
  shows "\<exists>result. http_client_Do nh limit True (recorded answer) q (j, log) =
    (result, (with_cookies nh j q)\<lparr>ReqBody := bodyLeft nh (with_cookies nh j q)\<rparr>,
     jar_step nh answer log j (with_cookies nh j q), log @ [with_cookies nh j q])"
proof -
  let ?q = "with_cookies nh j q"
  show ?thesis
  proof (cases "answer log ?q")
    case (Inl err)
    then show ?thesis
      by (simp add: http_client_Do_def http_loop.simps client_send_def recorded_def jar_step_def
          with_cookies_def [symmetric] Let_def)
  next
    case (Inr resp)
    then have "redirection_of nh q [?q\<lparr>ReqBody := bodyLeft nh ?q\<rparr>] q resp = Final"
      using assms redirection_code [of nh q "[?q\<lparr>ReqBody := bodyLeft nh ?q\<rparr>]" q resp]
      by (auto simp: no_redirects_def)
    then show ?thesis using Inr
      by (simp add: http_client_Do_def http_loop.simps client_send_def recorded_def jar_step_def
          with_cookies_def [symmetric] Let_def)
  qed
qed

lemma send_with_cookies:
  assumes "http_do outside = http_client_Do nh limit True (recorded answer)" and "no_redirects answer"
    and "\<not> Rendered r" and "send outside copt r (j, log) = (o1, r1, jw1)"
  shows "jw1 = (jar_step nh answer log j (with_cookies nh j (HTTP r)), log @ [with_cookies nh j (HTTP r)])
    \<and> ReqHeader (HTTP r1) = ReqHeader (with_cookies nh j (HTTP r)) \<and> URL (HTTP r1) = URL (HTTP r) \<and> \<not> Rendered r1"
  using Do_without_redirects [OF assms(2), of nh limit "HTTP r" j log] assms(3,4)
  by (auto simp: send_def doRequestClient_def assms(1) Let_def split: sum.splits option.splits)

text \<open>C18: A retry sends the same request again, to whose header every attempt has added the cookies of the jar:
  on a site that does not redirect, the \<open>n\<close>-th attempt sends the request's own cookies, and then those
  the jar had for the URL at the first, the second, up to the \<open>n\<close>-th attempt, whatever the answers do to the
  jar in between; a cookie that stays in the jar is sent \<open>n\<close> times.\<close>

theorem retries_repeat_cookies:
  assumes "http_do outside = http_client_Do nh limit True (recorded answer)" and "no_redirects answer"
    and "\<not> Rendered r" and "DoRequest outside copt r (j, log) = (out, r', jw')"
  shows "\<exists>qs. snd jw' = log @ qs \<and> int (length qs) = 1 + (retryCounter r' - retryCounter r)
    \<and> (\<forall>n<length qs. header_get (ReqHeader (qs ! n)) ''Cookie'' =
         add_cookies (header_get (ReqHeader (HTTP r)) ''Cookie'')
           (concat (map (\<lambda>i. jarCookies nh (jar_after nh answer log j (take i qs)) (URL (HTTP r))) [0..<Suc n])))"
proof -
  have "\<forall>j log. jw = (j, log) \<longrightarrow> (\<exists>qs. snd jw' = log @ qs \<and> int (length qs) = 1 + (retryCounter r' - retryCounter r)
    \<and> (\<forall>n<length qs. header_get (ReqHeader (qs ! n)) ''Cookie'' =
         add_cookies (header_get (ReqHeader (HTTP r)) ''Cookie'')
           (concat (map (\<lambda>i. jarCookies nh (jar_after nh answer log j (take i qs)) (URL (HTTP r))) [0..<Suc n]))))"
    if "DoRequest outside copt r jw = (out, r', jw')" "\<not> Rendered r" for r jw out r' jw'
    using that
  proof (induction rule: DoRequest_run_induct)
    case (last r jw o1 r1 jw1)
    show ?case
    proof (intro allI impI)
      fix j log assume jw: "jw = (j, log)"
      note send = send_with_cookies [OF assms(1,2) last(3) last(1) [unfolded jw]]
      show "\<exists>qs. snd jw1 = log @ qs \<and> int (length qs) = 1 + (retryCounter r1 - retryCounter r)
        \<and> (\<forall>n<length qs. header_get (ReqHeader (qs ! n)) ''Cookie'' =
             add_cookies (header_get (ReqHeader (HTTP r)) ''Cookie'')
               (concat (map (\<lambda>i. jarCookies nh (jar_after nh answer log j (take i qs)) (URL (HTTP r))) [0..<Suc n])))"
        using send send_retryCounter [OF last(1)]
        by (intro exI [of _ "[with_cookies nh j (HTTP r)]"]) simp
    qed
  next
    case (retry r jw o1 r1 jw1 out r' jw')
    show ?case
    proof (intro allI impI)
      fix j log assume jw: "jw = (j, log)"
      let ?q = "with_cookies nh j (HTTP r)"
      let ?j = "jar_step nh answer log j ?q"
      note send = send_with_cookies [OF assms(1,2) retry(4) retry(1) [unfolded jw]]
      then have jw1: "jw1 = (?j, log @ [?q])" by simp
      have "\<not> Rendered (r1\<lparr>retryCounter := retryCounter r1 + 1\<rparr>)" using send by simp
      from retry(3) [OF this] jw1 obtain qs where qs: "snd jw' = (log @ [?q]) @ qs"
        "int (length qs) = 1 + (retryCounter r' - (retryCounter r1 + 1))"
        and cookies: "\<And>n. n < length qs \<Longrightarrow> header_get (ReqHeader (qs ! n)) ''Cookie'' =
          add_cookies (header_get (ReqHeader (HTTP r1)) ''Cookie'')
            (concat (map (\<lambda>i. jarCookies nh (jar_after nh answer (log @ [?q]) ?j (take i qs)) (URL (HTTP r1))) [0..<Suc n]))"
        by auto
      have "header_get (ReqHeader ((?q # qs) ! n)) ''Cookie'' =
          add_cookies (header_get (ReqHeader (HTTP r)) ''Cookie'')
            (concat (map (\<lambda>i. jarCookies nh (jar_after nh answer log j (take i (?q # qs))) (URL (HTTP r))) [0..<Suc n]))"
        if "n < length (?q # qs)" for n
      proof (cases n)
        case (Suc m)
        then have "header_get (ReqHeader ((?q # qs) ! n)) ''Cookie'' =
            add_cookies (add_cookies (header_get (ReqHeader (HTTP r)) ''Cookie'') (jarCookies nh j (URL (HTTP r))))
              (concat (map (\<lambda>i. jarCookies nh (jar_after nh answer (log @ [?q]) ?j (take i qs)) (URL (HTTP r))) [0..<Suc m]))"
          using cookies [of m] that send by (simp del: upt_Suc)
        then show ?thesis unfolding Suc upt_rec [of 0 "Suc (Suc m)"] map_Suc_upt [symmetric]
          by (simp add: add_cookies_append comp_def del: upt_Suc)
      qed simp
      then show "\<exists>qs. snd jw' = log @ qs \<and> int (length qs) = 1 + (retryCounter r' - retryCounter r)
        \<and> (\<forall>n<length qs. header_get (ReqHeader (qs ! n)) ''Cookie'' =
             add_cookies (header_get (ReqHeader (HTTP r)) ''Cookie'')
               (concat (map (\<lambda>i. jarCookies nh (jar_after nh answer log j (take i qs)) (URL (HTTP r))) [0..<Suc n])))"
        using qs send_retryCounter [OF retry(1)] by (intro exI [of _ "?q # qs"]) simp
    qed
  qed
  from this [OF assms(4,3)] show ?thesis by blast
qed

section \<open>Examples\<close>

text \<open>A jar that always has one cookie, and a site that redirects to another host.\<close>

definition example_net :: "(string, unit) net_http" where
  "example_net =
     \<lparr>jarCookies = (\<lambda>j u. [''a=1'']), jarSetCookies = (\<lambda>j u h. j),
      ParseRef = (\<lambda>u loc. Inr \<lparr>Scheme = ''http'', URLHost = ''b'', Path = loc, URLString = ''http://b'' @ loc\<rparr>),
      relativeRef = (\<lambda>loc. False), redirectHeader = (\<lambda>via resp u. []), GetBody = (\<lambda>q. None),
      bodyLeft = (\<lambda>q. [])\<rparr>"

definition redirecting_site :: "http_request \<Rightarrow> string + http_response" where
  "redirecting_site q =
     (if URLHost (URL q) = ''a'' then Inr (mk_response ''302 Found'' 302 [(''Location'', [''/x''])] [])
      else Inr (mk_response ''200 OK'' 200 [] ''page of b''))"

definition example_outside ::
  "int option \<Rightarrow> bool \<Rightarrow> (http_request \<Rightarrow> string + http_response) \<Rightarrow>
   (string do_error, unit \<times> http_request list, unit) external" where
  "example_outside limit useJar answer =
     \<lparr>http_do = http_client_Do example_net limit useJar (logged answer),
      charset_Lookup = (\<lambda>e. None), charset_NewReader = (\<lambda>r ct. Inr r),
      chrome_Run = (\<lambda>a acts w. (Inl (SendError ''no chrome''), w)),
      url_Parse = (\<lambda>s. \<lparr>Scheme = ''http'', URLHost = [], Path = s, URLString = s\<rparr>)\<rparr>"

lemma logged_counts: "counts_trips (logged answer) length"
  by (simp add: counts_trips_def logged_def)

theorem scraper_network_bound_witness:
  "\<exists>g. NewGeziyor ((example_opt 0)\<lparr>MaxRedirect := 2\<rparr>) = Some g
    \<and> length (snd (snd (snd (DoRequest (example_outside (Some 2) False redirecting_site) (snd (base (Client' g)))
        example_q ((), []) :: (string do_error, (unit, unit) response) outcome \<times> _)))) \<le> 6"
proof -
  have "NewGeziyor ((example_opt 0)\<lparr>MaxRedirect := 2\<rparr>) \<noteq> None" by (simp add: NewGeziyor_def Let_def)
  then obtain g where g: "NewGeziyor ((example_opt 0)\<lparr>MaxRedirect := 2\<rparr>) = Some g" by blast
  have client: "CheckRedirect (Client' g) = Some 2" "Jar (Client' g) = False"
    by (simp_all add: NewGeziyor_sel(4) [OF g] new_client_def default_options_def example_opt_def Let_def)
  obtain out :: "(string do_error, (unit, unit) response) outcome" and r' jw' where
    run: "DoRequest (example_outside (Some 2) False redirecting_site) (snd (base (Client' g))) example_q ((), []) = (out, r', jw')"
    by (metis surj_pair)
  have "http_do (example_outside (Some 2) False redirecting_site) =
      http_client_Do example_net (CheckRedirect (Client' g)) (Jar (Client' g)) (logged redirecting_site)"
    by (simp add: example_outside_def client)
  from scraper_network_bound [OF g this logged_counts _ run] have "length (snd jw') \<le> 6"
    by (simp add: example_q_def plain_request_def)
  then show ?thesis using g run by auto
qed

text \<open>A jar that stores the cookies it is sent, and a server that fails with a new cookie each time.\<close>

definition busy_net :: "(string, string list) net_http" where
  "busy_net =
     \<lparr>jarCookies = (\<lambda>j u. j), jarSetCookies = (\<lambda>j u h. header_values h ''Set-Cookie''),
      ParseRef = (\<lambda>u loc. Inl ''no reference''), relativeRef = (\<lambda>loc. False),
      redirectHeader = (\<lambda>via resp u. []), GetBody = (\<lambda>q. None), bodyLeft = (\<lambda>q. [])\<rparr>"

definition busy_server :: "http_request list \<Rightarrow> http_request \<Rightarrow> string + http_response" where
  "busy_server log q =
     Inr (mk_response ''503 Service Unavailable'' 503 [(''Set-Cookie'', [''n='' @ itoa (int (length log))])] [])"

definition busy_outside :: "(string do_error, string list \<times> http_request list, unit) external" where
  "busy_outside =
     \<lparr>http_do = http_client_Do busy_net None True (recorded busy_server),
      charset_Lookup = (\<lambda>e. None), charset_NewReader = (\<lambda>r ct. Inr r),
      chrome_Run = (\<lambda>a acts w. (Inl (SendError ''no chrome''), w)),
      url_Parse = (\<lambda>s. \<lparr>Scheme = ''http'', URLHost = [], Path = s, URLString = s\<rparr>)\<rparr>"

lemma busy_length:
  "length (snd (snd (snd (DoRequest busy_outside (example_options 2) example_q ([''a=1''], []) ::
     (string do_error, (unit, unit) response) outcome \<times> _)))) = 3"
  by code_simp

theorem retries_repeat_cookies_witness:
  "\<exists>(out :: (string do_error, (unit, unit) response) outcome) r' jw'.
     DoRequest busy_outside (example_options 2) example_q ([''a=1''], []) = (out, r', jw')
     \<and> length (snd jw') = 3 \<and> header_get (ReqHeader (snd jw' ! 1)) ''Cookie'' = ''a=1; n=0''"
proof -
  obtain out :: "(string do_error, (unit, unit) response) outcome" and r' jw' where
    run: "DoRequest busy_outside (example_options 2) example_q ([''a=1''], []) = (out, r', jw')"
    by (metis surj_pair)
  have http: "http_do busy_outside = http_client_Do busy_net None True (recorded busy_server)"
    by (simp add: busy_outside_def)
  have plain: "no_redirects busy_server" "\<not> Rendered example_q"
    by (simp_all add: no_redirects_def busy_server_def mk_response_def example_q_def plain_request_def)
  have len: "length (snd jw') = 3" using busy_length run by simp
  with retries_repeat_cookies [OF http plain run] have "header_get (ReqHeader (snd jw' ! 1)) ''Cookie'' =
      add_cookies (header_get (ReqHeader (HTTP example_q)) ''Cookie'')
        (concat (map (\<lambda>i. jarCookies busy_net (jar_after busy_net busy_server [] [''a=1''] (take i (snd jw')))
           (URL (HTTP example_q))) [0..<Suc 1]))" by auto
  moreover obtain q qs where "snd jw' = q # qs" using len by (cases "snd jw'") auto
  moreover have "itoa 0 = ''0''" by code_simp
  ultimately have "header_get (ReqHeader (snd jw' ! 1)) ''Cookie'' = ''a=1; n=0''"
    by (simp add: busy_net_def busy_server_def jar_step_def mk_response_def header_values_def add_cookies_def
        example_q_def plain_request_def mk_request_def header_get_def)
  with run len show ?thesis by blast
qed

text \<open>A scraper that may only visit the host \<open>a\<close>.\<close>

definition guarded_options :: "(unit, unit, unit, unit, unit) options" where
  "guarded_options = (example_opt 0)\<lparr>MaxBodySize' := 100\<rparr>"

definition guarded_env ::
  "(string do_error, unit \<times> http_request list, unit, unit, unit, unit, unit) env" where
  "guarded_env =
     \<lparr>ext = example_outside None False redirecting_site,
      newRequest = (\<lambda>m u b. Inr (mk_request m ''a'' u [])), fromStatus = (\<lambda>c b. None), testAgent = (\<lambda>d p a. True),
      randIntn = (\<lambda>n. 0), newDocument = (\<lambda>b. Inr ()), customReq = (\<lambda>m r s. (False, r, s)),
      customRes = (\<lambda>m r s. (False, r, s)), ErrorFunc = None,
      ParseFunc = Some (\<lambda>resp s. (False, emit (Log (RBody resp)) s)), show_error = (\<lambda>e. ''error'')\<rparr>"

text \<open>\<open>AllowedDomains\<close> and the filter of repeated URLs see the request that is issued, not those its
  redirects lead to: a scraper that may only visit the host \<open>a\<close> sends a request to the host \<open>b\<close>
  and hands its page to the callback, when \<open>a\<close> redirects there.\<close>

theorem redirect_leaves_allowed_domains:
  "\<exists>g. NewGeziyor guarded_options = Some g \<and> AllowedDomains guarded_options = [''a'']
    \<and> (let (crashed, s) = do_request guarded_env g None (plain_request (mk_request ''GET'' ''a'' ''/'' [])) (mw_init ((), []))
       in \<not> crashed \<and> map (\<lambda>q. URLHost (URL q)) (snd (world s)) = [''a'', ''b'']
          \<and> Log ''page of b'' \<in> set (trace s))"
proof -
  have "case NewGeziyor guarded_options of None \<Rightarrow> False | Some g \<Rightarrow>
    (case do_request guarded_env g None (plain_request (mk_request ''GET'' ''a'' ''/'' [])) (mw_init ((), []))
       of (crashed, s) \<Rightarrow> \<not> crashed \<and> map (\<lambda>q. URLHost (URL q)) (snd (world s)) = [''a'', ''b'']
          \<and> list_ex (\<lambda>e. e = Log ''page of b'') (trace s))"
    by code_simp
  then show ?thesis by (auto simp: guarded_options_def list_ex_iff split: option.splits)
qed

end
