(* ===== verification/Cached_Crawl.thy ===== *)
theory Cached_Crawl
  imports Crawl_Laws Http_Client
begin

text \<open>
  A whole crawl of a scraper with a cache under the Dummy policy, the default: \<open>http.Client.Do\<close> of the
  scraper's client over the caching transport that \<open>NewGeziyor\<close> gives it, over the network. The comment of
  the policy in \<open>cache/cache.go\<close> promises to replay a spider run exactly as it ran before, also offline.
\<close>

section \<open>The client of a scraper with a cache\<close>

text \<open>
  The transport of the client as a function of the cache and the network. Under the Dummy policy a response is
  stored before \<open>RoundTrip\<close> returns it, so that nothing is pending.
\<close>

definition dummy_transport ::
  "'s cache_impl transport_choice \<Rightarrow> ('e, 'w) round_tripper \<Rightarrow> ('e rt_error, 's \<times> 'w) round_tripper" where
  "dummy_transport choice rt req sw =
     (case choice of
        PlainTransport \<Rightarrow>
          (case rt req (snd sw) of
             (Inl err, w) \<Rightarrow> (Inl (TransportErr err), fst sw, w) | (Inr resp, w) \<Rightarrow> (Inr resp, fst sw, w))
      | CacheTransport t c \<Rightarrow>
          (case RoundTripDummy t c rt req (fst sw) (snd sw) of
             (Inl err, s, w) \<Rightarrow> (Inl err, s, w) | (Inr (resp, p), s, w) \<Rightarrow> (Inr resp, s, w)))"

text \<open>The embedded \<open>http.Client\<close>, whose state is the cookie jar, the cache and the network.\<close>

definition scraper_Do ::
  "('e rt_error, 'j) net_http \<Rightarrow> ('s cache_impl, 'proxy, 'act, 'm, 'x) geziyor \<Rightarrow> ('e, 'w) round_tripper \<Rightarrow>
   http_request \<Rightarrow> ('j \<times> 's \<times> 'w, 'act) crawl_world \<Rightarrow>
   ('e rt_error do_error + http_response \<times> http_request) \<times> http_request \<times> ('j \<times> 's \<times> 'w, 'act) crawl_world" where
  "scraper_Do nh g rt q w =
     (case http_client_Do nh (CheckRedirect (Client' g)) (Jar (Client' g))
             (dummy_transport (Transport' (Client' g)) rt) q (net w) of
        (result, q', n) \<Rightarrow> (result, q', w\<lparr>net := n\<rparr>))"

definition with_network ::
  "('e rt_error do_error, ('j \<times> 's \<times> 'w, 'act) crawl_world, 'act, 'proxy, 'rd, 'doc, 'm) env \<Rightarrow>
   ('e rt_error, 'j) net_http \<Rightarrow> ('s cache_impl, 'proxy, 'act, 'm, 'x) geziyor \<Rightarrow> ('e, 'w) round_tripper \<Rightarrow>
   ('e rt_error do_error, ('j \<times> 's \<times> 'w, 'act) crawl_world, 'act, 'proxy, 'rd, 'doc, 'm) env" where
  "with_network env nh g rt = env\<lparr>ext := (ext env)\<lparr>http_do := scraper_Do nh g rt\<rparr>\<rparr>"

text \<open>A web site: what it answers to a GET of each URL. The network logs the requests that reach it.\<close>

definition site_network :: "(string \<Rightarrow> 'e + http_response) \<Rightarrow> ('e, http_request list) round_tripper" where
  "site_network ans = logged (\<lambda>q. ans (URLString (URL q)))"

definition site_of :: "(string \<Rightarrow> 'e + http_response) \<Rightarrow> string \<Rightarrow> http_response option" where
  "site_of ans k = (case ans k of Inl err \<Rightarrow> None | Inr resp \<Rightarrow> Some resp)"

text \<open>Its responses can be stored, and are no redirects.\<close>

definition storable_site :: "(string \<Rightarrow> 'e + http_response) \<Rightarrow> bool" where
  "storable_site ans \<longleftrightarrow> (\<forall>k resp. ans k = Inr resp \<longrightarrow> wf_response resp \<and> wf_length resp
     \<and> DumpResponse ''GET'' resp \<noteq> None \<and> StatusCode resp \<notin> {301, 302, 303, 307, 308})"

section \<open>One request\<close>

lemma AddCookie_other:
  "CanonicalHeaderKey k \<noteq> ''Cookie'' \<Longrightarrow> header_get (foldl AddCookie h cs) k = header_get h k"
proof (induction cs arbitrary: h)
  case (Cons c cs)
  have "CanonicalHeaderKey ''Cookie'' = ''Cookie''" by code_simp
  then have "header_get (AddCookie h c) k = header_get h k"
    using Cons.prems by (simp add: AddCookie_def header_get_def header_set_def header_values_def Let_def map_of_update)
  then show ?case using Cons by simp
qed simp

lemma plain_get_cookies: "plain_get q \<Longrightarrow> plain_get (q\<lparr>ReqHeader := foldl AddCookie (ReqHeader q) cs, ReqBody := b\<rparr>)"
  "plain_get q \<Longrightarrow> plain_get (q\<lparr>ReqHeader := foldl AddCookie (ReqHeader q) cs\<rparr>)"
  by (simp_all add: plain_get_def cacheable_def AddCookie_other plain_keys)

text \<open>\<open>Client.Do\<close> when the transport's answer is no redirect.\<close>

lemma Do_final:
  assumes q1: "q1 = (if useJar then q\<lparr>ReqHeader := foldl AddCookie (ReqHeader q) (jarCookies nh j (URL q))\<rparr> else q)"
    and rt: "rt q1 w = (answer, w')"
    and final: "\<And>resp. answer = Inr resp \<Longrightarrow> StatusCode resp \<notin> {301, 302, 303, 307, 308}"
  shows "\<exists>j'. http_client_Do nh limit useJar rt q (j, w) =
    (case answer of Inl err \<Rightarrow> Inl (SendError err) | Inr resp \<Rightarrow> Inr (resp, q1\<lparr>ReqBody := bodyLeft nh q1\<rparr>),
     q1\<lparr>ReqBody := bodyLeft nh q1\<rparr>, j', w')"
proof (cases answer)
  case (Inl err)
  then show ?thesis
    using rt unfolding q1 by (simp add: http_client_Do_def http_loop.simps client_send_def Let_def)
next
  case (Inr resp)
  have "redirection_of nh q [q1\<lparr>ReqBody := bodyLeft nh q1\<rparr>] q resp = Final"
    using redirection_code [of nh q "[q1\<lparr>ReqBody := bodyLeft nh q1\<rparr>]" q resp] final [OF Inr] by auto
  then show ?thesis
    using rt Inr unfolding q1 by (simp add: http_client_Do_def http_loop.simps client_send_def Let_def)
qed

section \<open>The cache during a crawl\<close>

text \<open>Every entry for one of the \<open>urls\<close> is the page the site has there.\<close>

definition cache_of_site ::
  "'s cache_impl \<Rightarrow> (string \<Rightarrow> 'e + http_response) \<Rightarrow> string set \<Rightarrow> 's \<Rightarrow> bool" where
  "cache_of_site c ans urls s \<longleftrightarrow> (\<forall>k\<in>urls. snd (Get c s k) \<longrightarrow>
     (\<exists>resp r'. ans k = Inr resp \<and> ReadResponse ''GET'' (fst (Get c s k)) = Some r' \<and> same_page resp r'
       \<and> StatusCode r' \<notin> {301, 302, 303, 307, 308}))"

text \<open>The URLs that need no network any more: those with an entry, and those the site has no page for.\<close>

definition settled :: "'s cache_impl \<Rightarrow> (string \<Rightarrow> 'e + http_response) \<Rightarrow> 's \<Rightarrow> string set" where
  "settled c ans s = {k. snd (Get c s k) \<or> isl (ans k)}"

lemma same_page_mark: "same_page page r \<Longrightarrow> same_page page (mark t r)"
  by (simp add: same_page_def mark_def)

lemma same_page_refl: "same_page page page"
  by (simp add: same_page_def)

lemma plain_get_key: "plain_get q \<Longrightarrow> cacheKey q = URLString (URL q)"
  by (simp add: plain_get_def cacheKey_def)

lemma dummy_transport_hit:
  assumes "plain_get q" and "Get c s (URLString (URL q)) = (b, True)" and "ReadResponse ''GET'' b = Some r'"
  shows "dummy_transport (CacheTransport t c) rt q (s, w) = (Inr (mark t r'), s, w)"
  using assms plain_get_key [OF assms(1)]
  by (simp add: dummy_transport_def RoundTripDummy_def lookup_cached_def CachedResponse_def plain_get_def Let_def)

lemma dummy_transport_miss:
  assumes "plain_get q" and "\<not> snd (Get c s (URLString (URL q)))"
  shows "dummy_transport (CacheTransport t c) rt q (s, w) =
    (case rt q w of (Inl err, w') \<Rightarrow> (Inl (TransportErr err), s, w')
     | (Inr resp, w') \<Rightarrow>
         (let (resp', s') = dump_to_cache c s (URLString (URL q)) ''GET'' resp in (Inr resp', s', w')))"
proof -
  have "lookup_cached c s q = NotCached"
    using assms plain_get_key [OF assms(1)]
    by (cases "Get c s (URLString (URL q))")
      (simp add: lookup_cached_def CachedResponse_def plain_get_def Let_def)
  then show ?thesis using assms(1) plain_get_key [OF assms(1)]
    by (simp add: dummy_transport_def RoundTripDummy_def plain_get_def Let_def split: prod.split sum.split)
qed

lemma storable_page:
  assumes "storable_site ans" and "ans k = Inr resp"
  obtains b r' where "dump_to_cache c s key ''GET'' resp = (resp, Set c s key b)" "ReadResponse ''GET'' b = Some r'"
    "same_page resp r'" "StatusCode resp \<notin> {301, 302, 303, 307, 308}"
proof -
  obtain b where ok: "wf_response resp" "wf_length resp" "DumpResponse ''GET'' resp = Some b"
    "StatusCode resp \<notin> {301, 302, 303, 307, 308}"
    using assms unfolding storable_site_def by blast
  moreover obtain r' where "ReadResponse ''GET'' b = Some r'" "same_response resp r'"
    "0 < ContentLength r' \<longleftrightarrow> 0 < ContentLength resp"
    using dump_read [OF ok(1,3)] ok(2) by blast
  moreover have "\<not> BodyErr resp" using ok(3) by (auto simp: DumpResponse_def split: if_splits)
  ultimately show ?thesis
    using that [of b r'] by (simp add: dump_to_cache_def same_page_def same_response_def)
qed

context caching
begin

text \<open>A request of a crawl that fills the cache.\<close>

lemma filling_trip:
  assumes "storable_site ans" and "inj_on slot urls" and "plain_get q" and "URLString (URL q) \<in> urls"
    and "cache_of_site c ans urls s"
  shows "\<exists>answer s' log'. dummy_transport (CacheTransport t c) (site_network ans) q (s, log) = (answer, s', log')
    \<and> cache_of_site c ans urls s' \<and> insert (URLString (URL q)) (settled c ans s) \<subseteq> settled c ans s'
    \<and> (case site_of ans (URLString (URL q)) of None \<Rightarrow> isl answer
       | Some page \<Rightarrow> \<exists>resp. answer = Inr resp \<and> same_page page resp \<and> StatusCode resp \<notin> {301, 302, 303, 307, 308})"
proof -
  let ?k = "URLString (URL q)"
  have rt: "site_network ans q log = (ans ?k, log @ [q])" by (simp add: site_network_def logged_def)
  show ?thesis
  proof (cases "snd (Get c s ?k)")
    case True
    then obtain page r' where page: "ans ?k = Inr page" "ReadResponse ''GET'' (fst (Get c s ?k)) = Some r'"
      "same_page page r'" "StatusCode r' \<notin> {301, 302, 303, 307, 308}"
      using assms(4,5) unfolding cache_of_site_def by blast
    have get: "Get c s ?k = (fst (Get c s ?k), True)" using True by (metis prod.collapse)
    from dummy_transport_hit [OF assms(3) get page(2)] show ?thesis
      using page same_page_mark [OF page(3)] assms(5) True
      by (intro exI conjI) (assumption, simp_all add: settled_def site_of_def)
  next
    case miss: False
    show ?thesis
    proof (cases "ans ?k")
      case (Inl err)
      then show ?thesis using dummy_transport_miss [OF assms(3) miss, of t "site_network ans" log] rt assms(5)
        by (simp add: site_of_def settled_def)
    next
      case (Inr page)
      obtain b r' where b: "dump_to_cache c s ?k ''GET'' page = (page, Set c s ?k b)" "ReadResponse ''GET'' b = Some r'"
        "same_page page r'" "StatusCode page \<notin> {301, 302, 303, 307, 308}"
        using storable_page [OF assms(1) Inr] .
      have "cache_of_site c ans urls (Set c s ?k b)"
        unfolding cache_of_site_def
      proof (intro ballI impI)
        fix k assume k: "k \<in> urls" "snd (Get c (Set c s ?k b) k)"
        show "\<exists>resp r'. ans k = Inr resp \<and> ReadResponse ''GET'' (fst (Get c (Set c s ?k b) k)) = Some r'
          \<and> same_page resp r' \<and> StatusCode r' \<notin> {301, 302, 303, 307, 308}"
        proof (cases "k = ?k")
          case True
          then show ?thesis using Inr b by (simp add: get_put_same same_page_def)
        next
          case False
          then have "Get c (Set c s ?k b) k = Get c s k"
            using assms(2,4) k(1) by (intro get_put_other) (auto dest: inj_onD)
          then show ?thesis using k assms(5) unfolding cache_of_site_def by simp
        qed
      qed
      moreover have "insert ?k (settled c ans s) \<subseteq> settled c ans (Set c s ?k b)"
        by (auto simp: settled_def get_put_same) (metis get_put_other get_put_same snd_conv)
      ultimately show ?thesis
        using dummy_transport_miss [OF assms(3) miss, of t "site_network ans" log] rt Inr b
        by (simp add: site_of_def same_page_refl)
    qed
  qed
qed

text \<open>A request of a later crawl, when the cache has an entry for every page of the site.\<close>

lemma replaying_trip:
  assumes "{k. isl (ans k)} \<subseteq> {k. isl (ans2 k)}" and "plain_get q" and "URLString (URL q) \<in> urls"
    and "cache_of_site c ans urls s" and "urls \<subseteq> settled c ans s"
  shows "\<exists>answer log'. dummy_transport (CacheTransport t c) (site_network ans2) q (s, log) = (answer, s, log')
    \<and> set log' \<subseteq> set log \<union> {q'. isl (ans (URLString (URL q')))}
    \<and> (case site_of ans (URLString (URL q)) of None \<Rightarrow> isl answer
       | Some page \<Rightarrow> \<exists>resp. answer = Inr resp \<and> same_page page resp \<and> StatusCode resp \<notin> {301, 302, 303, 307, 308})"
proof -
  let ?k = "URLString (URL q)"
  show ?thesis
  proof (cases "snd (Get c s ?k)")
    case True
    then obtain page r' where page: "ans ?k = Inr page" "ReadResponse ''GET'' (fst (Get c s ?k)) = Some r'"
      "same_page page r'" "StatusCode r' \<notin> {301, 302, 303, 307, 308}"
      using assms(3,4) unfolding cache_of_site_def by blast
    have get: "Get c s ?k = (fst (Get c s ?k), True)" using True by (metis prod.collapse)
    from dummy_transport_hit [OF assms(2) get page(2)] show ?thesis
      using page same_page_mark [OF page(3)]
      by (intro exI conjI) (assumption, simp_all add: site_of_def)
  next
    case miss: False
    then have gone: "isl (ans ?k)" using assms(3,5) by (auto simp: settled_def)
    then obtain err err2 where "ans ?k = Inl err" "ans2 ?k = Inl err2" using assms(1) by (auto simp: isl_def)
    then show ?thesis
      using dummy_transport_miss [OF assms(2) miss, of t "site_network ans2" log] gone
      by (auto simp: site_network_def logged_def site_of_def)
  qed
qed

end

section \<open>Crawls\<close>

lemma scraper_fetch:
  assumes "plain_get q" and "net w = (j, s, v)"
    and trip: "\<And>q1. plain_get q1 \<Longrightarrow> URL q1 = URL q \<Longrightarrow>
      \<exists>answer s' v'. dummy_transport (Transport' (Client' g)) rt q1 (s, v) = (answer, s', v') \<and> P s' v'
        \<and> (case site (URLString (URL q)) of None \<Rightarrow> isl answer
           | Some page \<Rightarrow> \<exists>resp. answer = Inr resp \<and> same_page page resp \<and> StatusCode resp \<notin> {301, 302, 303, 307, 308})"
  shows "\<exists>result q' n'. scraper_Do nh g rt q w = (result, q', w\<lparr>net := n'\<rparr>) \<and> P (fst (snd n')) (snd (snd n'))
    \<and> plain_get q' \<and> URL q' = URL q
    \<and> (case site (URLString (URL q)) of
         None \<Rightarrow> \<exists>err. result = Inl err
       | Some page \<Rightarrow> \<exists>resp answered. result = Inr (resp, answered) \<and> same_page page resp \<and> Method answered = ''GET'')"
proof -
  define q1 where "q1 = (if Jar (Client' g)
    then q\<lparr>ReqHeader := foldl AddCookie (ReqHeader q) (jarCookies nh j (URL q))\<rparr> else q)"
  let ?q' = "q1\<lparr>ReqBody := bodyLeft nh q1\<rparr>"
  have q1: "plain_get q1" "URL q1 = URL q"
    using assms(1) plain_get_cookies(2) [OF assms(1)] by (simp_all add: q1_def)
  then have q': "plain_get ?q'" "URL ?q' = URL q" "Method ?q' = ''GET''" by (simp_all add: plain_get_def cacheable_def)
  obtain answer s' v' where rt: "dummy_transport (Transport' (Client' g)) rt q1 (s, v) = (answer, s', v')" and P: "P s' v'"
    and answer: "case site (URLString (URL q)) of None \<Rightarrow> isl answer
      | Some page \<Rightarrow> \<exists>resp. answer = Inr resp \<and> same_page page resp \<and> StatusCode resp \<notin> {301, 302, 303, 307, 308}"
    using trip [OF q1] by blast
  have "StatusCode resp \<notin> {301, 302, 303, 307, 308}" if "answer = Inr resp" for resp
    using answer that by (auto split: option.splits)
  from Do_final [where limit = "CheckRedirect (Client' g)" and rt = "dummy_transport (Transport' (Client' g)) rt"
      and w = "(s, v)" and answer = answer, OF q1_def rt this] obtain j' where
    "scraper_Do nh g rt q w =
      (case answer of Inl err \<Rightarrow> Inl (SendError err) | Inr resp \<Rightarrow> Inr (resp, ?q'), ?q', w\<lparr>net := (j', s', v')\<rparr>)"
    using assms(2) by (auto simp: scraper_Do_def)
  then show ?thesis using P q' answer
    by (intro exI [of _ "?q'"] exI [of _ "(j', s', v')"]
        exI [of _ "case answer of Inl err \<Rightarrow> Inl (SendError err) | Inr resp \<Rightarrow> Inr (resp, ?q')"])
      (auto simp: isl_def split: option.splits)
qed

context caching
begin

text \<open>A crawl that fills the cache, and one that replays it, are crawls of a steady network.\<close>

lemma filling_steady:
  assumes "Transport' (Client' g) = CacheTransport t c" and "storable_site ans" and "inj_on slot urls"
  shows "steady_net (outside\<lparr>http_do := scraper_Do nh g (site_network ans)\<rparr>) (site_of ans) urls
    (\<lambda>n. cache_of_site c ans urls (fst (snd n))) (\<lambda>n. settled c ans (fst (snd n)))"
proof (unfold_locales, goal_cases)
  case (1 q w)
  then have q: "plain_get q" "URLString (URL q) \<in> urls" and good: "cache_of_site c ans urls (fst (snd (net w)))" by auto
  obtain j s v where n: "net w = (j, s, v)" using prod_cases3 by blast
  have s: "cache_of_site c ans urls s" using good n by simp
  have trip: "\<exists>answer s' v'. dummy_transport (Transport' (Client' g)) (site_network ans) q1 (s, v) = (answer, s', v')
      \<and> (cache_of_site c ans urls s' \<and> insert (URLString (URL q)) (settled c ans s) \<subseteq> settled c ans s')
      \<and> (case site_of ans (URLString (URL q)) of None \<Rightarrow> isl answer
         | Some page \<Rightarrow> \<exists>resp. answer = Inr resp \<and> same_page page resp \<and> StatusCode resp \<notin> {301, 302, 303, 307, 308})"
    if "plain_get q1" "URL q1 = URL q" for q1
    using filling_trip [OF assms(2,3) that(1) _ s, of t v] that(2) q(2) unfolding assms(1) by (simp add: conj_assoc)
  have "\<exists>result q' n'. scraper_Do nh g (site_network ans) q w = (result, q', w\<lparr>net := n'\<rparr>)
    \<and> (cache_of_site c ans urls (fst (snd n')) \<and> insert (URLString (URL q)) (settled c ans s) \<subseteq> settled c ans (fst (snd n')))
    \<and> plain_get q' \<and> URL q' = URL q
    \<and> (case site_of ans (URLString (URL q)) of
         None \<Rightarrow> \<exists>err. result = Inl err
       | Some page \<Rightarrow> \<exists>resp answered. result = Inr (resp, answered) \<and> same_page page resp \<and> Method answered = ''GET'')"
    by (rule scraper_fetch [where site = "site_of ans" and P = "\<lambda>s' v'. cache_of_site c ans urls s'
        \<and> insert (URLString (URL q)) (settled c ans s) \<subseteq> settled c ans s'", OF q(1) n trip])
  then show ?case by (simp add: n conj_assoc)
qed

lemma replaying_steady:
  assumes "Transport' (Client' g) = CacheTransport t c" and "{k. isl (ans k)} \<subseteq> {k. isl (ans2 k)}"
    and "cache_of_site c ans urls s" and "urls \<subseteq> settled c ans s"
  shows "steady_net (outside\<lparr>http_do := scraper_Do nh g (site_network ans2)\<rparr>) (site_of ans) urls
    (\<lambda>n. fst (snd n) = s \<and> set (snd (snd n)) \<subseteq> {q. isl (ans (URLString (URL q)))}) (\<lambda>n. UNIV)"
proof (unfold_locales, goal_cases)
  case (1 q w)
  note q = 1(1,2)
  from 1 obtain j v where n: "net w = (j, s, v)" and v: "set v \<subseteq> {q. isl (ans (URLString (URL q)))}"
    by (metis prod.collapse snd_conv)
  have trip: "\<exists>answer s' v'. dummy_transport (Transport' (Client' g)) (site_network ans2) q1 (s, v) = (answer, s', v')
      \<and> (s' = s \<and> set v' \<subseteq> {q. isl (ans (URLString (URL q)))})
      \<and> (case site_of ans (URLString (URL q)) of None \<Rightarrow> isl answer
         | Some page \<Rightarrow> \<exists>resp. answer = Inr resp \<and> same_page page resp \<and> StatusCode resp \<notin> {301, 302, 303, 307, 308})"
    if "plain_get q1" "URL q1 = URL q" for q1
  proof -
    have q1: "URLString (URL q1) \<in> urls" using that(2) q(2) by simp
    note trip = replaying_trip [OF assms(2) that(1) q1 assms(3,4), where t = t and log = v, folded assms(1), unfolded that(2)]
    then obtain answer v' where "dummy_transport (Transport' (Client' g)) (site_network ans2) q1 (s, v) = (answer, s, v')"
      "set v' \<subseteq> set v \<union> {q'. isl (ans (URLString (URL q')))}"
      "case site_of ans (URLString (URL q)) of None \<Rightarrow> isl answer
       | Some page \<Rightarrow> \<exists>resp. answer = Inr resp \<and> same_page page resp \<and> StatusCode resp \<notin> {301, 302, 303, 307, 308}"
      by blast
    then show ?thesis using v by blast
  qed
  from scraper_fetch [where site = "site_of ans"
      and P = "\<lambda>s' v'. s' = s \<and> set v' \<subseteq> {q. isl (ans (URLString (URL q)))}", OF q(1) n trip]
  show ?case by simp
qed

end

text \<open>A standard scraper with the cache, on a network, is the scraper of a crawl.\<close>

lemma site_page_with_network [simp]:
  "site_page ((ext env)\<lparr>http_do := f\<rparr>) copt site = site_page (ext env) copt site"
  by (rule ext) (simp add: site_page_def decode_body_def split: option.split)

lemma with_network_simps [simp]:
  "ext (with_network env nh g rt) = (ext env)\<lparr>http_do := scraper_Do nh g rt\<rparr>"
  "newRequest (with_network env nh g rt) = newRequest env"
  "standard_scraper (with_network env nh g rt) opt g = standard_scraper env opt g"
  by (simp_all add: with_network_def standard_scraper_def)

definition cached_scraper ::
  "('e, 'w, 'act, 'proxy, 'rd, 'doc, 'm) env \<Rightarrow> ('s cache_impl, 'proxy, 'act, 'm, 'x) options \<Rightarrow>
   ('s cache_impl, 'proxy, 'act, 'm, 'x) geziyor \<Rightarrow> 's cache_impl \<Rightarrow> bool" where
  "cached_scraper env opt g c \<longleftrightarrow> standard_scraper env opt g \<and> Cache opt = Some c \<and> CachePolicy opt = Dummy"

lemma cached_scraper_transport:
  assumes "cached_scraper env opt g c"
  shows "\<exists>t. Transport' (Client' g) = CacheTransport t c"
proof -
  have g: "NewGeziyor opt = Some g" using assms by (simp add: cached_scraper_def standard_scraper_def)
  show ?thesis using assms
    by (simp add: NewGeziyor_sel(4) [OF g] new_client_def cached_scraper_def default_options_def Let_def)
qed

abbreviation site_urls ::
  "('e, ('n, 'act) crawl_world, 'act, 'proxy, 'rd, 'doc, 'm) env \<Rightarrow> ('cache, 'proxy, 'act, 'm, 'x) options \<Rightarrow>
   ('cache, 'proxy, 'act, 'm, 'x) geziyor \<Rightarrow> (string \<Rightarrow> 'err + http_response) \<Rightarrow>
   (string \<Rightarrow> string \<Rightarrow> string list) \<Rightarrow> string set" where
  "site_urls env opt g ans links \<equiv> reachable_urls (newRequest env) opt (page_of env g (site_of ans)) links"

abbreviation finished :: "('rd, ('n, 'act) crawl_world) mw_state \<Rightarrow> bool" where
  "finished s \<equiv> waiting (world s) = [] \<and> flying (world s) = []"

text \<open>The two crawls as crawls of a steady network.\<close>

lemma filling_setting:
  assumes "cached_scraper env opt g c" and "caching c slot" and "storable_site ans"
    and "inj_on slot (site_urls env opt g ans links)"
  shows "crawl_setting (with_network env nh g (site_network ans)) opt g links (site_of ans) (site_urls env opt g ans links)
    (\<lambda>n. cache_of_site c ans (site_urls env opt g ans links) (fst (snd n))) (\<lambda>n. settled c ans (fst (snd n)))"
proof -
  obtain t where "Transport' (Client' g) = CacheTransport t c" using cached_scraper_transport [OF assms(1)] by blast
  from caching.filling_steady [OF assms(2) this assms(3,4), where outside = "ext env" and nh = nh]
  show ?thesis using assms(1) by (simp add: crawl_setting_def cached_scraper_def)
qed

lemma replaying_setting:
  assumes "cached_scraper env opt g c" and "caching c slot" and "{k. isl (ans k)} \<subseteq> {k. isl (ans2 k)}"
    and "cache_of_site c ans (site_urls env opt g ans links) s" and "site_urls env opt g ans links \<subseteq> settled c ans s"
  shows "crawl_setting (with_network env nh g (site_network ans2)) opt g links (site_of ans) (site_urls env opt g ans links)
    (\<lambda>n. fst (snd n) = s \<and> set (snd (snd n)) \<subseteq> {q. isl (ans (URLString (URL q)))}) (\<lambda>n. UNIV)"
proof -
  obtain t where "Transport' (Client' g) = CacheTransport t c" using cached_scraper_transport [OF assms(1)] by blast
  from caching.replaying_steady [OF assms(2) this assms(3-5), where outside = "ext env" and nh = nh]
  show ?thesis using assms(1) by (simp add: crawl_setting_def cached_scraper_def)
qed

text \<open>The cache after the first crawl.\<close>

lemma cache_filled:
  assumes "cached_scraper env opt g c" and "caching c slot" and "storable_site ans"
    and "inj_on slot (site_urls env opt g ans links)"
    and "{k. snd (Get c s0 k)} \<inter> site_urls env opt g ans links = {}"
    and "crawl_run (with_network env nh g (site_network ans)) g links as
      (crawl_start (newRequest env) g (j, s0, [])) = Some s" and "finished s"
  shows "cache_of_site c ans (site_urls env opt g ans links) (fst (snd (net (world s))))"
    "site_urls env opt g ans links \<subseteq> settled c ans (fst (snd (net (world s))))"
    "set (visitedURLs s) = site_urls env opt g ans links"
    "set (parsed (world s)) = {k \<in> site_urls env opt g ans links. page_of env g (site_of ans) k \<noteq> None}"
proof -
  note setting = filling_setting [OF assms(1-4), where nh = nh]
  have start: "cache_of_site c ans (site_urls env opt g ans links) (fst (snd (j, s0, [])))"
    using assms(5) by (auto simp: cache_of_site_def)
  have "newRequest env = newRequest (with_network env nh g (site_network ans))" by simp
  note run = assms(6) [unfolded this]
  show "cache_of_site c ans (site_urls env opt g ans links) (fst (snd (net (world s))))"
    "site_urls env opt g ans links \<subseteq> settled c ans (fst (snd (net (world s))))"
    "set (visitedURLs s) = site_urls env opt g ans links"
    "set (parsed (world s)) = {k \<in> site_urls env opt g ans links. page_of env g (site_of ans) k \<noteq> None}"
    using crawl_visits_all [OF setting start run] crawl_fetches [OF setting start run] assms(7) by simp_all
qed

text \<open>C5: A crawl under the Dummy policy can be repeated from its cache: once a crawl of a site has ended, a
  second one with the same cache visits the same URLs and calls the callback for the same pages, in
  whatever order the goroutines run, and even if the site has gone offline. It leaves the cache as it is, and
  all that reaches the network are requests for URLs that the first crawl could not fetch.\<close>

theorem cached_crawl_replays:
  assumes "cached_scraper env opt g c" and "caching c slot" and "storable_site ans"
    and "inj_on slot (site_urls env opt g ans links)"
    and "{k. snd (Get c s0 k)} \<inter> site_urls env opt g ans links = {}"
    and "crawl_run (with_network env nh g (site_network ans)) g links as
      (crawl_start (newRequest env) g (j, s0, [])) = Some s1" and "finished s1"
    and "{k. isl (ans k)} \<subseteq> {k. isl (ans2 k)}"
    and "crawl_run (with_network env nh g (site_network ans2)) g links as2
      (crawl_start (newRequest env) g (j2, fst (snd (net (world s1))), [])) = Some s2" and "finished s2"
  shows "set (visitedURLs s2) = set (visitedURLs s1) \<and> set (parsed (world s2)) = set (parsed (world s1))
    \<and> fst (snd (net (world s2))) = fst (snd (net (world s1)))
    \<and> set (snd (snd (net (world s2)))) \<subseteq> {q. isl (ans (URLString (URL q)))}"
proof -
  note full = cache_filled [OF assms(1-7)]
  note setting = replaying_setting [OF assms(1,2,8) full(1,2), where nh = nh]
  have start: "fst (snd (j2, fst (snd (net (world s1))), [])) = fst (snd (net (world s1)))
      \<and> set (snd (snd (j2, fst (snd (net (world s1))), []))) \<subseteq> {q. isl (ans (URLString (URL q)))}" by simp
  have "newRequest env = newRequest (with_network env nh g (site_network ans2))" by simp
  note run = assms(9) [unfolded this]
  show ?thesis
    using full crawl_visits_all [OF setting start run] crawl_fetches [OF setting start run] assms(10) by simp
qed

section \<open>An example\<close>

text \<open>The small site of the theory Crawl_Laws, crawled with the memory cache.\<close>

definition small_answers :: "string \<Rightarrow> string + http_response" where
  "small_answers u = (case small_site u of None \<Rightarrow> Inl ''not found'' | Some resp \<Rightarrow> Inr resp)"

definition cached_request :: "string \<Rightarrow> string \<Rightarrow> string \<Rightarrow> string rt_error do_error + http_request" where
  "cached_request meth u body = map_sum (\<lambda>e. SendError (TransportErr e)) id (small_request meth u body)"

definition cached_env ::
  "(string rt_error do_error, (unit \<times> memory_cache \<times> http_request list, unit) crawl_world, unit, unit, unit, unit, unit) env" where
  "cached_env =
     \<lparr>ext = \<lparr>http_do = (\<lambda>q w. (Inl (SendError PanicGateway), q, w)),
        charset_Lookup = (\<lambda>e. None), charset_NewReader = (\<lambda>r ct. Inr r),
        chrome_Run = (\<lambda>a acts w. (Inl (SendError PanicGateway), w)),
        url_Parse = (\<lambda>s. \<lparr>Scheme = ''http'', URLHost = [], Path = s, URLString = s\<rparr>)\<rparr>,
      newRequest = cached_request, fromStatus = (\<lambda>c b. None), testAgent = (\<lambda>d p a. True),
      randIntn = (\<lambda>n. 0), newDocument = (\<lambda>b. Inr ()), customReq = (\<lambda>m r s. (False, r, s)),
      customRes = (\<lambda>m r s. (False, r, s)), ErrorFunc = None, ParseFunc = None,
      show_error = (\<lambda>e. ''error'')\<rparr>"

definition cached_options :: "(memory_cache cache_impl, unit, unit, unit, unit) options" where
  "cached_options =
     \<lparr>AllowedDomains = [''a''], BrowserEndpoint = [], Cache = Some memory_impl, CachePolicy = Dummy,
      CharsetDetectDisabled' = True, ConcurrentRequests = 0, ConcurrentRequestsPerDomain = 0,
      CookiesDisabled = False, Exporters = [], LogDisabled = True, MaxBodySize' = 100, MaxRedirect = 0,
      MetricsType = 0, ParseHTMLDisabled = True, ProxyFunc' = None, PreActions' = [], RequestDelay = 0,
      RequestDelayRandomize = False, RequestMiddlewares = [], ResponseMiddlewares = [],
      RequestsPerSecond = (0, 1), RetryHTTPCodes' = [], RetryTimes' = 0, RobotsTxtDisabled = True,
      StartURLs = [''/''], Timeout' = 0, URLRevisitEnabled = False, UserAgent = []\<rparr>"

definition cached_small :: "(memory_cache cache_impl, unit, unit, unit, unit) geziyor" where
  "cached_small = the (NewGeziyor cached_options)"

definition small_net :: "(string rt_error, unit) net_http" where
  "small_net =
     \<lparr>jarCookies = (\<lambda>j u. [''a=1'']), jarSetCookies = (\<lambda>j u h. j), ParseRef = (\<lambda>u loc. Inl PanicGateway),
      relativeRef = (\<lambda>loc. False), redirectHeader = (\<lambda>via resp u. []), GetBody = (\<lambda>q. None),
      bodyLeft = (\<lambda>q. [])\<rparr>"

lemma cached_NewGeziyor: "NewGeziyor cached_options = Some cached_small"
  by (simp add: cached_small_def NewGeziyor_def cached_options_def Let_def)

lemma cached_small_scraper: "cached_scraper cached_env cached_options cached_small memory_impl"
  using cached_NewGeziyor
  by (auto simp: cached_scraper_def standard_scraper_def cached_options_def makes_gets_def cached_env_def
      cached_request_def small_request_def split: if_splits)

lemma small_storable: "storable_site small_answers"
proof -
  have "list_all (\<lambda>b. wf_response (mk_response ''200 OK'' 200 [] b) \<and> wf_length (mk_response ''200 OK'' 200 [] b)
      \<and> DumpResponse ''GET'' (mk_response ''200 OK'' 200 [] b) \<noteq> None
      \<and> StatusCode (mk_response ''200 OK'' 200 [] b) \<notin> {301, 302, 303, 307, 308}) [''1'', ''2'']"
    by code_simp
  then show ?thesis by (auto simp: storable_site_def small_answers_def small_site_def split: if_splits)
qed

lemma cached_site: "site_of small_answers = small_site"
  by (rule ext) (simp add: site_of_def small_answers_def split: option.split)

lemma cached_pages: "page_of cached_env cached_small small_site = small_pages"
proof
  fix k
  have "MaxBodySize (scraper_options_of cached_small) = 100"
    "CharsetDetectDisabled (scraper_options_of cached_small) = True"
    by (simp_all add: NewGeziyor_sel [OF cached_NewGeziyor] new_client_def NewClient_def default_options_def
        cached_options_def DefaultMaxBody_def Let_def)
  then show "page_of cached_env cached_small small_site k = small_pages k"
    by (simp add: site_page_def small_site_def decode_body_def blank_request_def LimitReader_def ReadAll_def small_pages_def)
qed

lemma cached_newRequest: "newRequest cached_env = cached_request"
  by (simp add: cached_env_def)

lemma cached_urls:
  "site_urls cached_env cached_options cached_small small_answers small_links =
     {''http://a/'', ''http://a/x'', ''http://a/404''}"
proof -
  have "targets cached_request cached_options us = targets small_request small_options us" for us
    by (auto simp: targets_def cached_request_def small_request_def host_allowed_def cached_options_def
        small_options_def example_opt_def split: if_splits)
  from reachable_urls_cong [OF this] have "reachable_urls cached_request cached_options small_pages small_links = small_reachable"
    by (simp add: small_StartURLs cached_options_def)
  then show ?thesis by (simp add: cached_site cached_pages small_reachable cached_newRequest)
qed

theorem cached_crawl_replays_witness:
  "\<exists>as s1 as2 s2.
     crawl_run (with_network cached_env small_net cached_small (site_network small_answers)) cached_small small_links as
       (crawl_start cached_request cached_small ((), memory_New, [])) = Some s1 \<and> finished s1
     \<and> crawl_run (with_network cached_env small_net cached_small (site_network (\<lambda>k. Inl ''offline''))) cached_small
         small_links as2 (crawl_start cached_request cached_small ((), fst (snd (net (world s1))), [])) = Some s2
     \<and> finished s2 \<and> set (parsed (world s2)) = set (parsed (world s1)) \<and> set (visitedURLs s2) = set (visitedURLs s1)
     \<and> {''http://a/'', ''http://a/x''} \<inter> (\<lambda>q. URLString (URL q)) ` set (snd (snd (net (world s2)))) = {}"
proof -
  let ?env1 = "with_network cached_env small_net cached_small (site_network small_answers)"
    and ?env2 = "with_network cached_env small_net cached_small (site_network (\<lambda>k. Inl ''offline'' :: string + http_response))"
  let ?U = "site_urls cached_env cached_options cached_small small_answers small_links"
  note base = cached_small_scraper mc.caching_axioms small_storable
  have inj: "inj_on (\<lambda>k. k) ?U" by simp
  have empty: "{k. snd (Get memory_impl memory_New k)} \<inter> ?U = {}" by (simp add: memory_Get_def memory_New_def)
  have sub: "{k. isl (small_answers k)} \<subseteq> {k. isl (Inl ''offline'' :: string + http_response)}" by simp
  have finite: "finite ?U" unfolding cached_urls by simp
  note setting1 = filling_setting [OF base inj, where nh = small_net]
  have good1: "cache_of_site memory_impl small_answers ?U (fst (snd ((), memory_New, [] :: http_request list)))"
    by (simp add: cache_of_site_def memory_Get_def memory_New_def)
  have finite1: "finite (reachable_urls (newRequest ?env1) cached_options (page_of ?env1 cached_small (site_of small_answers)) small_links)"
    using finite by simp
  obtain as s1 where run1: "crawl_run ?env1 cached_small small_links as
      (crawl_start (newRequest cached_env) cached_small ((), memory_New, [])) = Some s1" and end1: "finished s1"
    using crawl_completes_from [OF setting1 finite1 start_inv [OF setting1 good1]] by auto
  note full = cache_filled [OF base inj empty run1 end1]
  note setting2 = replaying_setting [OF base(1,2) sub full(1,2), where nh = small_net]
  have good2: "fst (snd ((), fst (snd (net (world s1))), [] :: http_request list)) = fst (snd (net (world s1)))
      \<and> set (snd (snd ((), fst (snd (net (world s1))), []))) \<subseteq> {q. isl (small_answers (URLString (URL q)))}" by simp
  have finite2: "finite (reachable_urls (newRequest ?env2) cached_options (page_of ?env2 cached_small (site_of small_answers)) small_links)"
    using finite by simp
  obtain as2 s2 where run2: "crawl_run ?env2 cached_small small_links as2
      (crawl_start (newRequest cached_env) cached_small ((), fst (snd (net (world s1))), [])) = Some s2" and end2: "finished s2"
    using crawl_completes_from [OF setting2 finite2 start_inv [OF setting2 good2]] by auto
  note result = cached_crawl_replays [OF base inj empty run1 end1 sub run2 end2]
  have "\<not> isl (small_answers ''http://a/'')" "\<not> isl (small_answers ''http://a/x'')"
    by (simp_all add: small_answers_def small_site_def)
  then have "{''http://a/'', ''http://a/x''} \<inter> (\<lambda>q. URLString (URL q)) ` set (snd (snd (net (world s2)))) = {}"
    using result by auto
  then show ?thesis using run1 end1 run2 end2 result unfolding cached_newRequest by blast
qed

end
