(* ===== verification/Shared_Actions.thy ===== *)
theory Shared_Actions
  imports Client
begin

text \<open>
  The slices of Chrome actions in \<open>doRequestChrome\<close>, at the level of the arrays they share. The actions
  of the options are one slice for all requests; every rendered request appends its own actions to it with
  Go's \<open>append\<close>, which writes into the array of the slice when there is room, and then runs the result.
  Goroutines that handle rendered requests do so at the same time.
\<close>

section \<open>Slices\<close>

text \<open>Arrays are numbered in the order they are made; a slice starts at the beginning of its array.\<close>

record slice =
  array :: nat
  len :: nat
  cap :: nat

type_synonym 'a arrays = "'a list list"

definition elements :: "'a arrays \<Rightarrow> slice \<Rightarrow> 'a list" where
  "elements st s = take (len s) (st ! array s)"

text \<open>Nobody else has the new array that \<open>append\<close> may make, so that it has just the room it needs.\<close>

definition append_slice :: "slice \<Rightarrow> 'a list \<Rightarrow> 'a arrays \<Rightarrow> slice \<times> 'a arrays" where
  "append_slice s xs st =
     (let n = len s + length xs
      in if n \<le> cap s
         then (s\<lparr>len := n\<rparr>, st[array s := take (len s) (st ! array s) @ xs @ drop n (st ! array s)])
         else (\<lparr>array = length st, len = n, cap = n\<rparr>, st @ [elements st s @ xs]))"

section \<open>Rendered requests\<close>

text \<open>
  What a goroutine has done for its rendered request: nothing, appended the actions, or run some of them,
  which \<open>chromedp.Run\<close> reads from the slice one after the other.
\<close>

datatype 'act render_phase = NotStarted | Running slice "'act chrome_action list" | Ran "'act chrome_action list"

record 'act renderings =
  arrays :: "'act chrome_action arrays"
  phases :: "'act render_phase list"

text \<open>\<open>pre\<close> is the slice of the options, \<open>reqs\<close> are the requests of the goroutines.\<close>

definition render_step ::
  "('act, 'proxy) client_options \<Rightarrow> slice \<Rightarrow> 'act request list \<Rightarrow> nat \<Rightarrow> 'act renderings \<Rightarrow> 'act renderings" where
  "render_step opt pre reqs i s =
     (case phases s ! i of
        NotStarted \<Rightarrow>
          (let (s0, st) =
             (if PreActions opt \<noteq> [] then (pre, arrays s)
              else (let acts = defaultPreActions (reqs ! i)
                    in (\<lparr>array = length (arrays s), len = length acts, cap = length acts\<rparr>, arrays s @ [acts])));
               (s1, st') = append_slice s0 (map UserAction (Actions (reqs ! i))) st
           in s\<lparr>arrays := st', phases := (phases s)[i := Running s1 []]\<rparr>)
      | Running sl done \<Rightarrow>
          s\<lparr>phases := (phases s)[i :=
            if length done < len sl then Running sl (done @ [arrays s ! array sl ! length done]) else Ran done]\<rparr>
      | Ran done \<Rightarrow> s)"

text \<open>A schedule is the list of the goroutines that make a step.\<close>

definition render_run ::
  "('act, 'proxy) client_options \<Rightarrow> slice \<Rightarrow> 'act request list \<Rightarrow> nat list \<Rightarrow> 'act renderings \<Rightarrow> 'act renderings" where
  "render_run opt pre reqs = fold (render_step opt pre reqs)"

text \<open>At first the slice of the options is in the first array, which may have spare room behind it.\<close>

definition render_init ::
  "('act, 'proxy) client_options \<Rightarrow> 'act chrome_action list \<Rightarrow> 'act request list \<Rightarrow> 'act renderings" where
  "render_init opt spare reqs =
     \<lparr>arrays = [map UserAction (PreActions opt) @ spare], phases = replicate (length reqs) NotStarted\<rparr>"

definition options_slice :: "('act, 'proxy) client_options \<Rightarrow> 'act chrome_action list \<Rightarrow> slice" where
  "options_slice opt spare =
     \<lparr>array = 0, len = length (PreActions opt), cap = length (PreActions opt) + length spare\<rparr>"

section \<open>Without spare room\<close>

text \<open>Then \<open>append\<close> leaves every array as it is.\<close>

lemma append_slice_full:
  assumes "cap s = len s" and "array s < length st" and "len s \<le> length (st ! array s)"
    and "append_slice s xs st = (s', st')"
  shows "\<exists>new. st' = st @ new" "array s' < length st'" "len s' \<le> length (st' ! array s')"
    "elements st' s' = elements st s @ xs"
proof -
  have same: "st[array s := take (len s) (st ! array s) @ drop (len s) (st ! array s)] = st" by simp
  show "\<exists>new. st' = st @ new" "array s' < length st'" "len s' \<le> length (st' ! array s')"
    "elements st' s' = elements st s @ xs"
    using assms same by (auto simp: append_slice_def elements_def Let_def split: if_splits)
qed

text \<open>Every goroutine that has appended has a slice of its own actions, and has run a prefix of them.\<close>

definition own_actions :: "('act, 'proxy) client_options \<Rightarrow> 'act request \<Rightarrow> 'act chrome_action arrays \<Rightarrow>
  'act render_phase \<Rightarrow> bool" where
  "own_actions opt r st p =
     (case p of NotStarted \<Rightarrow> True
      | Running sl done \<Rightarrow> array sl < length st \<and> len sl \<le> length (st ! array sl)
          \<and> elements st sl = rendered_actions opt r \<and> length done \<le> len sl
          \<and> done = take (length done) (rendered_actions opt r)
      | Ran done \<Rightarrow> done = rendered_actions opt r)"

lemma own_actions_mono: "own_actions opt r st p \<Longrightarrow> own_actions opt r (st @ new) p"
  by (cases p) (simp_all add: own_actions_def elements_def nth_append)

definition render_inv ::
  "('act, 'proxy) client_options \<Rightarrow> 'act request list \<Rightarrow> 'act renderings \<Rightarrow> bool" where
  "render_inv opt reqs s \<longleftrightarrow> length (phases s) = length reqs
     \<and> arrays s \<noteq> [] \<and> arrays s ! 0 = map UserAction (PreActions opt)
     \<and> (\<forall>i<length reqs. own_actions opt (reqs ! i) (arrays s) (phases s ! i))"

lemma render_step_inv:
  assumes inv: "render_inv opt reqs s" and i: "i < length reqs"
  shows "render_inv opt reqs (render_step opt (options_slice opt []) reqs i s)"
proof (cases "phases s ! i")
  case NotStarted
  define s0 where "s0 = (if PreActions opt \<noteq> [] then options_slice opt [] else
    \<lparr>array = length (arrays s), len = length (defaultPreActions (reqs ! i)), cap = length (defaultPreActions (reqs ! i))\<rparr>)"
  define st where "st = (if PreActions opt \<noteq> [] then arrays s else arrays s @ [defaultPreActions (reqs ! i)])"
  obtain s1 st' where app: "append_slice s0 (map UserAction (Actions (reqs ! i))) st = (s1, st')" by force
  have s0: "cap s0 = len s0" "array s0 < length st" "len s0 \<le> length (st ! array s0)"
    "elements st s0 @ map UserAction (Actions (reqs ! i)) = rendered_actions opt (reqs ! i)"
    using inv by (auto simp: s0_def st_def options_slice_def render_inv_def elements_def rendered_actions_def)
  note new = append_slice_full [OF s0(1-3) app]
  obtain new' where st': "st' = arrays s @ new'" using new(1) by (auto simp: st_def split: if_splits)
  have step: "render_step opt (options_slice opt []) reqs i s = s\<lparr>arrays := st', phases := (phases s)[i := Running s1 []]\<rparr>"
    using NotStarted app by (simp add: render_step_def s0_def st_def Let_def split: if_splits)
  have "own_actions opt (reqs ! j) st' ((phases s)[i := Running s1 []] ! j)" if "j < length reqs" for j
  proof (cases "j = i")
    case True
    then show ?thesis using inv new s0(4) that by (simp add: own_actions_def render_inv_def)
  next
    case False
    then show ?thesis using inv that own_actions_mono unfolding st' render_inv_def by fastforce
  qed
  then show ?thesis using inv unfolding step by (auto simp: render_inv_def st' nth_append)
next
  case (Running sl acc)
  have own: "own_actions opt (reqs ! i) (arrays s) (Running sl acc)" using inv i Running by (auto simp: render_inv_def)
  have "own_actions opt (reqs ! i) (arrays s)
      (if length acc < len sl then Running sl (acc @ [arrays s ! array sl ! length acc]) else Ran acc)"
  proof (cases "length acc < len sl")
    case True
    then have "arrays s ! array sl ! length acc = rendered_actions opt (reqs ! i) ! length acc"
      using own by (simp add: own_actions_def elements_def) (metis nth_take)
    moreover have "length acc < length (rendered_actions opt (reqs ! i))"
      using True own by (simp add: own_actions_def elements_def) (metis length_take min.absorb2)
    ultimately show ?thesis using own True by (simp add: own_actions_def take_Suc_conv_app_nth)
  next
    case False
    then have "length acc = length (rendered_actions opt (reqs ! i))"
      using own by (simp add: own_actions_def elements_def) (metis length_take min.absorb2)
    then show ?thesis using own False by (simp add: own_actions_def)
  qed
  then show ?thesis using inv i Running
    by (auto simp: render_inv_def render_step_def nth_list_update)
next
  case (Ran acc)
  then show ?thesis using inv by (simp add: render_step_def)
qed

lemma render_run_inv:
  "set is \<subseteq> {..<length reqs} \<Longrightarrow> render_inv opt reqs s \<Longrightarrow>
   render_inv opt reqs (render_run opt (options_slice opt []) reqs is s)"
  by (induction "is" arbitrary: s) (auto simp: render_run_def intro: render_step_inv)

text \<open>How far a goroutine is after \<open>k\<close> steps.\<close>

definition progress :: "'act render_phase \<Rightarrow> nat \<Rightarrow> bool" where
  "progress p k = (case p of NotStarted \<Rightarrow> k = 0 | Running sl done \<Rightarrow> k = length done + 1 | Ran done \<Rightarrow> length done + 2 \<le> k)"

lemma render_step_phases:
  "length (phases (render_step opt pre reqs i s)) = length (phases s)"
  "j \<noteq> i \<Longrightarrow> phases (render_step opt pre reqs i s) ! j = phases s ! j"
  by (simp_all add: render_step_def Let_def split: render_phase.split prod.split)

lemma render_step_progress:
  "i < length (phases s) \<Longrightarrow> progress (phases s ! i) k \<Longrightarrow>
   progress (phases (render_step opt pre reqs i s) ! i) (Suc k)"
  by (cases "phases s ! i")
    (auto simp: render_step_def progress_def Let_def split: prod.split)

lemma render_run_progress:
  assumes "set is \<subseteq> {..<length reqs}" and "i < length reqs"
  shows "progress (phases (render_run opt pre reqs is (render_init opt spare reqs)) ! i) (count_list is i)
    \<and> length (phases (render_run opt pre reqs is (render_init opt spare reqs))) = length reqs"
  using assms(1)
proof (induction "is" rule: rev_induct)
  case Nil
  then show ?case using assms(2) by (simp add: render_run_def render_init_def progress_def)
next
  case (snoc j js)
  let ?s = "render_run opt pre reqs js (render_init opt spare reqs)"
  have run: "render_run opt pre reqs (js @ [j]) (render_init opt spare reqs) = render_step opt pre reqs j ?s"
    by (simp add: render_run_def)
  show ?case unfolding run
    using snoc render_step_progress [of i ?s "count_list js i" opt pre reqs] assms(2)
    by (cases "j = i") (simp_all add: render_step_phases)
qed

text \<open>C19: When the slice of actions in the options fills its array, every rendered request runs the actions of the
  options, or the default ones, followed by its own, in whatever order the goroutines append and run;
  and it has run them when its goroutine has made two steps more than there are actions.\<close>

theorem rendered_requests_run_own_actions:
  assumes "set is \<subseteq> {..<length reqs}" and "i < length reqs"
  shows "phases (render_run opt (options_slice opt []) reqs is (render_init opt [] reqs)) ! i = Ran acts \<longleftrightarrow>
    acts = rendered_actions opt (reqs ! i) \<and> length acts + 2 \<le> count_list is i"
proof -
  let ?s = "render_run opt (options_slice opt []) reqs is (render_init opt [] reqs)"
  have "render_inv opt reqs (render_init opt [] reqs)"
    by (simp add: render_inv_def render_init_def own_actions_def)
  from render_run_inv [OF assms(1) this] assms(2)
  have own: "own_actions opt (reqs ! i) (arrays ?s) (phases ?s ! i)" by (simp add: render_inv_def)
  have prog: "progress (phases ?s ! i) (count_list is i)" using render_run_progress [OF assms] by blast
  show ?thesis
  proof (cases "phases ?s ! i")
    case (Running sl acc)
    then have "length acc \<le> length (rendered_actions opt (reqs ! i))"
      using own by (simp add: own_actions_def elements_def) (metis length_take min.absorb2)
    then show ?thesis using Running prog by (auto simp: progress_def)
  qed (use own prog in \<open>auto simp: own_actions_def progress_def\<close>)
qed

text \<open>Two requests with one action each, whose goroutines append before either of them runs anything.\<close>

definition two_renderings :: "nat request list" where
  "two_renderings = map (\<lambda>a. \<lparr>HTTP = mk_request ''GET'' ''a'' ''/'' [], Meta = [], Synchronized = False,
     Rendered = True, Encoding = [], Cancelled = False, Actions = [a], retryCounter = 0\<rparr>) [1, 2]"

definition one_pre_action :: "(nat, unit) client_options" where
  "one_pre_action = \<lparr>MaxBodySize = 0, CharsetDetectDisabled = True, RetryTimes = 0, RetryHTTPCodes = [],
     RemoteAllocatorURL = [], ProxyFunc = None, PreActions = [0]\<rparr>"

theorem rendered_requests_run_own_actions_witness:
  "phases (render_run one_pre_action (options_slice one_pre_action []) two_renderings [0, 1, 1, 0, 0, 1, 0, 1]
     (render_init one_pre_action [] two_renderings)) ! 0 = Ran [UserAction 0, UserAction 1]"
  using rendered_requests_run_own_actions [of "[0, 1, 1, 0, 0, 1, 0, 1]" two_renderings 0 one_pre_action
      "[UserAction 0, UserAction 1]"]
  by (simp add: two_renderings_def one_pre_action_def rendered_actions_def)

text \<open>With one place to spare the same schedule makes the first request run the action of the second.\<close>

lemma two_renderings_mixed:
  "phases (render_run one_pre_action (options_slice one_pre_action [UserAction 9]) two_renderings [0, 1, 1, 0, 0, 1, 0, 1]
     (render_init one_pre_action [UserAction 9] two_renderings)) ! 0 = Ran [UserAction 0, UserAction 2]"
  by code_simp

section \<open>With spare room\<close>

text \<open>A goroutine that runs its actions without a pause runs what is in the array of its slice.\<close>

lemma runs_elements:
  assumes "phases s ! i = Running sl acc" and "i < length (phases s)"
    and "acc = take (length acc) (elements (arrays s) sl)" and "length acc \<le> len sl"
    and "len sl \<le> length (arrays s ! array sl)"
  shows "phases (render_run opt pre reqs (replicate (Suc (len sl - length acc)) i) s) ! i = Ran (elements (arrays s) sl)"
  using assms
proof (induction "len sl - length acc" arbitrary: s acc)
  case 0
  then have "acc = elements (arrays s) sl" by (simp add: elements_def)
  then show ?case using 0 by (simp add: render_run_def render_step_def)
next
  case (Suc n)
  let ?acc = "acc @ [arrays s ! array sl ! length acc]"
  let ?s = "s\<lparr>phases := (phases s)[i := Running sl ?acc]\<rparr>"
  have step: "render_step opt pre reqs i s = ?s" using Suc.hyps(2) Suc.prems(1) by (simp add: render_step_def)
  have less: "length acc < length (elements (arrays s) sl)" using Suc.hyps(2) Suc.prems(5) by (simp add: elements_def)
  then have "elements (arrays s) sl ! length acc = arrays s ! array sl ! length acc" by (simp add: elements_def)
  then have acc: "?acc = take (length ?acc) (elements (arrays s) sl)"
    using Suc.prems(3) take_Suc_conv_app_nth [OF less] by simp
  have "phases (render_run opt pre reqs (replicate (Suc (len sl - length ?acc)) i) ?s) ! i = Ran (elements (arrays s) sl)"
    using Suc.hyps(1) [of ?acc ?s] Suc.hyps(2) Suc.prems acc by simp
  moreover have "Suc (len sl - length acc) = Suc (Suc (len sl - length ?acc))" using Suc.hyps(2) by simp
  ultimately show ?case using step by (simp add: render_run_def del: length_append)
qed

text \<open>When the array of that slice has room for the actions of a request, a second rendered request with as many
  actions overwrites those that the first one has appended but not run: the first request runs the actions
  of the second.\<close>

theorem spare_room_mixes_actions:
  assumes "PreActions opt \<noteq> []" and "length (Actions r1) = length (Actions r2)"
    and "length (Actions r1) \<le> length spare"
  shows "\<exists>is. phases (render_run opt (options_slice opt spare) [r1, r2] is (render_init opt spare [r1, r2])) ! 0
    = Ran (rendered_actions opt r2)"
proof -
  let ?n = "length (PreActions opt) + length (Actions r2)"
  let ?sl = "\<lparr>array = 0, len = ?n, cap = length (PreActions opt) + length spare\<rparr>"
  let ?st = "[rendered_actions opt r2 @ drop (length (Actions r2)) spare]"
  let ?s = "render_run opt (options_slice opt spare) [r1, r2] [0, 1] (render_init opt spare [r1, r2])"
  have s: "?s = \<lparr>arrays = ?st, phases = [Running ?sl [], Running ?sl []]\<rparr>"
    using assms
    by (simp add: render_run_def render_step_def render_init_def options_slice_def append_slice_def
        rendered_actions_def Let_def)
  have len: "length (rendered_actions opt r2) = ?n" using assms(1) by (simp add: rendered_actions_def)
  have "phases (render_run opt (options_slice opt spare) [r1, r2] (replicate (Suc ?n) 0) ?s) ! 0
      = Ran (elements (arrays ?s) ?sl)"
    using runs_elements [of ?s 0 ?sl "[]" opt "options_slice opt spare" "[r1, r2]"] len unfolding s by simp
  moreover have "elements (arrays ?s) ?sl = rendered_actions opt r2"
    using len unfolding s by (simp add: elements_def)
  ultimately show ?thesis
    by (intro exI [of _ "[0, 1] @ replicate (Suc ?n) 0"]) (simp add: render_run_def)
qed

end
