(* ===== verification/Host_Limits.thy ===== *)
theory Host_Limits
  imports Concurrency_Laws
begin

text \<open>
  The limit per host where it works: in runs in which no goroutine looks up the semaphore of a host while
  another is about to make it. Then every host has one channel, which counts its requests; the limit holds,
  and there is no deadlock.
\<close>

section \<open>Orderly steps\<close>

text \<open>A goroutine that found no channel for its host and has not put one into the map yet.\<close>

fun making :: "phase \<Rightarrow> bool" where
  "making (Looked None) = True" | "making (Made c) = True" | "making p = False"

definition orderly :: "nat \<Rightarrow> sched \<Rightarrow> bool" where
  "orderly i s \<longleftrightarrow> (phase (tasks s ! i) = Admitted \<longrightarrow>
     (\<forall>t\<in>set (tasks s). host t = host (tasks s ! i) \<longrightarrow> \<not> making (phase t)))"

inductive orderly_step :: "limits \<Rightarrow> sched \<Rightarrow> sched \<Rightarrow> bool" for lim :: limits where
  orderly_spawn: "orderly_step lim s (spawn h s)"
| orderly_sync: "i < length (tasks s) \<Longrightarrow> phase (tasks s ! i) = Running \<Longrightarrow> orderly_step lim s (spawn_sync i h s)"
| orderly_do: "i < length (tasks s) \<Longrightarrow> orderly i s \<Longrightarrow> task_step lim i s = Some s' \<Longrightarrow> orderly_step lim s s'"

abbreviation orderly_reachable :: "limits \<Rightarrow> sched \<Rightarrow> bool" where
  "orderly_reachable lim \<equiv> reachable (orderly_step lim) sched_init"

lemma orderly_sched_step: "orderly_step lim s s' \<Longrightarrow> sched_step lim s s'"
  by (induction rule: orderly_step.induct) (auto intro: sched_step.intros)

lemma orderly_sched_reachable: "orderly_reachable lim s \<Longrightarrow> sched_reachable lim s"
  by (induction rule: reachable.induct) (auto intro: orderly_sched_step)

section \<open>One channel per host\<close>

text \<open>The requests that hold a token of their host.\<close>

definition held :: "string \<Rightarrow> sched \<Rightarrow> nat" where
  "held h s = length (filter (\<lambda>t. host t = h \<and> holds_token (phase t)) (tasks s))"

text \<open>What a goroutine knows of the channel of its host.\<close>

fun phase_ok :: "sched \<Rightarrow> string \<Rightarrow> phase \<Rightarrow> bool" where
  "phase_ok s h Spawned = True"
| "phase_ok s h Admitted = True"
| "phase_ok s h (Looked None) = (hostSems s h = None)"
| "phase_ok s h (Looked (Some c)) = (hostSems s h = Some c)"
| "phase_ok s h (Made c) = (hostSems s h = None \<and> c \<notin> ran (hostSems s) \<and> channels s ! c = 0)"
| "phase_ok s h (Acquiring c) = (hostSems s h = Some c)"
| "phase_ok s h (Receiving c) = (hostSems s h = Some c)"
| "phase_ok s h Finished = True"
| "phase_ok s h p = (hostSems s h \<noteq> None)"

definition tasks_ok :: "sched \<Rightarrow> bool" where
  "tasks_ok s \<longleftrightarrow> (\<forall>i<length (tasks s). phase_ok s (host (tasks s ! i)) (phase (tasks s ! i)))"

definition makers_differ :: "sched \<Rightarrow> bool" where
  "makers_differ s \<longleftrightarrow> (\<forall>i<length (tasks s). \<forall>j<length (tasks s). i \<noteq> j \<longrightarrow>
     making (phase (tasks s ! i)) \<longrightarrow> making (phase (tasks s ! j)) \<longrightarrow>
     host (tasks s ! i) \<noteq> host (tasks s ! j)
     \<and> (\<forall>c. phase (tasks s ! i) = Made c \<longrightarrow> phase (tasks s ! j) \<noteq> Made c))"

definition channels_count :: "sched \<Rightarrow> bool" where
  "channels_count s \<longleftrightarrow> (\<forall>h c. hostSems s h = Some c \<longrightarrow>
     channels s ! c = held h s \<and> (\<forall>h'. hostSems s h' = Some c \<longrightarrow> h' = h))"

definition host_inv :: "sched \<Rightarrow> bool" where
  "host_inv s \<longleftrightarrow> channels_exist s \<and> tasks_ok s \<and> makers_differ s \<and> channels_count s"

lemma held_goto:
  "i < length (tasks s) \<Longrightarrow> held h (goto i p s) + ind (host (tasks s ! i) = h \<and> holds_token (phase (tasks s ! i))) =
     held h s + ind (host (tasks s ! i) = h \<and> holds_token p)"
  using length_filter_update [of i "tasks s" "\<lambda>t. host t = h \<and> holds_token (phase t)" "(tasks s ! i)\<lparr>phase := p\<rparr>"]
  by (simp add: held_def tasks_goto)

lemma held_other [simp]:
  "held h (s\<lparr>wgRequests := a\<rparr>) = held h s" "held h (s\<lparr>semGlobal := b\<rparr>) = held h s"
  "held h (s\<lparr>channels := c\<rparr>) = held h s" "held h (s\<lparr>hostSems := d\<rparr>) = held h s"
  by (simp_all add: held_def)

lemma phase_ok_token: "phase_ok s h p \<Longrightarrow> holds_token p \<Longrightarrow> hostSems s h \<noteq> None"
  by (cases p) simp_all

lemma tasks_okD: "tasks_ok s \<Longrightarrow> i < length (tasks s) \<Longrightarrow> phase_ok s (host (tasks s ! i)) (phase (tasks s ! i))"
  by (simp add: tasks_ok_def)

lemma held_zero:
  assumes "tasks_ok s" and "hostSems s h = None"
  shows "held h s = 0"
proof -
  have "\<not> (host (tasks s ! i) = h \<and> holds_token (phase (tasks s ! i)))" if "i < length (tasks s)" for i
    using phase_ok_token [OF tasks_okD [OF assms(1) that]] assms(2) by metis
  then show ?thesis by (simp add: held_def filter_empty_conv all_set_conv_all_nth)
qed

section \<open>Steps keep the invariant\<close>

lemma phase_ok_cong:
  "hostSems s' = hostSems s \<Longrightarrow> channels s' = channels s \<Longrightarrow> phase_ok s' h p = phase_ok s h p"
  by (induction s h p rule: phase_ok.induct) simp_all

lemma phase_ok_other [simp]:
  "phase_ok (goto i q s) h p = phase_ok s h p" "phase_ok (s\<lparr>wgRequests := a\<rparr>) h p = phase_ok s h p"
  "phase_ok (s\<lparr>semGlobal := b\<rparr>) h p = phase_ok s h p"
  by (rule phase_ok_cong; simp)+

lemma tasks_ok_goto:
  assumes "i < length (tasks s)" and "phase_ok s (host (tasks s ! i)) p"
    and "\<And>j. j < length (tasks s) \<Longrightarrow> j \<noteq> i \<Longrightarrow> phase_ok s (host (tasks s ! j)) (phase (tasks s ! j))"
  shows "tasks_ok (goto i p s)"
  using assms by (auto simp: tasks_ok_def tasks_goto nth_list_update)

lemma makers_differ_goto:
  assumes "i < length (tasks s)" and "makers_differ s"
    and "making p \<Longrightarrow> \<forall>j<length (tasks s). j \<noteq> i \<longrightarrow> making (phase (tasks s ! j)) \<longrightarrow>
      host (tasks s ! j) \<noteq> host (tasks s ! i) \<and> (\<forall>c. p = Made c \<longrightarrow> phase (tasks s ! j) \<noteq> Made c)"
  shows "makers_differ (goto i p s)"
  using assms unfolding makers_differ_def by (auto simp: tasks_goto nth_list_update)

lemma makers_differ_other [simp]:
  "makers_differ (s\<lparr>wgRequests := a\<rparr>) = makers_differ s" "makers_differ (s\<lparr>semGlobal := b\<rparr>) = makers_differ s"
  "makers_differ (s\<lparr>channels := c\<rparr>) = makers_differ s" "makers_differ (s\<lparr>hostSems := d\<rparr>) = makers_differ s"
  by (simp_all add: makers_differ_def)

text \<open>A step that neither makes a channel nor takes or gives back a token.\<close>

lemma quiet_step:
  assumes "host_inv s" and "i < length (tasks s)" and "phase_ok s (host (tasks s ! i)) p" and "\<not> making p"
    and "holds_token p = holds_token (phase (tasks s ! i))" and "channels_exist (goto i p s)"
  shows "host_inv (goto i p s)"
proof -
  note I = assms(1) [unfolded host_inv_def]
  have "tasks_ok (goto i p s)" using I assms(2,3) by (intro tasks_ok_goto) (auto simp: tasks_ok_def)
  moreover have "makers_differ (goto i p s)" using I assms(2,4) by (intro makers_differ_goto) auto
  moreover have "held h (goto i p s) = held h s" for h using held_goto [OF assms(2), of h p] assms(5) by (simp split: if_splits)
  ultimately show ?thesis using I assms(6) by (simp add: host_inv_def channels_count_def)
qed

lemma host_inv_other:
  "host_inv (s\<lparr>wgRequests := a\<rparr>) = host_inv s" "host_inv (s\<lparr>semGlobal := b\<rparr>) = host_inv s"
  by (simp_all add: host_inv_def channels_exist_def tasks_ok_def channels_count_def)

lemma phase_ok_channels:
  "phase_ok s h p \<Longrightarrow> (\<And>c. p = Made c \<Longrightarrow> cs ! c = channels s ! c) \<Longrightarrow> phase_ok (s\<lparr>channels := cs\<rparr>) h p"
  by (induction s h p rule: phase_ok.induct) simp_all

lemma phase_ok_stored:
  "phase_ok s h p \<Longrightarrow> hostSems s h' = None \<Longrightarrow> (h = h' \<Longrightarrow> \<not> making p) \<Longrightarrow> p \<noteq> Made c \<Longrightarrow>
   phase_ok (s\<lparr>hostSems := (hostSems s)(h' \<mapsto> c)\<rparr>) h p"
  by (induction s h p rule: phase_ok.induct) (auto simp: ran_def)

text \<open>A goroutine makes a channel.\<close>

lemma make_step:
  assumes "host_inv s" and "i < length (tasks s)" and "phase (tasks s ! i) = Looked None"
    and "channels_exist (goto i (Made (length (channels s))) (s\<lparr>channels := channels s @ [0]\<rparr>))"
  shows "host_inv (goto i (Made (length (channels s))) (s\<lparr>channels := channels s @ [0]\<rparr>))"
    (is "host_inv (goto i ?p ?s)")
proof -
  note I = assms(1) [unfolded host_inv_def]
  have old: "c < length (channels s)" if "j < length (tasks s)" "phase (tasks s ! j) = Made c" for j c
    using I that by (fastforce simp: channels_exist_def all_set_conv_all_nth)
  have sems: "c < length (channels s)" if "hostSems s h = Some c" for h c
    using I that by (auto simp: channels_exist_def ran_def)
  have mine: "hostSems s (host (tasks s ! i)) = None" using tasks_okD [of s i] I assms(2,3) by simp
  have "phase_ok ?s (host (tasks s ! j)) (phase (tasks s ! j))" if "j < length (tasks s)" for j
    using that I old by (intro phase_ok_channels) (auto simp: tasks_ok_def nth_append)
  moreover have "phase_ok ?s (host (tasks s ! i)) ?p" using mine sems by (fastforce simp: ran_def)
  ultimately have "tasks_ok (goto i ?p ?s)" using assms(2) by (intro tasks_ok_goto) auto
  moreover have "makers_differ (goto i ?p ?s)"
    using I assms(2,3) old by (intro makers_differ_goto) (auto simp: makers_differ_def)
  moreover have "held h (goto i ?p ?s) = held h s" for h using held_goto [of i ?s h ?p] assms(2,3) by simp
  then have "channels_count (goto i ?p ?s)" using I sems by (simp add: channels_count_def nth_append)
  ultimately show ?thesis using assms(4) by (simp add: host_inv_def)
qed

text \<open>A goroutine puts its channel into the map.\<close>

lemma store_step:
  assumes "host_inv s" and "i < length (tasks s)" and "phase (tasks s ! i) = Made c"
    and "channels_exist (goto i (Acquiring c) (s\<lparr>hostSems := (hostSems s)(host (tasks s ! i) \<mapsto> c)\<rparr>))"
  shows "host_inv (goto i (Acquiring c) (s\<lparr>hostSems := (hostSems s)(host (tasks s ! i) \<mapsto> c)\<rparr>))"
    (is "host_inv (goto i ?p ?s)")
proof -
  note I = assms(1) [unfolded host_inv_def]
  let ?h = "host (tasks s ! i)"
  have mine: "hostSems s ?h = None" "c \<notin> ran (hostSems s)" "channels s ! c = 0"
    using tasks_okD [of s i] I assms(2,3) by simp_all
  have "phase_ok ?s (host (tasks s ! j)) (phase (tasks s ! j))" if "j < length (tasks s)" "j \<noteq> i" for j
  proof (rule phase_ok_stored [OF tasks_okD [OF _ that(1)] mine(1)])
    show "tasks_ok s" using I by simp
    have "making (phase (tasks s ! j)) \<Longrightarrow> host (tasks s ! j) \<noteq> ?h \<and> phase (tasks s ! j) \<noteq> Made c"
      using I that assms(2,3) by (metis makers_differ_def making.simps(2))
    then show "host (tasks s ! j) = ?h \<Longrightarrow> \<not> making (phase (tasks s ! j))" and "phase (tasks s ! j) \<noteq> Made c"
      by auto
  qed
  then have "tasks_ok (goto i ?p ?s)" using assms(2) by (intro tasks_ok_goto) auto
  moreover have "makers_differ (goto i ?p ?s)" using I assms(2) by (intro makers_differ_goto) auto
  moreover have "held h (goto i ?p ?s) = held h s" for h using held_goto [of i ?s h ?p] assms(2,3) by simp
  then have "channels_count (goto i ?p ?s)"
    using I mine held_zero [of s ?h] by (auto simp: channels_count_def ran_def)
  ultimately show ?thesis using assms(4) by (simp add: host_inv_def)
qed

text \<open>A goroutine takes a token of its host, or gives one back.\<close>

lemma token_step:
  assumes "host_inv s" and "i < length (tasks s)" and c: "hostSems s (host (tasks s ! i)) = Some c"
    and "phase_ok s (host (tasks s ! i)) p" and "\<not> making p"
    and n: "n + ind (holds_token (phase (tasks s ! i))) = channels s ! c + ind (holds_token p)"
    and "channels_exist (goto i p (s\<lparr>channels := (channels s)[c := n]\<rparr>))"
  shows "host_inv (goto i p (s\<lparr>channels := (channels s)[c := n]\<rparr>))" (is "host_inv (goto i p ?s)")
proof -
  note I = assms(1) [unfolded host_inv_def]
  let ?h = "host (tasks s ! i)"
  have len: "c < length (channels s)" using I c by (auto simp: channels_exist_def ran_def)
  have "phase_ok ?s (host (tasks s ! j)) q"
    if "phase_ok s (host (tasks s ! j)) q" for j q
  proof (rule phase_ok_channels [OF that])
    fix d assume "q = Made d"
    then have "d \<noteq> c" using that c by (auto simp: ran_def)
    then show "(channels s)[c := n] ! d = channels s ! d" by simp
  qed
  then have "tasks_ok (goto i p ?s)" using assms(2,4) I by (intro tasks_ok_goto) (auto simp: tasks_ok_def)
  moreover have "makers_differ (goto i p ?s)" using I assms(2,5) by (intro makers_differ_goto) auto
  moreover have "channels_count (goto i p ?s)"
    unfolding channels_count_def
  proof (intro allI impI conjI)
    fix h d assume d: "hostSems (goto i p ?s) h = Some d"
    show "h' = h" if "hostSems (goto i p ?s) h' = Some d" for h'
      using that d I by (simp add: channels_count_def)
    have same: "d = c \<longleftrightarrow> h = ?h" and count: "channels s ! d = held h s"
      using d c I by (auto simp: channels_count_def)
    show "channels (goto i p ?s) ! d = held h (goto i p ?s)"
      using held_goto [of i ?s h p] assms(2) n same count len by (cases "h = ?h") (simp_all split: if_splits)
  qed
  ultimately show ?thesis using assms(7) by (simp add: host_inv_def)
qed

lemma goto_other [simp]:
  "goto i p (s\<lparr>wgRequests := a\<rparr>) = (goto i p s)\<lparr>wgRequests := a\<rparr>"
  "goto i p (s\<lparr>semGlobal := b\<rparr>) = (goto i p s)\<lparr>semGlobal := b\<rparr>"
  by (simp_all add: goto_def)

lemma channels_exist_other [simp]:
  "channels_exist (s\<lparr>wgRequests := a\<rparr>) = channels_exist s" "channels_exist (s\<lparr>semGlobal := b\<rparr>) = channels_exist s"
  by (simp_all add: channels_exist_def)

lemma look_step:
  assumes "host_inv s" and "i < length (tasks s)" and "phase (tasks s ! i) = Admitted" and "orderly i s"
    and "channels_exist (goto i (Looked (hostSems s (host (tasks s ! i)))) s)"
  shows "host_inv (goto i (Looked (hostSems s (host (tasks s ! i)))) s)"
proof (cases "hostSems s (host (tasks s ! i))")
  case None
  note I = assms(1) [unfolded host_inv_def]
  have "tasks_ok (goto i (Looked None) s)" using I assms(2) None by (intro tasks_ok_goto) (auto simp: tasks_ok_def)
  moreover have "makers_differ (goto i (Looked None) s)"
    using I assms(2-4) by (intro makers_differ_goto) (auto simp: orderly_def)
  moreover have "held h (goto i (Looked None) s) = held h s" for h
    using held_goto [OF assms(2), of h "Looked None"] assms(3) by simp
  ultimately show ?thesis using I assms(5) None by (simp add: host_inv_def channels_count_def)
next
  case (Some c)
  then show ?thesis using quiet_step [OF assms(1,2), of "Looked (Some c)"] assms(3,5) by simp
qed

lemma orderly_task_step:
  assumes I: "host_inv s" and i: "i < length (tasks s)" and "orderly i s" and s': "task_step lim i s = Some s'"
    and "perHost lim \<noteq> 0"
  shows "host_inv s'"
proof -
  have ex: "channels_exist s'" using step_channels_exist [OF i s'] I by (simp add: host_inv_def)
  have ok: "phase_ok s (host (tasks s ! i)) (phase (tasks s ! i))"
    using I i by (simp add: host_inv_def tasks_ok_def)
  note step = s' [unfolded task_step_def Let_def]
  show ?thesis
  proof (cases "phase (tasks s ! i)")
    case Spawned
    then show ?thesis using step ex quiet_step [OF I i, of Admitted] by (auto simp: host_inv_other split: if_splits)
  next
    case Admitted
    then show ?thesis using step ex look_step [OF I i Admitted assms(3)] assms(5) by auto
  next
    case (Looked c)
    then show ?thesis using step ex ok make_step [OF I i] quiet_step [OF I i, of "Acquiring (the c)"]
      by (cases c) auto
  next
    case (Made c)
    then show ?thesis using step ex store_step [OF I i Made] by auto
  next
    case (Acquiring c)
    then show ?thesis using step ex ok token_step [OF I i, of c Running] by (auto split: if_splits)
  next
    case Running
    then show ?thesis using step ex ok quiet_step [OF I i, of Counted] by (auto simp: host_inv_other)
  next
    case (Awaiting c)
    then show ?thesis using step ex ok quiet_step [OF I i, of Running] by (auto split: if_splits)
  next
    case Counted
    then show ?thesis using step ex ok quiet_step [OF I i, of Released] by (auto simp: host_inv_other split: if_splits)
  next
    case Released
    then show ?thesis using step ex assms(5) quiet_step [OF I i, of "Receiving c" for c]
      by (auto split: option.splits)
  next
    case (Receiving c)
    then show ?thesis using step ex ok token_step [OF I i, of c Finished] by (auto split: if_splits)
  next
    case Finished
    then show ?thesis using step by simp
  qed
qed

lemma spawn_nth_Suc:
  "j < Suc (length (tasks s)) \<Longrightarrow>
   tasks (spawn h s) ! j = (if j = length (tasks s) then \<lparr>host = h, phase = Spawned\<rparr> else tasks s ! j)"
  by (simp add: spawn_def nth_append)

lemma host_inv_spawn:
  assumes "host_inv s"
  shows "host_inv (spawn h s)"
proof -
  note I = assms [unfolded host_inv_def]
  have same: "phase_ok (spawn h s) h' p = phase_ok s h' p" for h' p by (rule phase_ok_cong) simp_all
  have "held h' (spawn h s) = held h' s" for h' by (simp add: held_def spawn_def)
  then have "channels_count (spawn h s)" using I by (simp add: channels_count_def)
  moreover have "tasks_ok (spawn h s)" using I by (simp add: tasks_ok_def same spawn_nth_Suc)
  moreover have "makers_differ (spawn h s)" using I 
    by (auto simp: makers_differ_def spawn_nth_Suc) (metis less_SucE making.simps(2))
  moreover have "channels_exist (spawn h s)" using I by (auto simp: channels_exist_def spawn_def)
  ultimately show ?thesis by (simp add: host_inv_def)
qed

lemma host_inv_sync:
  assumes "host_inv s" and "i < length (tasks s)" and "phase (tasks s ! i) = Running"
  shows "host_inv (spawn_sync i h s)"
  unfolding spawn_sync_def
proof (rule quiet_step [OF host_inv_spawn [OF assms(1)]])
  have "phase_ok s (host (tasks s ! i)) Running" using tasks_okD [of s i] assms by (simp add: host_inv_def)
  then show "phase_ok (spawn h s) (host (tasks (spawn h s) ! i)) (Awaiting (length (tasks s)))"
    using assms(2) by (simp add: spawn_nth)
  have "set (tasks (goto i (Awaiting (length (tasks s))) (spawn h s))) \<subseteq>
    insert ((tasks s ! i)\<lparr>phase := Awaiting (length (tasks s))\<rparr>) (set (tasks (spawn h s)))"
    using assms(2) set_update_subset_insert by (simp add: tasks_goto spawn_nth)
  then show "channels_exist (goto i (Awaiting (length (tasks s))) (spawn h s))"
    using host_inv_spawn [OF assms(1), of h] by (fastforce simp: host_inv_def channels_exist_def)
qed (use assms in \<open>simp_all add: spawn_nth\<close>)

interpretation host_limit: invariant "orderly_step lim" sched_init "\<lambda>s. perHost lim \<noteq> 0 \<longrightarrow> host_inv s"
proof unfold_locales
  show "perHost lim \<noteq> 0 \<longrightarrow> host_inv sched_init"
    by (simp add: sched_init_def host_inv_def channels_exist_def tasks_ok_def makers_differ_def channels_count_def)
next
  fix s s'
  assume "orderly_step lim s s'" and I: "perHost lim \<noteq> 0 \<longrightarrow> host_inv s"
  then show "perHost lim \<noteq> 0 \<longrightarrow> host_inv s'"
    by cases (auto intro: host_inv_spawn host_inv_sync orderly_task_step)
qed

section \<open>What orderly runs promise\<close>

lemma orderly_host_inv: "orderly_reachable lim s \<Longrightarrow> perHost lim \<noteq> 0 \<Longrightarrow> host_inv s"
  using host_limit.always by blast

lemma held_pos: "0 < held h s \<Longrightarrow> \<exists>i<length (tasks s). host (tasks s ! i) = h \<and> holds_token (phase (tasks s ! i))"
  by (auto simp: held_def filter_empty_conv all_set_conv_all_nth)

lemma held_ge: "i < length (tasks s) \<Longrightarrow> holds_token (phase (tasks s ! i)) \<Longrightarrow> 0 < held (host (tasks s ! i)) s"
  by (auto simp: held_def filter_empty_conv)

definition can_go :: "limits \<Rightarrow> sched \<Rightarrow> bool" where
  "can_go lim s \<longleftrightarrow> (\<exists>i<length (tasks s). orderly i s \<and> task_step lim i s \<noteq> None)"

lemma token_goes:
  assumes reach: "orderly_reachable lim s" and lim: "perHost lim \<noteq> 0" and none: "nobody_awaits s"
    and i: "i < length (tasks s)" and t: "holds_token (phase (tasks s ! i))"
  shows "can_go lim s"
proof -
  have I: "channels_count s" "phase_ok s (host (tasks s ! i)) (phase (tasks s ! i))"
    using orderly_host_inv [OF reach lim] i by (simp_all add: host_inv_def tasks_ok_def)
  have slot: "0 < semGlobal s" if "perScraper lim \<noteq> 0" "holds_slot (phase (tasks s ! i))"
    using slots.always [OF orderly_sched_reachable [OF reach]] count_phase_zero [of holds_slot s] that i by auto
  have "\<not> awaits (phase (tasks s ! i))" using none i by (simp add: nobody_awaits_def)
  moreover have "0 < held (host (tasks s ! i)) s" using held_ge [OF i t] .
  ultimately have "orderly i s \<and> task_step lim i s \<noteq> None"
    using t I slot by (cases "phase (tasks s ! i)")
      (auto simp: orderly_def task_step_def Let_def channels_count_def split: option.splits)
  then show ?thesis using i by (auto simp: can_go_def)
qed

lemma maker_goes:
  assumes "i < length (tasks s)" and "making (phase (tasks s ! i))"
  shows "can_go lim s"
proof -
  have "orderly i s \<and> task_step lim i s \<noteq> None"
    using assms(2) by (cases "phase (tasks s ! i)" rule: making.cases) (auto simp: orderly_def task_step_def Let_def)
  then show ?thesis using assms(1) by (auto simp: can_go_def)
qed

lemma slot_goes:
  assumes reach: "orderly_reachable lim s" and lim: "perHost lim \<noteq> 0" and none: "nobody_awaits s"
    and i: "i < length (tasks s)" and p: "phase (tasks s ! i) \<noteq> Finished" "phase (tasks s ! i) \<noteq> Spawned"
  shows "can_go lim s"
proof (cases "(\<exists>j<length (tasks s). making (phase (tasks s ! j))) \<or> holds_token (phase (tasks s ! i))")
  case True
  then show ?thesis using maker_goes token_goes [OF reach lim none i] by blast
next
  case False
  then have plain: "orderly i s" by (auto simp: orderly_def in_set_conv_nth)
  show ?thesis
  proof (cases "\<exists>c. phase (tasks s ! i) = Acquiring c \<and> perHost lim \<le> channels s ! c")
    case True
    then obtain c where c: "phase (tasks s ! i) = Acquiring c" "perHost lim \<le> channels s ! c" by blast
    then have "0 < held (host (tasks s ! i)) s"
      using orderly_host_inv [OF reach lim] tasks_okD [of s i] i lim by (auto simp: host_inv_def channels_count_def)
    then show ?thesis using held_pos token_goes [OF reach lim none] by blast
  next
    case go: False
    have "task_step lim i s \<noteq> None"
      using p go False i by (cases "phase (tasks s ! i)") (auto simp: task_step_def Let_def split: option.splits)
    then show ?thesis using plain i by (auto simp: can_go_def)
  qed
qed

lemma orderly_progress:
  assumes reach: "orderly_reachable lim s" and lim: "perHost lim \<noteq> 0" and none: "nobody_awaits s"
    and i: "i < length (tasks s)" and p: "phase (tasks s ! i) \<noteq> Finished"
  shows "can_go lim s"
proof (cases "phase (tasks s ! i) = Spawned \<and> (perScraper lim = 0 \<or> semGlobal s < perScraper lim)")
  case True
  then have "orderly i s \<and> task_step lim i s \<noteq> None" by (auto simp: orderly_def task_step_def)
  then show ?thesis using i by (auto simp: can_go_def)
next
  case False
  show ?thesis
  proof (cases "phase (tasks s ! i) = Spawned")
    case True
    then have "0 < count_phase holds_slot s"
      using False slots.always [OF orderly_sched_reachable [OF reach]] by auto
    then obtain j where "j < length (tasks s)" "holds_slot (phase (tasks s ! j))" using count_phase_pos by blast
    then show ?thesis using slot_goes [OF reach lim none] by (metis holds_slot.simps(1,4))
  qed (use slot_goes [OF reach lim none i p] in simp)
qed

text \<open>C25: In an orderly run \<open>ConcurrentRequestsPerDomain\<close> is what its name says: of the requests of one host at
  most that many are handled at the same time. And the scraper is not deadlocked: unless a callback waits for
  a synchronized request, some goroutine can go on, in an orderly way, until all have ended.\<close>

theorem orderly_host_limit:
  assumes "orderly_reachable lim s" and "perHost lim \<noteq> 0"
  shows "length (filter (\<lambda>t. host t = h \<and> phase t = Running) (tasks s)) \<le> perHost lim
    \<and> ((\<exists>t\<in>set (tasks s). awaits (phase t)) \<or> (\<forall>t\<in>set (tasks s). phase t = Finished)
       \<or> (\<exists>i<length (tasks s). orderly i s \<and> task_step lim i s \<noteq> None))"
proof
  let ?run = "\<lambda>t. host t = h \<and> phase t = Running"
  have "length (filter ?run (tasks s)) \<le> held h s"
    unfolding held_def by (rule length_filter_mono) auto
  also have "\<dots> \<le> perHost lim"
  proof (cases "hostSems s h")
    case None
    then show ?thesis using held_zero orderly_host_inv [OF assms] by (simp add: host_inv_def)
  next
    case (Some c)
    then have "held h s = channels s ! c" "c < length (channels s)"
      using orderly_host_inv [OF assms] by (auto simp: host_inv_def channels_count_def channels_exist_def ran_def)
    then show ?thesis using tokens.always [OF orderly_sched_reachable [OF assms(1)]] assms(2) by simp
  qed
  finally show "length (filter ?run (tasks s)) \<le> perHost lim" .
  show "(\<exists>t\<in>set (tasks s). awaits (phase t)) \<or> (\<forall>t\<in>set (tasks s). phase t = Finished)
       \<or> (\<exists>i<length (tasks s). orderly i s \<and> task_step lim i s \<noteq> None)"
    using orderly_progress [OF assms] unfolding can_go_def nobody_awaits_def by (metis in_set_conv_nth)
qed

text \<open>A schedule whose steps are orderly.\<close>

fun orderly_run :: "limits \<Rightarrow> choice list \<Rightarrow> sched \<Rightarrow> sched option" where
  "orderly_run lim [] s = Some s"
| "orderly_run lim (Go h # cs) s = orderly_run lim cs (spawn h s)"
| "orderly_run lim (GoSync i h # cs) s =
     (if i < length (tasks s) \<and> phase (tasks s ! i) = Running
      then orderly_run lim cs (spawn_sync i h s) else None)"
| "orderly_run lim (Step i # cs) s =
     (if i < length (tasks s) \<and> orderly i s
      then (case task_step lim i s of None \<Rightarrow> None | Some s' \<Rightarrow> orderly_run lim cs s') else None)"

lemma orderly_run_reachable:
  "orderly_run lim cs s = Some s' \<Longrightarrow> orderly_reachable lim s \<Longrightarrow> orderly_reachable lim s'"
  by (induction lim cs s rule: orderly_run.induct)
    (auto intro: orderly_spawn orderly_sync orderly_do split: if_splits option.splits)

text \<open>Two requests of one host, the second looking the host up when the first has stored its channel.\<close>

definition one_after_the_other :: "choice list" where
  "one_after_the_other = [Go ''h'', Go ''h'', Step 0, Step 1, Step 0, Step 0, Step 0, Step 0, Step 1, Step 1]"

lemma one_after_the_other_run:
  "map_option (\<lambda>s. (map phase (tasks s), Option.is_none (task_step one_per_host 1 s)))
     (orderly_run one_per_host one_after_the_other sched_init) = Some ([Running, Acquiring 0], True)"
  by code_simp

theorem orderly_host_limit_witness:
  "\<exists>s. orderly_run one_per_host one_after_the_other sched_init = Some s
     \<and> map phase (tasks s) = [Running, Acquiring 0] \<and> task_step one_per_host 1 s = None
     \<and> length (filter (\<lambda>t. host t = ''h'' \<and> phase t = Running) (tasks s)) \<le> 1"
proof -
  obtain s where s: "orderly_run one_per_host one_after_the_other sched_init = Some s"
    "map phase (tasks s) = [Running, Acquiring 0]" "task_step one_per_host 1 s = None"
    using one_after_the_other_run by (auto simp: Option.is_none_def)
  then have "orderly_reachable one_per_host s" by (auto intro: orderly_run_reachable)
  from orderly_host_limit [OF this, of "''h''"] s show ?thesis by (simp add: one_per_host_def)
qed

end
