(* ===== verification/Limited_Crawl.thy ===== *)
theory Limited_Crawl
  imports Crawl_Laws Host_Limits
begin

text \<open>
  A whole crawl with its semaphores: the goroutines of Crawl, each of which takes its turn as in Concurrency
  before its first step and gives it back after its last. What the semaphores add is that a run may get stuck;
  it does not, whatever the limits are, as long as no goroutine looks up the semaphore of a host while
  another is making it, which needs no attention without a limit per host.
\<close>

section \<open>State and steps\<close>

text \<open>
  The crawl, the goroutines with the semaphores, and the numbers of the goroutines whose requests are waiting
  and in flight, in the order of the lists of the crawl.
\<close>

record ('rd, 'n, 'act) limited =
  crawl :: "('rd, ('n, 'act) crawl_world) mw_state"
  sem :: sched
  wait_ids :: "nat list"
  fly_ids :: "nat list"

text \<open>The sizes of the channels; \<open>make\<close> panics with a negative one.\<close>

definition limits_of :: "('cache, 'proxy, 'act, 'm, 'x) options \<Rightarrow> limits option" where
  "limits_of opt =
     (if ConcurrentRequests opt < 0 \<or> ConcurrentRequestsPerDomain opt < 0 then None
      else Some \<lparr>perScraper = nat (ConcurrentRequests opt), perHost = nat (ConcurrentRequestsPerDomain opt)\<rparr>)"

abbreviation host_of :: "'act request \<Rightarrow> string" where
  "host_of r \<equiv> RHost (HTTP r)"

definition limited_start ::
  "(string \<Rightarrow> string \<Rightarrow> string \<Rightarrow> 'e + http_request) \<Rightarrow> ('cache, 'proxy, 'act, 'm, 'x) geziyor \<Rightarrow> 'n \<Rightarrow>
   ('rd, 'n, 'act) limited" where
  "limited_start http_New g w =
     (let c = crawl_start http_New g w; new = waiting (world c)
      in \<lparr>crawl = c, sem = fold spawn (map host_of new) sched_init, wait_ids = [0..<length new], fly_ids = []\<rparr>)"

text \<open>
  \<open>Turn i\<close>: a step of goroutine \<open>i\<close> before or after it handles its request. \<open>Handle a\<close>: a step of the crawl, by a
  goroutine that has its turn. The goroutine of a request that was cancelled, or handled, calls
  \<open>wgRequests.Done\<close> and goes on to \<open>releaseSem\<close>; the requests its callback made are goroutines by then. A step
  that would end the program is no step.
\<close>

datatype limited_action = Turn nat | Handle crawl_action

definition limited_step ::
  "('e, ('n, 'act) crawl_world, 'act, 'proxy, 'rd, 'doc, 'm) env \<Rightarrow>
   ('cache, 'proxy, 'act, 'm, 'x) geziyor \<Rightarrow> (string \<Rightarrow> string \<Rightarrow> string list) \<Rightarrow> limits \<Rightarrow> limited_action \<Rightarrow>
   ('rd, 'n, 'act) limited \<Rightarrow> ('rd, 'n, 'act) limited option" where
  "limited_step env g links lim a s =
     (case a of
        Turn i \<Rightarrow>
          if i < length (tasks (sem s)) \<and> phase (tasks (sem s) ! i) \<noteq> Running
          then map_option (\<lambda>t. s\<lparr>sem := t\<rparr>) (task_step lim i (sem s)) else None
      | Handle (Begin j) \<Rightarrow>
          if j < length (wait_ids s) \<and> phase (tasks (sem s) ! (wait_ids s ! j)) = Running then
            (case crawl_step env g links (Begin j) (crawl s) of
               Some (False, c) \<Rightarrow>
                 (let s1 = s\<lparr>crawl := c, wait_ids := drop_nth j (wait_ids s)\<rparr>
                  in if flying (world c) = flying (world (crawl s))
                     then map_option (\<lambda>t. s1\<lparr>sem := t\<rparr>) (task_step lim (wait_ids s ! j) (sem s))
                     else Some (s1\<lparr>fly_ids := fly_ids s @ [wait_ids s ! j]\<rparr>))
             | _ \<Rightarrow> None)
          else None
      | Handle (Complete j) \<Rightarrow>
          if j < length (fly_ids s) then
            (case crawl_step env g links (Complete j) (crawl s) of
               Some (False, c) \<Rightarrow>
                 (let new = drop (length (waiting (world (crawl s)))) (waiting (world c));
                      n = length (tasks (sem s));
                      s1 = s\<lparr>crawl := c, wait_ids := wait_ids s @ [n..<n + length new], fly_ids := drop_nth j (fly_ids s)\<rparr>
                  in map_option (\<lambda>t. s1\<lparr>sem := t\<rparr>)
                       (task_step lim (fly_ids s ! j) (fold spawn (map host_of new) (sem s))))
             | _ \<Rightarrow> None)
          else None)"

fun limited_run ::
  "('e, ('n, 'act) crawl_world, 'act, 'proxy, 'rd, 'doc, 'm) env \<Rightarrow>
   ('cache, 'proxy, 'act, 'm, 'x) geziyor \<Rightarrow> (string \<Rightarrow> string \<Rightarrow> string list) \<Rightarrow> limits \<Rightarrow> limited_action list \<Rightarrow>
   ('rd, 'n, 'act) limited \<Rightarrow> ('rd, 'n, 'act) limited option" where
  "limited_run env g links lim [] s = Some s"
| "limited_run env g links lim (a # as) s =
     (case limited_step env g links lim a s of None \<Rightarrow> None | Some s' \<Rightarrow> limited_run env g links lim as s')"

text \<open>With a limit per host, no goroutine looks up the semaphore of a host while another is making it.\<close>

definition orderly_turn :: "limits \<Rightarrow> limited_action \<Rightarrow> ('rd, 'n, 'act) limited \<Rightarrow> bool" where
  "orderly_turn lim a s \<longleftrightarrow> perHost lim = 0 \<or> (case a of Turn i \<Rightarrow> orderly i (sem s) | Handle _ \<Rightarrow> True)"

fun orderly_turns ::
  "('e, ('n, 'act) crawl_world, 'act, 'proxy, 'rd, 'doc, 'm) env \<Rightarrow>
   ('cache, 'proxy, 'act, 'm, 'x) geziyor \<Rightarrow> (string \<Rightarrow> string \<Rightarrow> string list) \<Rightarrow> limits \<Rightarrow> limited_action list \<Rightarrow>
   ('rd, 'n, 'act) limited \<Rightarrow> bool" where
  "orderly_turns env g links lim [] s = True"
| "orderly_turns env g links lim (a # as) s =
     (orderly_turn lim a s
      \<and> (case limited_step env g links lim a s of None \<Rightarrow> True | Some s' \<Rightarrow> orderly_turns env g links lim as s'))"

section \<open>The goroutines of a crawl\<close>

definition sem_ok :: "limits \<Rightarrow> sched \<Rightarrow> bool" where
  "sem_ok lim t \<longleftrightarrow> sched_reachable lim t \<and> (perHost lim \<noteq> 0 \<longrightarrow> orderly_reachable lim t) \<and> nobody_awaits t"

lemma tasks_spawns:
  "tasks (fold spawn hs t) = tasks t @ map (\<lambda>h. \<lparr>host = h, phase = Spawned\<rparr>) hs"
  by (induction hs arbitrary: t) (simp_all add: spawn_def)

lemma sem_ok_spawn: "sem_ok lim t \<Longrightarrow> sem_ok lim (spawn h t)"
proof -
  assume ok: "sem_ok lim t"
  then have "sched_reachable lim t" by (simp add: sem_ok_def)
  then have "sched_reachable lim (spawn h t)" by (rule next_state) (rule do_spawn)
  moreover have "orderly_reachable lim (spawn h t)" if "perHost lim \<noteq> 0"
  proof -
    have "orderly_reachable lim t" using ok that by (simp add: sem_ok_def)
    then show ?thesis by (rule next_state) (rule orderly_spawn)
  qed
  ultimately show ?thesis using ok by (auto simp: sem_ok_def nobody_awaits_def spawn_def)
qed

lemma sem_ok_spawns: "sem_ok lim t \<Longrightarrow> sem_ok lim (fold spawn hs t)"
  by (induction hs arbitrary: t) (simp_all add: sem_ok_spawn)

lemma sem_ok_init: "sem_ok lim sched_init"
  by (auto simp: sem_ok_def nobody_awaits_def)

lemma sem_ok_step:
  assumes "sem_ok lim t" and "i < length (tasks t)" and "task_step lim i t = Some t'"
    and "perHost lim = 0 \<or> orderly i t"
  shows "sem_ok lim t'"
proof -
  have "sched_reachable lim t" using assms(1) by (simp add: sem_ok_def)
  then have "sched_reachable lim t'" by (rule next_state) (rule do_step [OF assms(2,3)])
  moreover have "orderly_reachable lim t'" if "perHost lim \<noteq> 0"
  proof -
    have "orderly_reachable lim t" "orderly i t" using assms(1,4) that by (simp_all add: sem_ok_def)
    from this(1) show ?thesis by (rule next_state) (rule orderly_do [OF assms(2) \<open>orderly i t\<close> assms(3)])
  qed
  ultimately show ?thesis using step_awaits [OF assms(2,3)] assms(1) by (simp add: sem_ok_def)
qed

text \<open>A goroutine of a request that has not ended can take a step, or another one can.\<close>

lemma sem_progress:
  assumes "sem_ok lim t" and "i < length (tasks t)" and "phase (tasks t ! i) \<noteq> Finished"
  shows "\<exists>k<length (tasks t). (perHost lim = 0 \<or> orderly k t) \<and> (\<exists>t'. task_step lim k t = Some t')"
proof (cases "perHost lim = 0")
  case True
  then show ?thesis using progress [of lim t "tasks t ! i"] assms by (auto simp: sem_ok_def)
next
  case False
  then show ?thesis using orderly_progress [of lim t i] assms by (auto simp: sem_ok_def can_go_def)
qed

lemma turn_undone:
  "i < length (tasks t) \<Longrightarrow> task_step lim i t = Some t' \<Longrightarrow> phase (tasks t ! i) \<noteq> Running \<Longrightarrow>
   undone (phase (tasks t' ! i)) = undone (phase (tasks t ! i))"
  by (auto simp: task_step_def Let_def phase_goto split: phase.splits option.splits if_splits)

lemma running_step:
  assumes "i < length (tasks t)" and "phase (tasks t ! i) = Running"
  shows "task_step lim i t = Some (goto i Counted (t\<lparr>wgRequests := wgRequests t - 1\<rparr>))" and "orderly i t"
  using assms(2) by (simp_all add: task_step_def orderly_def)

text \<open>The numbers of the goroutines: those that are not done have their requests in the crawl.\<close>

definition ids_match :: "nat list \<Rightarrow> nat list \<Rightarrow> ('n, 'act) crawl_world \<Rightarrow> sched \<Rightarrow> bool" where
  "ids_match ws fs c t \<longleftrightarrow> length ws = length (waiting c) \<and> length fs = length (flying c)
     \<and> distinct (ws @ fs) \<and> set (ws @ fs) \<subseteq> {..<length (tasks t)}
     \<and> (\<forall>k<length (tasks t). undone (phase (tasks t ! k)) \<longleftrightarrow> k \<in> set (ws @ fs))
     \<and> (\<forall>k\<in>set fs. phase (tasks t ! k) = Running)"

abbreviation ids_ok :: "('rd, 'n, 'act) limited \<Rightarrow> bool" where
  "ids_ok s \<equiv> ids_match (wait_ids s) (fly_ids s) (world (crawl s)) (sem s)"

lemma drop_nth_distinct_set:
  assumes "distinct xs" and "j < length xs"
  shows "set (drop_nth j xs) = set xs - {xs ! j}" and "distinct (drop_nth j xs)"
proof -
  have "distinct (xs ! j # drop_nth j xs)"
    using assms mset_eq_imp_distinct_iff [of xs "xs ! j # drop_nth j xs"] drop_nth_mset [OF assms(2)] by simp
  then show "set (drop_nth j xs) = set xs - {xs ! j}" and "distinct (drop_nth j xs)"
    using drop_nth_set [OF assms(2)] by auto
qed

text \<open>A step of a goroutine that does not handle its request.\<close>

lemma turn_ids:
  assumes "ids_match ws fs c t" and i: "i < length (tasks t)" "task_step lim i t = Some t'"
    and "phase (tasks t ! i) \<noteq> Running"
  shows "ids_match ws fs c t'"
proof -
  note I = assms(1) [unfolded ids_match_def]
  have same: "undone (phase (tasks t' ! k)) = undone (phase (tasks t ! k))" if "k < length (tasks t)" for k
    using turn_undone [OF i assms(4)] step_other [OF i, of k] by (cases "k = i") simp_all
  have "phase (tasks t' ! k) = Running" if "k \<in> set fs" for k
    using I that step_other [OF i, of k] assms(4) by (cases "k = i") auto
  then show ?thesis using I same step_length [OF i] by (simp add: ids_match_def)
qed

text \<open>A goroutine that is done with its request.\<close>

lemma counted_phase:
  assumes "k < length (tasks t)" and "phase (tasks t ! k) = Running" and "task_step lim k t = Some t'"
  shows "length (tasks t') = length (tasks t)"
    and "m < length (tasks t) \<Longrightarrow> phase (tasks t' ! m) = (if m = k then Counted else phase (tasks t ! m))"
proof -
  have t': "t' = goto k Counted (t\<lparr>wgRequests := wgRequests t - 1\<rparr>)"
    using assms(3) running_step(1) [OF assms(1,2), of lim] by simp
  show "length (tasks t') = length (tasks t)" by (simp add: t')
  show "phase (tasks t' ! m) = (if m = k then Counted else phase (tasks t ! m))" if "m < length (tasks t)"
    using that assms(1) by (simp add: t' phase_goto)
qed

lemma cancelled_ids:
  assumes "ids_match ws fs c t" and j: "j < length ws" and run: "phase (tasks t ! (ws ! j)) = Running"
    and st: "task_step lim (ws ! j) t = Some t'"
    and w: "length (waiting c') = length ws - 1" and f: "flying c' = flying c"
  shows "ids_match (drop_nth j ws) fs c' t'"
proof -
  note I = assms(1) [unfolded ids_match_def]
  have "ws ! j \<in> set ws" using j by (rule nth_mem)
  then have k: "ws ! j < length (tasks t)" "ws ! j \<notin> set fs" using I by auto
  have d: "distinct ws" using I by simp
  note drop = drop_nth_distinct_set [OF d j]
  note cp = counted_phase [OF k(1) run st]
  show ?thesis unfolding ids_match_def
  proof (intro conjI allI impI ballI)
    show "length (drop_nth j ws) = length (waiting c')" using w drop_nth_length [OF j] by simp
    show "length fs = length (flying c')" using I f by simp
    show "distinct (drop_nth j ws @ fs)" using I drop by auto
    show "set (drop_nth j ws @ fs) \<subseteq> {..<length (tasks t')}" using I drop cp(1) by auto
    show "undone (phase (tasks t' ! m)) = (m \<in> set (drop_nth j ws @ fs))" if "m < length (tasks t')" for m
      using that cp I drop k(2) by auto
    show "phase (tasks t' ! m) = Running" if "m \<in> set fs" for m using that cp(2) [of m] I k(2) by auto
  qed
qed

lemma passed_ids:
  assumes "ids_match ws fs c t" and j: "j < length ws" and run: "phase (tasks t ! (ws ! j)) = Running"
    and w: "length (waiting c') = length ws - 1" and f: "length (flying c') = Suc (length (flying c))"
  shows "ids_match (drop_nth j ws) (fs @ [ws ! j]) c' t"
proof -
  note I = assms(1) [unfolded ids_match_def]
  have d: "distinct ws" using I by simp
  note drop = drop_nth_distinct_set [OF d j]
  have k: "ws ! j \<in> set ws" using j by (rule nth_mem)
  have set: "set (drop_nth j ws @ fs @ [ws ! j]) = set (ws @ fs)" using drop k by auto
  show ?thesis unfolding ids_match_def set
  proof (intro conjI ballI)
    show "length (drop_nth j ws) = length (waiting c')" using w drop_nth_length [OF j] by simp
    show "length (fs @ [ws ! j]) = length (flying c')" using I f by simp
    show "distinct (drop_nth j ws @ fs @ [ws ! j])" using I drop k by auto
    show "phase (tasks t ! m) = Running" if "m \<in> set (fs @ [ws ! j])" for m using that I run by auto
  qed (use I in blast)+
qed

lemma completed_ids:
  assumes "ids_match ws fs c t" and j: "j < length fs"
    and st: "task_step lim (fs ! j) (fold spawn hs t) = Some t'"
    and w: "length (waiting c') = length ws + length hs" and f: "length (flying c') = length fs - 1"
  shows "ids_match (ws @ [length (tasks t)..<length (tasks t) + length hs]) (drop_nth j fs) c' t'"
proof -
  note I = assms(1) [unfolded ids_match_def]
  let ?k = "fs ! j" and ?n = "length (tasks t)"
  let ?ws = "ws @ [?n..<?n + length hs]"
  have m: "?k \<in> set fs" using j by (rule nth_mem)
  then have k: "?k < ?n" "phase (tasks t ! ?k) = Running" using I by auto
  have d: "distinct fs" using I by simp
  note drop = drop_nth_distinct_set [OF d j]
  have k': "?k < length (tasks (fold spawn hs t))" "phase (tasks (fold spawn hs t) ! ?k) = Running"
    using k by (simp_all add: tasks_spawns nth_append)
  note cp = counted_phase [OF k' st, unfolded tasks_spawns]
  have len: "length (tasks t') = ?n + length hs" using cp(1) by simp
  have ph: "phase (tasks t' ! m) = (if m = ?k then Counted else if m < ?n then phase (tasks t ! m) else Spawned)"
    if "m < ?n + length hs" for m using cp(2) [of m] that by (auto simp: nth_append)
  show ?thesis unfolding ids_match_def
  proof (intro conjI allI impI ballI)
    show "length ?ws = length (waiting c')" using w by simp
    show "length (drop_nth j fs) = length (flying c')" using f drop_nth_length [OF j] by simp
    show "distinct (?ws @ drop_nth j fs)" using I drop by auto
    show "set (?ws @ drop_nth j fs) \<subseteq> {..<length (tasks t')}" using I drop len by auto
    show "undone (phase (tasks t' ! l)) = (l \<in> set (?ws @ drop_nth j fs))" if "l < length (tasks t')" for l
      using that ph [of l] len I drop m by auto
    show "phase (tasks t' ! l) = Running" if "l \<in> set (drop_nth j fs)" for l
      using that ph [of l] I drop by auto
  qed
qed

section \<open>Steps keep the invariant\<close>

text \<open>What holds of the crawl, of the goroutines, and between them; the steps of the crawl are counted by
  \<open>crawl_measure\<close>, the others by \<open>work\<close>.\<close>

definition limited_inv ::
  "(string \<Rightarrow> string \<Rightarrow> string \<Rightarrow> 'e + http_request) \<Rightarrow> ('cache, 'proxy, 'act, 'm, 'x) options \<Rightarrow>
   (string \<Rightarrow> string option) \<Rightarrow> (string \<Rightarrow> string \<Rightarrow> string list) \<Rightarrow> ('n \<Rightarrow> bool) \<Rightarrow> ('n \<Rightarrow> string set) \<Rightarrow>
   limits \<Rightarrow> ('rd, 'n, 'act) limited \<Rightarrow> bool" where
  "limited_inv http_New opt page links good fetched lim s \<longleftrightarrow>
     crawl_inv http_New opt page links good fetched (crawl s) \<and> sem_ok lim (sem s) \<and> ids_ok s"

definition advances ::
  "('e, ('n, 'act) crawl_world, 'act, 'proxy, 'rd, 'doc, 'm) env \<Rightarrow>
   ('cache, 'proxy, 'act, 'm, 'x) geziyor \<Rightarrow> (string \<Rightarrow> string \<Rightarrow> string list) \<Rightarrow>
   ('rd, 'n, 'act) limited \<Rightarrow> ('rd, 'n, 'act) limited \<Rightarrow> bool" where
  "advances env g links s s' \<longleftrightarrow>
     crawl s' = crawl s \<and> work (sem s') < work (sem s)
     \<or> (\<exists>a. crawl_step env g links a (crawl s) = Some (False, crawl s'))"

lemma turn_step:
  assumes "limited_inv http_New opt page links good fetched lim s"
    and "limited_step env g links lim (Turn i) s = Some s'" and "orderly_turn lim (Turn i) s"
  shows "limited_inv http_New opt page links good fetched lim s' \<and> advances env g links s s'"
proof -
  obtain t where i: "i < length (tasks (sem s))" "task_step lim i (sem s) = Some t"
    and p: "phase (tasks (sem s) ! i) \<noteq> Running" and s': "s' = s\<lparr>sem := t\<rparr>"
    using assms(2) by (auto simp: limited_step_def split: if_splits)
  have o: "perHost lim = 0 \<or> orderly i (sem s)" using assms(3) by (auto simp: orderly_turn_def)
  note I = assms(1) [unfolded limited_inv_def]
  have "sem_ok lim t" using sem_ok_step [OF _ i o] I by blast
  moreover have "ids_match (wait_ids s) (fly_ids s) (world (crawl s)) t" using turn_ids [OF _ i p] I by blast
  ultimately show ?thesis using I step_work [OF i] by (simp add: limited_inv_def advances_def s')
qed

lemma begin_turn:
  assumes set: "crawl_setting env opt g links site urls good fetched"
    and inv: "limited_inv (newRequest env) opt (page_of env g site) links good fetched lim s"
    and step: "limited_step env g links lim (Handle (Begin j)) s = Some s'"
  shows "limited_inv (newRequest env) opt (page_of env g site) links good fetched lim s' \<and> advances env g links s s'"
proof -
  note I = inv [unfolded limited_inv_def]
  obtain c where j: "j < length (wait_ids s)" and run: "phase (tasks (sem s) ! (wait_ids s ! j)) = Running"
    and c: "crawl_step env g links (Begin j) (crawl s) = Some (False, c)"
    using step by (auto simp: limited_step_def split: if_splits option.splits prod.splits bool.splits)
  have jw: "j < length (waiting (world (crawl s)))" using I j by (simp add: ids_match_def)
  have "ready (waiting (world (crawl s)) ! j)" using I jw nth_mem unfolding crawl_inv_def by blast
  note b = begin_step [OF set jw this]
  have W: "length (waiting (world c)) = length (wait_ids s) - 1"
    using b c drop_nth_length [OF jw] I by (auto simp: ids_match_def)
  have ci: "crawl_inv (newRequest env) opt (page_of env g site) links good fetched c"
    using step_inv [OF set _ c] I by blast
  have k: "wait_ids s ! j < length (tasks (sem s))" using I nth_mem [OF j] by (auto simp: ids_match_def simp del: nth_mem)
  note match = I [THEN conjunct2, THEN conjunct2]
  show ?thesis
  proof (cases "flying (world c) = flying (world (crawl s))")
    case True
    obtain t where t: "task_step lim (wait_ids s ! j) (sem s) = Some t"
      using running_step(1) [OF k run] by blast
    then have s': "s' = s\<lparr>crawl := c, wait_ids := drop_nth j (wait_ids s), sem := t\<rparr>"
      using step c j run True by (simp add: limited_step_def)
    have "sem_ok lim t" using sem_ok_step [OF _ k t] running_step(2) [OF k run] I by blast
    then show ?thesis using ci cancelled_ids [OF match j run t W True] c
      by (auto simp: limited_inv_def advances_def s')
  next
    case False
    then have s': "s' = s\<lparr>crawl := c, wait_ids := drop_nth j (wait_ids s), fly_ids := fly_ids s @ [wait_ids s ! j]\<rparr>"
      using step c j run by (simp add: limited_step_def)
    have "length (flying (world c)) = Suc (length (flying (world (crawl s))))"
      using b c False by (auto split: if_splits)
    then show ?thesis using ci I passed_ids [OF match j run W] c
      by (auto simp: limited_inv_def advances_def s')
  qed
qed

lemma complete_turn:
  assumes set: "crawl_setting env opt g links site urls good fetched"
    and inv: "limited_inv (newRequest env) opt (page_of env g site) links good fetched lim s"
    and step: "limited_step env g links lim (Handle (Complete j)) s = Some s'"
  shows "limited_inv (newRequest env) opt (page_of env g site) links good fetched lim s' \<and> advances env g links s s'"
proof -
  note I = inv [unfolded limited_inv_def]
  note match = I [THEN conjunct2, THEN conjunct2]
  obtain c where j: "j < length (fly_ids s)"
    and c: "crawl_step env g links (Complete j) (crawl s) = Some (False, c)"
    using step by (auto simp: limited_step_def split: if_splits option.splits prod.splits bool.splits)
  have jf: "j < length (flying (world (crawl s)))" using I j by (simp add: ids_match_def)
  have inv_c: "crawl_inv (newRequest env) opt (page_of env g site) links good fetched (crawl s)" using I by blast
  note b = complete_step [OF set jf flying_url(1,3,4) [OF set inv_c jf]]
  have F: "length (flying (world c)) = length (fly_ids s) - 1"
    using b c drop_nth_length [OF jf] I by (auto simp: ids_match_def)
  define new where "new = drop (length (waiting (world (crawl s)))) (waiting (world c))"
  have W: "length (waiting (world c)) = length (wait_ids s) + length (map host_of new)"
    using b c I by (auto simp: new_def ids_match_def split: option.splits)
  have ci: "crawl_inv (newRequest env) opt (page_of env g site) links good fetched c"
    using step_inv [OF set inv_c c] by blast
  let ?t = "fold spawn (map host_of new) (sem s)"
  have "fly_ids s ! j < length (tasks (sem s))" "phase (tasks (sem s) ! (fly_ids s ! j)) = Running"
    using match nth_mem [OF j] by (auto simp: ids_match_def)
  then have k: "fly_ids s ! j < length (tasks ?t)" "phase (tasks ?t ! (fly_ids s ! j)) = Running"
    by (simp_all add: tasks_spawns nth_append)
  obtain t where t: "task_step lim (fly_ids s ! j) ?t = Some t" using running_step(1) [OF k] by blast
  have s': "s' = s\<lparr>crawl := c,
      wait_ids := wait_ids s @ [length (tasks (sem s))..<length (tasks (sem s)) + length (map host_of new)],
      fly_ids := drop_nth j (fly_ids s), sem := t\<rparr>"
    using step c j t by (simp add: limited_step_def Let_def new_def)
  have "sem_ok lim t" using sem_ok_step [OF sem_ok_spawns k(1) t] running_step(2) [OF k] I by blast
  then show ?thesis using ci completed_ids [OF match j t W F] c
    by (auto simp: limited_inv_def advances_def s')
qed

lemma limited_step_inv:
  assumes "crawl_setting env opt g links site urls good fetched"
    and "limited_inv (newRequest env) opt (page_of env g site) links good fetched lim s"
    and "limited_step env g links lim a s = Some s'" and "orderly_turn lim a s"
  shows "limited_inv (newRequest env) opt (page_of env g site) links good fetched lim s' \<and> advances env g links s s'"
proof (cases a)
  case (Turn i)
  then show ?thesis using turn_step [OF assms(2)] assms(3,4) by blast
next
  case (Handle b)
  then show ?thesis using begin_turn [OF assms(1,2)] complete_turn [OF assms(1,2)] assms(3) by (cases b) blast+
qed

section \<open>No crawl gets stuck\<close>

lemma running_enabled:
  assumes set: "crawl_setting env opt g links site urls good fetched"
    and inv: "limited_inv (newRequest env) opt (page_of env g site) links good fetched lim s"
    and k: "k < length (tasks (sem s))" "phase (tasks (sem s) ! k) = Running"
  shows "\<exists>a s'. limited_step env g links lim (Handle a) s = Some s'"
proof -
  note I = inv [unfolded limited_inv_def]
  have inv_c: "crawl_inv (newRequest env) opt (page_of env g site) links good fetched (crawl s)" using I by blast
  have "undone (phase (tasks (sem s) ! k))" using k(2) by simp
  then have "k \<in> set (wait_ids s @ fly_ids s)" using I k(1) unfolding ids_match_def by blast
  then consider (wait) j where "j < length (wait_ids s)" "wait_ids s ! j = k"
    | (fly) j where "j < length (fly_ids s)" "fly_ids s ! j = k" by (auto simp: in_set_conv_nth)
  then show ?thesis
  proof cases
    case wait
    then have j: "j < length (waiting (world (crawl s)))" using I by (simp add: ids_match_def)
    have "ready (waiting (world (crawl s)) ! j)" using inv_c j nth_mem unfolding crawl_inv_def by blast
    then obtain c where "crawl_step env g links (Begin j) (crawl s) = Some (False, c)"
      using begin_step [OF set j] by blast
    then have "limited_step env g links lim (Handle (Begin j)) s \<noteq> None"
      using wait k running_step(1) [OF k] by (simp add: limited_step_def Let_def)
    then show ?thesis by blast
  next
    case fly
    then have j: "j < length (flying (world (crawl s)))" using I by (simp add: ids_match_def)
    obtain c where c: "crawl_step env g links (Complete j) (crawl s) = Some (False, c)"
      using complete_step [OF set j flying_url(1,3,4) [OF set inv_c j]] by blast
    have "task_step lim k (fold spawn hs (sem s)) \<noteq> None" for hs
      using running_step(1) [of k "fold spawn hs (sem s)"] k by (simp add: tasks_spawns nth_append)
    then have "limited_step env g links lim (Handle (Complete j)) s \<noteq> None"
      using fly c by (simp add: limited_step_def Let_def)
    then show ?thesis by blast
  qed
qed

lemma limited_progress:
  assumes set: "crawl_setting env opt g links site urls good fetched"
    and inv: "limited_inv (newRequest env) opt (page_of env g site) links good fetched lim s"
    and t: "t \<in> set (tasks (sem s))" "phase t \<noteq> Finished"
  shows "\<exists>a s'. limited_step env g links lim a s = Some s' \<and> orderly_turn lim a s"
proof -
  obtain i where "i < length (tasks (sem s))" "phase (tasks (sem s) ! i) \<noteq> Finished"
    using t by (metis in_set_conv_nth)
  then obtain k t' where k: "k < length (tasks (sem s))" "perHost lim = 0 \<or> orderly k (sem s)"
    "task_step lim k (sem s) = Some t'"
    using sem_progress [of lim "sem s" i] inv unfolding limited_inv_def by blast
  show ?thesis
  proof (cases "phase (tasks (sem s) ! k) = Running")
    case True
    from running_enabled [OF set inv k(1) this] show ?thesis by (auto simp: orderly_turn_def)
  next
    case False
    then have "limited_step env g links lim (Turn k) s = Some (s\<lparr>sem := t'\<rparr>)"
      using k by (simp add: limited_step_def)
    moreover have "orderly_turn lim (Turn k) s" using k(2) by (simp add: orderly_turn_def)
    ultimately show ?thesis by blast
  qed
qed

lemma all_finished:
  assumes "limited_inv http_New opt page links good fetched lim s" and "\<forall>t\<in>set (tasks (sem s)). phase t = Finished"
  shows "waiting (world (crawl s)) = []" and "flying (world (crawl s)) = []" and "wgRequests (sem s) = 0"
proof -
  note I = assms(1) [unfolded limited_inv_def ids_match_def]
  have "\<not> undone (phase (tasks (sem s) ! k))" if "k < length (tasks (sem s))" for k
    using assms(2) nth_mem [OF that] by simp
  then have "k \<notin> set (wait_ids s @ fly_ids s)" for k using I by (meson lessThan_iff subsetD)
  then have "wait_ids s @ fly_ids s = []" by (metis list.set_intros(1) neq_Nil_conv)
  then show "waiting (world (crawl s)) = []" "flying (world (crawl s)) = []" using I by auto
  have "sched_reachable lim (sem s)" using I by (simp add: sem_ok_def)
  from wait_group.always [OF this] have "wgRequests (sem s) = int (count_phase undone (sem s))" by blast
  moreover have "count_phase undone (sem s) = 0" using assms(2) by (simp add: count_phase_zero)
  ultimately show "wgRequests (sem s) = 0" by simp
qed

section \<open>Runs\<close>

lemma limited_run_append:
  "limited_run env g links lim (as @ bs) s = Option.bind (limited_run env g links lim as s) (limited_run env g links lim bs)"
  by (induction as arbitrary: s) (auto split: option.split)

lemma orderly_turns_append:
  "limited_run env g links lim as s = Some s' \<Longrightarrow>
   orderly_turns env g links lim (as @ bs) s \<longleftrightarrow>
     orderly_turns env g links lim as s \<and> orderly_turns env g links lim bs s'"
  by (induction as arbitrary: s) (auto split: option.splits)

text \<open>An orderly run keeps the invariant, and what it does to the crawl is a run of the crawl.\<close>

lemma limited_run_inv:
  assumes set: "crawl_setting env opt g links site urls good fetched"
    and "limited_inv (newRequest env) opt (page_of env g site) links good fetched lim s"
    and "limited_run env g links lim as s = Some s'" and "orderly_turns env g links lim as s"
  shows "limited_inv (newRequest env) opt (page_of env g site) links good fetched lim s'
    \<and> (\<exists>cs. crawl_run env g links cs (crawl s) = Some (crawl s'))"
  using assms(2-)
proof (induction as arbitrary: s)
  case Nil
  have "crawl_run env g links [] (crawl s) = Some (crawl s)" by simp
  then show ?case using Nil by (metis limited_run.simps(1) option.inject)
next
  case (Cons a as)
  then obtain s1 where s1: "limited_step env g links lim a s = Some s1" "limited_run env g links lim as s1 = Some s'"
    and o: "orderly_turn lim a s" "orderly_turns env g links lim as s1"
    by (auto split: option.splits)
  note one = limited_step_inv [OF set Cons.prems(1) s1(1) o(1)]
  obtain cs where inv: "limited_inv (newRequest env) opt (page_of env g site) links good fetched lim s'"
    and cs: "crawl_run env g links cs (crawl s1) = Some (crawl s')"
    using Cons.IH [OF _ s1(2) o(2)] one by blast
  have "\<exists>cs. crawl_run env g links cs (crawl s) = Some (crawl s')"
    using one cs unfolding advances_def by (metis crawl_run.simps(2) option.simps(5) prod.simps(2) bool.simps(4))
  then show ?case using inv by blast
qed

lemma crawl_limited_start [simp]: "crawl (limited_start http_New g w) = crawl_start http_New g w"
  by (simp add: limited_start_def Let_def)

lemma limited_start_inv:
  assumes set: "crawl_setting env opt g links site urls good fetched" and "good w"
  shows "limited_inv (newRequest env) opt (page_of env g site) links good fetched lim (limited_start (newRequest env) g w)"
proof -
  have g: "NewGeziyor opt = Some g" using set by (simp add: crawl_setting_def standard_scraper_def)
  have "flying (world (crawl_start (newRequest env) g w)) = []" by (simp add: crawl_start_state(2) [OF g refl])
  then show ?thesis using start_inv [OF assms] sem_ok_spawns [OF sem_ok_init]
    by (auto simp: limited_inv_def limited_start_def Let_def ids_match_def tasks_spawns)
qed

definition all_done :: "('rd, 'n, 'act) limited \<Rightarrow> bool" where
  "all_done s \<longleftrightarrow> waiting (world (crawl s)) = [] \<and> flying (world (crawl s)) = []
     \<and> list_all (\<lambda>t. phase t = Finished) (tasks (sem s)) \<and> wgRequests (sem s) = 0"

lemma limited_completes_from:
  assumes set: "crawl_setting env opt g links site urls good fetched"
    and fin: "finite (reachable_urls (newRequest env) opt (page_of env g site) links)"
    and "limited_inv (newRequest env) opt (page_of env g site) links good fetched lim s"
  shows "\<exists>as s'. limited_run env g links lim as s = Some s' \<and> orderly_turns env g links lim as s \<and> all_done s'"
  using assms(3)
proof (induction s rule: wf_induct [OF wf_measures [of "[\<lambda>s. crawl_measure (link_count (page_of env g site) links)
    (reachable_urls (newRequest env) opt (page_of env g site) links) (crawl s), \<lambda>s. work (sem s)]"]])
  case (1 s)
  show ?case
  proof (cases "\<forall>t\<in>set (tasks (sem s)). phase t = Finished")
    case True
    then have "all_done s" using all_finished [OF 1(2) True] by (simp add: all_done_def list_all_iff)
    then have "limited_run env g links lim [] s = Some s \<and> orderly_turns env g links lim [] s \<and> all_done s" by simp
    then show ?thesis by blast
  next
    case False
    then obtain a s1 where s1: "limited_step env g links lim a s = Some s1" "orderly_turn lim a s"
      using limited_progress [OF set 1(2)] by blast
    note one = limited_step_inv [OF set 1(2) s1]
    have "crawl_inv (newRequest env) opt (page_of env g site) links good fetched (crawl s)"
      using 1(2) by (simp add: limited_inv_def)
    note less = step_measure [OF set this _ refl refl fin]
    have "\<exists>as s'. limited_run env g links lim as s1 = Some s' \<and> orderly_turns env g links lim as s1 \<and> all_done s'"
      using 1(1) one less unfolding advances_def by (auto simp: measures_def)
    then obtain as s' where "limited_run env g links lim as s1 = Some s'" "orderly_turns env g links lim as s1" "all_done s'"
      by blast
    then have "limited_run env g links lim (a # as) s = Some s' \<and> orderly_turns env g links lim (a # as) s \<and> all_done s'"
      using s1 by simp
    then show ?thesis by blast
  qed
qed

text \<open>C2: A crawl with its semaphores never gets stuck and never ends the program: whatever the limits, which are not negative, every run
  of a crawl with finitely many reachable URLs, in which no goroutine looks up the semaphore of a host while
  another is making it, can be continued in this way until every goroutine has ended; then the wait group is
  at zero, so that \<open>Start\<close> goes on, and every URL that can be reached has been visited.\<close>

theorem limited_crawl_completes:
  assumes "crawl_setting env opt g links site urls good fetched" and "good w"
    and "finite (reachable_urls (newRequest env) opt (page_of env g site) links)"
    and "limits_of opt = Some lim"
    and "limited_run env g links lim as (limited_start (newRequest env) g w) = Some s"
    and "orderly_turns env g links lim as (limited_start (newRequest env) g w)"
  shows "\<exists>bs s'. limited_run env g links lim (as @ bs) (limited_start (newRequest env) g w) = Some s'
    \<and> orderly_turns env g links lim (as @ bs) (limited_start (newRequest env) g w)
    \<and> waiting (world (crawl s')) = [] \<and> flying (world (crawl s')) = []
    \<and> list_all (\<lambda>t. phase t = Finished) (tasks (sem s')) \<and> wgRequests (sem s') = 0
    \<and> set (visitedURLs (crawl s')) = reachable_urls (newRequest env) opt (page_of env g site) links"
proof -
  let ?start = "limited_start (newRequest env) g w"
  note start = limited_start_inv [OF assms(1,2), of lim]
  have "limited_inv (newRequest env) opt (page_of env g site) links good fetched lim s"
    using limited_run_inv [OF assms(1) start assms(5,6)] by blast
  then obtain bs s' where bs: "limited_run env g links lim bs s = Some s'"
    "orderly_turns env g links lim bs s" and over: "all_done s'"
    using limited_completes_from [OF assms(1,3)] by blast
  then have run: "limited_run env g links lim (as @ bs) ?start = Some s'"
    "orderly_turns env g links lim (as @ bs) ?start"
    using assms(5,6) by (simp_all add: limited_run_append orderly_turns_append)
  obtain cs where "crawl_run env g links cs (crawl_start (newRequest env) g w) = Some (crawl s')"
    using limited_run_inv [OF assms(1) start run] by auto
  from crawl_visits_all [OF assms(1,2) this] show ?thesis
    using run over unfolding all_done_def by (intro exI [of _ bs] exI [of _ s']) simp
qed

section \<open>The small site with limits\<close>

text \<open>Two requests at a time and one per host; a run in which the page of the start URL has been handled.\<close>

definition limited_options :: "(unit, unit, unit, unit, unit) options" where
  "limited_options = small_options\<lparr>ConcurrentRequests := 2, ConcurrentRequestsPerDomain := 1\<rparr>"

definition limited_scraper :: "(unit, unit, unit, unit, unit) geziyor" where
  "limited_scraper = the (NewGeziyor limited_options)"

definition two_per_host_1 :: limits where
  "two_per_host_1 = \<lparr>perScraper = 2, perHost = 1\<rparr>"

definition first_page :: "limited_action list" where
  "first_page = [Turn 0, Turn 0, Turn 0, Turn 0, Turn 0, Handle (Begin 0), Handle (Complete 0), Turn 1, Turn 1]"

lemma first_page_run:
  "map_option (\<lambda>s. (parsed (world (crawl s)), map phase (tasks (sem s))))
     (limited_run small_env limited_scraper small_links two_per_host_1 first_page (limited_start small_request limited_scraper ()))
   = Some ([''http://a/''], [Counted, Looked (Some 0), Spawned, Spawned, Spawned])"
  "orderly_turns small_env limited_scraper small_links two_per_host_1 first_page (limited_start small_request limited_scraper ())"
  by code_simp+

lemma limited_setting:
  "crawl_setting small_env limited_options limited_scraper small_links small_site UNIV (\<lambda>n. True) (\<lambda>n. UNIV)"
proof -
  have "NewGeziyor limited_options \<noteq> None" by (simp add: NewGeziyor_def Let_def limited_options_def small_options_def)
  then show ?thesis using small.steady_net_axioms
    by (auto simp: crawl_setting_def standard_scraper_def limited_scraper_def makes_gets_def limited_options_def
        small_options_def example_opt_def small_env_def small_request_def split: if_splits)
qed

lemma limited_page: "page_of small_env limited_scraper small_site = small_pages"
proof
  fix k
  obtain g where g: "NewGeziyor limited_options = Some g" "limited_scraper = g"
    using limited_setting by (auto simp: crawl_setting_def standard_scraper_def)
  have "MaxBodySize (scraper_options_of limited_scraper) = 100"
    "CharsetDetectDisabled (scraper_options_of limited_scraper) = True"
    by (simp_all add: g NewGeziyor_sel [OF g(1)] new_client_def NewClient_def default_options_def
        limited_options_def small_options_def example_opt_def DefaultMaxBody_def Let_def)
  then show "page_of small_env limited_scraper small_site k = small_pages k"
    by (simp add: site_page_def small_site_def decode_body_def blank_request_def LimitReader_def ReadAll_def small_pages_def)
qed

lemma limited_reachable: "reachable_urls small_request limited_options small_pages small_links = small_reachable"
  by (rule reachable_urls_cong) (simp_all add: targets_def host_allowed_def limited_options_def)

theorem limited_crawl_completes_witness:
  "\<exists>bs s. limited_run small_env limited_scraper small_links two_per_host_1 (first_page @ bs)
      (limited_start small_request limited_scraper ()) = Some s
    \<and> list_all (\<lambda>t. phase t = Finished) (tasks (sem s)) \<and> wgRequests (sem s) = 0
    \<and> set (visitedURLs (crawl s)) = {''http://a/'', ''http://a/x'', ''http://a/404''}"
proof -
  obtain s where s: "limited_run small_env limited_scraper small_links two_per_host_1 first_page
      (limited_start small_request limited_scraper ()) = Some s"
    using first_page_run(1) by (auto simp: map_option_case split: option.splits)
  have lim: "limits_of limited_options = Some two_per_host_1"
    by (simp add: limits_of_def limited_options_def two_per_host_1_def)
  have urls: "reachable_urls (newRequest small_env) limited_options (page_of small_env limited_scraper small_site) small_links =
      {''http://a/'', ''http://a/x'', ''http://a/404''}"
    by (simp add: limited_page limited_reachable small_reachable)
  from limited_crawl_completes [OF limited_setting TrueI _ lim, of first_page "()" s, unfolded small_newRequest urls [unfolded small_newRequest]]
    s first_page_run(2)
  show ?thesis by auto
qed

end
