(* ===== verification/Spec2Isabelle.thy ===== *)
theory Spec2Isabelle
  imports Transport_Laws Middleware_Laws Engine_Laws Concurrency_Laws Scraping Json_Reading Map_Order
    Cached_Reading Crawl_Laws Http_Client Cached_Crawl Shared_Actions Host_Limits Limited_Crawl
begin

text \<open>
  A verification development for geziyor, a web scraping framework in Go.

  \<^bold>\<open>The program.\<close> A scraper (\<open>geziyor.go\<close>) is made from options (\<open>options.go\<close>) by
  \<open>NewGeziyor\<close>. \<open>Start\<close> starts the exporters and issues the start requests. Every request is
  handled by a goroutine (\<open>do\<close>): it passes the semaphores, the request middlewares
  (\<open>middleware/\<close>), the client (\<open>client/\<close>), whose transport may be a cache (\<open>cache/\<close>), the response
  middlewares and the user's callback. Callbacks issue more requests and send items on \<open>Exports\<close>; a
  dispatcher hands each item to every exporter (\<open>export/\<close>). When all requests are handled \<open>Start\<close>
  closes the channel, waits for the exporters and returns.

  \<^bold>\<open>Theories and what they model.\<close>

  \<^item> Prelude, Go_Strings: bytes, 64-bit wrap-around, Go maps; the parts of \<open>strings\<close> and \<open>strconv\<close>
    the source uses and \<open>internal/strings.go\<close>.
  \<^item> Http: header maps, URLs, requests, responses; \<open>SetDefaultHeader\<close>, \<open>ConvertHeaderToMap\<close> and
    \<open>ConvertMapToHeader\<close> of \<open>client.go\<close>.
  \<^item> Go_Time: durations with the \<open>float64\<close> rounding of \<open>time.Duration\<close>, \<open>time.ParseDuration\<close>,
    \<open>time.Parse\<close> for RFC 1123 dates. Wire: \<open>httputil.DumpResponse\<close> and \<open>http.ReadResponse\<close>, with
    the round trip between them. Go_MD5: \<open>crypto/md5\<close>.
  \<^item> Cache_Policy, Cache_Store, Cache_Transport (\<open>cache/cache.go\<close>, \<open>memorycache\<close>, \<open>diskcache\<close>,
    \<open>leveldbcache\<close>): parsing of \<open>Cache-Control\<close>, freshness, stale-if-error, \<open>Vary\<close>; the three stores;
    \<open>RoundTrip\<close> with both policies and \<open>cachingReadCloser\<close>. The state is the store, of any type, that a
    \<open>cache_impl\<close> works on. Transport_Laws: what is stored and served, for every store that keeps the
    laws of the locale \<open>cache_store\<close>, which the memory cache interprets (the disk and LevelDB caches over
    a key-value store that behaves as documented).
  \<^item> Client (\<open>client/client.go\<close>, \<open>request.go\<close>, \<open>response.go\<close>, \<open>proxy.go\<close>): \<open>NewClient\<close>, \<open>DoRequest\<close>
    with its retries (a recursion on the tries that are left), body limit and charset decoding, the
    Chrome run, redirects, cookies, proxy rotation on a 32-bit counter. Client_Laws: retries, limits. Cached_Reading: the
    reads of a body through \<open>MaxBodySize\<close> and the caching reader together, which pages get stored. Http_Client:
    \<open>http.Client.Do\<close> with cookies, redirects and the handler that \<open>NewGeziyor\<close> sets, as one way to fill in
    the client's network. Shared_Actions: the slices of Chrome actions with the arrays they share, and the
    goroutines that append to them.
  \<^item> Metrics, Middleware (\<open>metrics/\<close>, \<open>middleware/\<close>): every middleware as a function of the request and of
    the state \<open>mw_state\<close> (the maps of the middlewares, the observable events, and the world the client
    acts on). Middleware_Laws: each middleware, and the locale \<open>request_middleware\<close> of what all keep.
  \<^item> Engine (\<open>options.go\<close>, \<open>geziyor.go\<close>): the records \<open>options\<close> and \<open>geziyor\<close>, \<open>NewGeziyor\<close>, \<open>do\<close> with
    \<open>acquireSem\<close>, \<open>releaseSem\<close> and \<open>recoverMe\<close> as one goroutine sees them (what it sends and receives, and the panics), \<open>Do\<close>, \<open>Get\<close>, \<open>GetRendered\<close>, \<open>Head\<close>, \<open>Post\<close>, \<open>interruptSignalWaiter\<close>. Engine_Laws: refused
    requests, which requests end the program, labels of counters, interrupts.
  \<^item> Concurrency (\<open>Do\<close>, \<open>acquireSem\<close>, \<open>releaseSem\<close>): goroutines as a transition system; a state holds the
    phase of each goroutine, the wait group, and the tokens in each channel. Concurrency_Laws: invariants
    by the locale \<open>invariant\<close> (what the wait group, the slots and the tokens count), termination by a
    measure, absence of deadlock without a limit per host, and where the other limits fail: a goroutine that two
    lookups at once leave waiting for ever, and the deadlock of synchronized requests. Host_Limits: the
    limit per host holds, without deadlock, in the runs in which no goroutine looks up the semaphore of a host
    while another is making it.
  \<^item> Crawl (\<open>Start\<close>, \<open>Get\<close> and \<open>do\<close> together): goroutines pass the request middlewares and the client in
    any order, and the callback follows the links of a page; the semaphores are left out, so that it has more runs
    than the program. Crawl_Laws: on every network that keeps the laws
    of the locale \<open>steady_net\<close> (what it answers depends on the URL only), the crawl visits exactly what the
    reference set \<open>reachable_urls\<close> holds, each page once, and every run is bounded. Limited_Crawl: the crawl together with the semaphores of Concurrency,
    each goroutine taking its turn before it handles its request and giving it back afterwards; its orderly runs,
    in the sense of Host_Limits, project to runs of Crawl and can always be completed. Cached_Crawl: the client with the cache
    that \<open>NewGeziyor\<close> sets up is such a network under the Dummy policy, while it fills the cache and when it
    replays it, so that a crawl can be repeated from the cache, offline.
  \<^item> Exporters (\<open>export/\<close>): the four exporters over a file system given as a parameter, with
    \<open>encoding/json\<close>, \<open>encoding/csv\<close> and \<open>fmt\<close>. Exporters_Laws: exact contents, reading CSV back,
    map order, errors. Json_Reading: a reader of JSON, which inverts the encoder. Map_Order: the order
    of maps at any depth does not matter.
  \<^item> Fanout (\<open>startExporters\<close> and the end of \<open>Start\<close>): callbacks, dispatcher, exporters and \<open>Start\<close> as a
    transition system. Fanout_Laws: the invariant that ties what each exporter got to what was sent, a
    measure that bounds every run, and progress. Scraping: both together, for whole files.

  \<^bold>\<open>Conventions.\<close> Names are those of the source; a prime marks a field that another record has too, and
  a prefix (\<open>memory_Get\<close>, \<open>geziyor_Get\<close>) the type of a method. Errors are values of sums or options, panics
  are values too. Integers are unbounded with the wrap-around of Go written out (\<open>wrap64\<close>) where an
  overflow matters. Libraries that are not Go's own are parameters: the network, the charset decoders,
  Chrome, the robots library, the HTML parser, diskv and goleveldb, the file system, random numbers.

  \<^bold>\<open>Bounds and fuel.\<close> No definition of the program runs on fuel: loops are recursions on lists, on the tries
  that are left, or steps of a transition system. The reference readers of CSV and JSON take the length of
  their input as fuel, which suffices because every record or value has at least one byte. Every run of the three
  transition systems is bounded by a measure that each step lowers.

  \<^bold>\<open>Not modelled.\<close> How long the rate limiter, a library, waits (a call of it is an event of Engine), contexts and their cancellation, \<open>internal/logger.go\<close>,
  the metrics server's HTTP handling, TLS, \<open>net/url\<close> parsing, and the log lines of the client and those that
  print stacks. What a cookie jar holds is a parameter. The limits of
  Concurrency are natural numbers: the panic that a negative limit per host causes is in \<open>acquireSem\<close> of Engine. Cached_Crawl has no RFC 2616 policy: a
  response is stored there while its body is read, which Cached_Reading shows for one page. Exported floating-point numbers, pointers, slices of bytes,
  slices and maps that are nil, and values with marshalling
  methods of their own, and CSV delimiters outside ASCII, are left out. Two exporters that are given the
  same file name are outside the model of whole files.
\<close>

end
